(* ===== verification/Prelude.thy ===== *)
theory Prelude
  imports Main "HOL-Library.AList"
begin

text \<open>
  The shared vocabulary of the development: how a C or C++ statement can end
  (\<open>outcome\<close>), state-passing commands built from such statements
  (\<open>cmd\<close>, with sequencing, exceptions and a calculus of preserved
  predicates), and the association lists that stand for
  \<open>std::unordered_map\<close>, with the interface their clients rely on.

  A statement ends normally (\<open>Ret\<close>), by an exception that a caller can
  catch (\<open>Throw\<close>), in undefined behaviour or a trap of the machine
  (\<open>Fault\<close>, which nothing catches), or it does not proceed because a
  mutex is held by another thread (\<open>Block\<close>).
\<close>

section \<open>How a statement ends\<close>

datatype fault =
    Mutex_not_owned        \<comment> \<open>\<open>pthread_mutex_unlock\<close> by a thread that is not the owner\<close>
  | Mutex_relock           \<comment> \<open>\<open>pthread_mutex_lock\<close> by the thread that owns the mutex\<close>
  | Signed_overflow        \<comment> \<open>an \<open>int\<close> result that does not fit\<close>
  | Division_trap          \<comment> \<open>\<open>idiv\<close> by zero, or of \<open>INT_MIN\<close> by -1\<close>
  | Buffer_overrun         \<comment> \<open>a store past the end of an array\<close>
  | Index_out_of_range     \<comment> \<open>an unchecked \<open>operator[]\<close>, or \<open>back()\<close> of an empty string\<close>

datatype ('e, 'a) outcome = Ret 'a | Throw 'e | Fault fault | Block

type_synonym ('s, 'e, 'a) cmd = "'s \<Rightarrow> ('e, 'a) outcome \<times> 's"

fun bind_res :: "('e, 'a) outcome \<Rightarrow> ('a \<Rightarrow> ('e, 'b) outcome) \<Rightarrow> ('e, 'b) outcome" where
  "bind_res (Ret x) f = f x"
| "bind_res (Throw e) f = Throw e"
| "bind_res (Fault u) f = Fault u"
| "bind_res Block f = Block"

definition ret :: "'a \<Rightarrow> ('s, 'e, 'a) cmd" where
  "ret x = (\<lambda>s. (Ret x, s))"

definition throw :: "'e \<Rightarrow> ('s, 'e, 'a) cmd" where
  "throw e = (\<lambda>s. (Throw e, s))"

definition lift_res :: "('e, 'a) outcome \<Rightarrow> ('s, 'e, 'a) cmd" where
  "lift_res r = (\<lambda>s. (r, s))"

definition gets :: "('s \<Rightarrow> 'a) \<Rightarrow> ('s, 'e, 'a) cmd" where
  "gets f = (\<lambda>s. (Ret (f s), s))"

definition modify :: "('s \<Rightarrow> 's) \<Rightarrow> ('s, 'e, unit) cmd" where
  "modify f = (\<lambda>s. (Ret (), f s))"

fun continue_with ::
  "('e, 'a) outcome \<times> 's \<Rightarrow> ('a \<Rightarrow> ('s, 'e, 'b) cmd) \<Rightarrow> ('e, 'b) outcome \<times> 's" where
  "continue_with (Ret x, s) f = f x s"
| "continue_with (Throw e, s) f = (Throw e, s)"
| "continue_with (Fault u, s) f = (Fault u, s)"
| "continue_with (Block, s) f = (Block, s)"

definition bind_cmd ::
  "('s, 'e, 'a) cmd \<Rightarrow> ('a \<Rightarrow> ('s, 'e, 'b) cmd) \<Rightarrow> ('s, 'e, 'b) cmd" where
  "bind_cmd m f = (\<lambda>s. continue_with (m s) f)"

definition seq_cmd :: "('s, 'e, unit) cmd \<Rightarrow> ('s, 'e, 'b) cmd \<Rightarrow> ('s, 'e, 'b) cmd" where
  "seq_cmd m k = bind_cmd m (\<lambda>_. k)"

text \<open>
  \<open>try_catch m h\<close> is \<open>try { m } catch ...\<close>: the handlers \<open>h\<close>
  give, for an exception, the block that catches it, or \<open>None\<close> when no
  \<open>catch\<close> clause matches. The state at the throw is kept.
\<close>

fun handle_with ::
  "('e, 'a) outcome \<times> 's \<Rightarrow> ('e \<Rightarrow> ('s, 'e, 'a) cmd option) \<Rightarrow> ('e, 'a) outcome \<times> 's" where
  "handle_with (Throw e, s) h = (case h e of None \<Rightarrow> (Throw e, s) | Some k \<Rightarrow> k s)"
| "handle_with (Ret x, s) h = (Ret x, s)"
| "handle_with (Fault u, s) h = (Fault u, s)"
| "handle_with (Block, s) h = (Block, s)"

definition try_catch ::
  "('s, 'e, 'a) cmd \<Rightarrow> ('e \<Rightarrow> ('s, 'e, 'a) cmd option) \<Rightarrow> ('s, 'e, 'a) cmd" where
  "try_catch m h = (\<lambda>s. handle_with (m s) h)"

text \<open>Running a command once per element, as a \<open>for\<close> loop over a container does.\<close>

primrec for_each :: "('a \<Rightarrow> ('s, 'e, unit) cmd) \<Rightarrow> 'a list \<Rightarrow> ('s, 'e, unit) cmd" where
  "for_each f [] = ret ()"
| "for_each f (x # xs) = seq_cmd (f x) (for_each f xs)"

section \<open>Laws of the commands\<close>

named_theorems run_simps \<open>evaluation of commands on a state\<close>

lemma ret_run [run_simps]: "ret x s = (Ret x, s)"
  by (simp add: ret_def)

lemma throw_run [run_simps]: "throw e s = (Throw e, s)"
  by (simp add: throw_def)

lemma lift_res_run [run_simps]: "lift_res r s = (r, s)"
  by (simp add: lift_res_def)

lemma gets_run [run_simps]: "gets f s = (Ret (f s), s)"
  by (simp add: gets_def)

lemma modify_run [run_simps]: "modify f s = (Ret (), f s)"
  by (simp add: modify_def)

lemma bind_cmd_run [run_simps]: "bind_cmd m f s = continue_with (m s) f"
  by (simp add: bind_cmd_def)

lemma seq_cmd_run [run_simps]: "seq_cmd m k s = continue_with (m s) (\<lambda>_. k)"
  by (simp add: seq_cmd_def bind_cmd_def)

lemma try_catch_run [run_simps]: "try_catch m h s = handle_with (m s) h"
  by (simp add: try_catch_def)

lemma continue_with_assoc:
  "continue_with (continue_with r f) g = continue_with r (\<lambda>x s. continue_with (f x s) g)"
  by (cases "(r, f)" rule: continue_with.cases) simp_all

lemma bind_cmd_assoc: "bind_cmd (bind_cmd m f) g = bind_cmd m (\<lambda>x. bind_cmd (f x) g)"
  by (simp add: bind_cmd_def continue_with_assoc)

lemma bind_ret_left: "bind_cmd (ret x) f = f x"
  by (simp add: bind_cmd_def ret_def)

lemma bind_ret_right: "bind_cmd m ret = m"
proof
  fix s
  obtain r s' where "m s = (r, s')" by fastforce
  then show "bind_cmd m ret s = m s"
    by (cases r) (simp_all add: run_simps)
qed

lemma for_each_append: "for_each f (xs @ ys) = seq_cmd (for_each f xs) (for_each f ys)"
  by (induction xs) (simp_all add: seq_cmd_def bind_cmd_assoc bind_ret_left)

section \<open>Predicates that a command keeps\<close>

text \<open>
  \<open>keeps P m\<close>: from a state with \<open>P\<close>, every way \<open>m\<close> can end
  other than a fault leaves \<open>P\<close>. After a fault nothing is promised.
\<close>

definition keeps :: "('s \<Rightarrow> bool) \<Rightarrow> ('s, 'e, 'a) cmd \<Rightarrow> bool" where
  "keeps P m \<longleftrightarrow>
     (\<forall>s. P s \<longrightarrow> (case m s of (Fault u, s') \<Rightarrow> True | (_, s') \<Rightarrow> P s'))"

named_theorems keeps_intros \<open>rules for preserved predicates\<close>

lemma keepsI:
  assumes "\<And>s r s'. P s \<Longrightarrow> m s = (r, s') \<Longrightarrow> (\<And>u. r \<noteq> Fault u) \<Longrightarrow> P s'"
  shows "keeps P m"
  using assms unfolding keeps_def by (auto split: outcome.splits prod.splits)

lemma keepsD:
  assumes "keeps P m" "P s" "m s = (r, s')" "\<And>u. r \<noteq> Fault u"
  shows "P s'"
  using assms unfolding keeps_def by (cases r) (auto dest!: spec [of _ s])

lemma keeps_ret [keeps_intros]: "keeps P (ret x)"
  by (simp add: keeps_def ret_def)

lemma keeps_throw [keeps_intros]: "keeps P (throw e)"
  by (simp add: keeps_def throw_def)

lemma keeps_lift_res [keeps_intros]: "keeps P (lift_res r)"
  by (simp add: keeps_def lift_res_def split: outcome.splits)

lemma keeps_gets [keeps_intros]: "keeps P (gets f)"
  by (simp add: keeps_def gets_def)

lemma keeps_modify: "(\<And>s. P s \<Longrightarrow> P (f s)) \<Longrightarrow> keeps P (modify f)"
  by (simp add: keeps_def modify_def)

lemma keeps_bind [keeps_intros]:
  assumes "keeps P m" "\<And>x. keeps P (f x)"
  shows "keeps P (bind_cmd m f)"
proof (rule keepsI)
  fix s r s'
  assume P: "P s" and run: "bind_cmd m f s = (r, s')" and ok: "\<And>u. r \<noteq> Fault u"
  show "P s'"
  proof (cases "m s")
    case (Pair r1 s1)
    show ?thesis
    proof (cases r1)
      case (Ret x)
      with Pair P assms(1) have "P s1" by (auto dest: keepsD)
      moreover from Ret Pair run have "f x s1 = (r, s')" by (simp add: run_simps)
      ultimately show ?thesis using assms(2) ok by (auto dest: keepsD)
    qed (use Pair P assms(1) run ok in \<open>auto simp: run_simps dest: keepsD\<close>)
  qed
qed

lemma keeps_seq [keeps_intros]: "keeps P m \<Longrightarrow> keeps P k \<Longrightarrow> keeps P (seq_cmd m k)"
  by (simp add: seq_cmd_def keeps_bind)

lemma keeps_try [keeps_intros]:
  assumes "keeps P m" "\<And>e k. h e = Some k \<Longrightarrow> keeps P k"
  shows "keeps P (try_catch m h)"
proof (rule keepsI)
  fix s r s'
  assume P: "P s" and run: "try_catch m h s = (r, s')" and ok: "\<And>u. r \<noteq> Fault u"
  show "P s'"
  proof (cases "m s")
    case (Pair r1 s1)
    have P1: "P s1" if "\<And>u. r1 \<noteq> Fault u"
      using keepsD [OF assms(1) P Pair that] .
    show ?thesis
    proof (cases r1)
      case (Throw e)
      with run Pair P1 assms(2) ok show ?thesis
        by (cases "h e") (auto simp: run_simps dest: keepsD)
    qed (use Pair P1 run ok in \<open>auto simp: run_simps\<close>)
  qed
qed

lemma keeps_if [keeps_intros]:
  "(b \<Longrightarrow> keeps P m) \<Longrightarrow> (\<not> b \<Longrightarrow> keeps P k) \<Longrightarrow> keeps P (if b then m else k)"
  by simp

lemma keeps_for_each [keeps_intros]: "(\<And>x. keeps P (f x)) \<Longrightarrow> keeps P (for_each f xs)"
  by (induction xs) (simp_all add: keeps_intros)

section \<open>Association lists for \<open>std::unordered_map\<close>\<close>

text \<open>
  An \<open>unordered_map\<close> is an association list with distinct keys; the order of
  the list stands for the unspecified iteration order. \<open>AList.update\<close> is
  \<open>m[k] = v\<close>, \<open>map_of\<close> is \<open>find\<close>.
\<close>

type_synonym ('k, 'v) umap = "('k \<times> 'v) list"

definition umap_wf :: "('k, 'v) umap \<Rightarrow> bool" where
  "umap_wf m \<longleftrightarrow> distinct (map fst m)"

definition umap_contains :: "('k, 'v) umap \<Rightarrow> 'k \<Rightarrow> bool" where
  "umap_contains m k \<longleftrightarrow> map_of m k \<noteq> None"

definition umap_assign :: "('k, 'v) umap \<Rightarrow> 'k \<Rightarrow> 'v \<Rightarrow> ('k, 'v) umap" where
  "umap_assign m k v = AList.update k v m"

locale assoc_store =
  fixes lookup :: "'m \<Rightarrow> 'k \<Rightarrow> 'v option"
    and assign :: "'m \<Rightarrow> 'k \<Rightarrow> 'v \<Rightarrow> 'm"
    and entries :: "'m \<Rightarrow> ('k \<times> 'v) list"
    and empty_store :: 'm
    and wf :: "'m \<Rightarrow> bool"
  assumes lookup_empty: "lookup empty_store k = None"
    and wf_empty: "wf empty_store"
    and lookup_assign: "lookup (assign m k v) = (lookup m)(k \<mapsto> v)"
    and wf_assign: "wf m \<Longrightarrow> wf (assign m k v)"
    and distinct_entries: "wf m \<Longrightarrow> distinct (map fst (entries m))"
    and lookup_entries: "wf m \<Longrightarrow> lookup m = map_of (entries m)"
begin

lemma wf_assign_all: "wf m \<Longrightarrow> wf (fold (\<lambda>(k, v) acc. assign acc k v) ps m)"
  by (induction ps arbitrary: m) (auto simp: wf_assign)

lemma lookup_assign_all:
  "lookup (fold (\<lambda>(k, v) acc. assign acc k v) ps m) = lookup m ++ map_of (rev ps)"
  by (induction ps arbitrary: m) (auto simp: lookup_assign map_add_def fun_eq_iff
      split: option.splits)

text \<open>Assigning every entry of one store to another overrides it, whatever the entries' order.\<close>

lemma lookup_merge:
  assumes "wf p"
  shows "lookup (fold (\<lambda>(k, v) acc. assign acc k v) (entries p) m) = lookup m ++ lookup p"
proof -
  have "distinct (map fst (entries p))"
    using assms by (rule distinct_entries)
  then have "map_of (rev (entries p)) = map_of (entries p)"
    by (simp add: map_of_inject_set rev_map [symmetric])
  then show ?thesis
    using assms by (simp add: lookup_assign_all lookup_entries)
qed

end

interpretation um: assoc_store map_of umap_assign "\<lambda>m. m" "[]" umap_wf
  by unfold_locales (auto simp: umap_assign_def umap_wf_def update_conv distinct_update)

lemma umap_contains_assign [simp]:
  "umap_contains (umap_assign m k v) k' \<longleftrightarrow> k' = k \<or> umap_contains m k'"
  by (auto simp: umap_contains_def um.lookup_assign)

lemma umap_contains_empty [simp]: "\<not> umap_contains [] k"
  by (simp add: umap_contains_def)

section \<open>Lists\<close>

lemma takeWhile_id: "list_all P xs \<Longrightarrow> takeWhile P xs = xs"
  by (induction xs) auto

lemma dropWhile_id: "list_all P xs \<Longrightarrow> dropWhile P xs = []"
  by (induction xs) auto

lemma takeWhile_stop: "list_all P xs \<Longrightarrow> \<not> P y \<Longrightarrow> takeWhile P (xs @ y # ys) = xs"
  by (induction xs) auto

lemma dropWhile_stop: "list_all P xs \<Longrightarrow> \<not> P y \<Longrightarrow> dropWhile P (xs @ y # ys) = y # ys"
  by (induction xs) auto

lemma list_all_takeWhile: "list_all P (takeWhile P xs)"
  by (induction xs) auto

end
