(* ===== verification/Exceptions.thy ===== *)
theory Exceptions
  imports Prelude
begin

text \<open>
  The exception classes of \<open>exceptions.h\<close> and the two exceptions of the
  standard library that the code can meet (\<open>std::stoi\<close> and the checked
  \<open>at\<close> raise them). The four classes of \<open>exceptions.h\<close> derive
  from \<open>std::runtime_error\<close>; the two of the library derive from
  \<open>std::logic_error\<close>, so a \<open>catch (std::runtime_error const&)\<close>
  does not catch them.
\<close>

datatype exn =
    InvalidMessage string
  | CommException string
  | OperationException string
  | FailedTransaction string
  | Invalid_argument string
  | Out_of_range string

primrec what :: "exn \<Rightarrow> string" where
  "what (InvalidMessage m) = m"
| "what (CommException m) = m"
| "what (OperationException m) = m"
| "what (FailedTransaction m) = m"
| "what (Invalid_argument m) = m"
| "what (Out_of_range m) = m"

primrec is_runtime_error :: "exn \<Rightarrow> bool" where
  "is_runtime_error (InvalidMessage m) = True"
| "is_runtime_error (CommException m) = True"
| "is_runtime_error (OperationException m) = True"
| "is_runtime_error (FailedTransaction m) = True"
| "is_runtime_error (Invalid_argument m) = False"
| "is_runtime_error (Out_of_range m) = False"

primrec is_InvalidMessage :: "exn \<Rightarrow> bool" where
  "is_InvalidMessage (InvalidMessage m) = True"
| "is_InvalidMessage (CommException m) = False"
| "is_InvalidMessage (OperationException m) = False"
| "is_InvalidMessage (FailedTransaction m) = False"
| "is_InvalidMessage (Invalid_argument m) = False"
| "is_InvalidMessage (Out_of_range m) = False"

primrec is_OperationException :: "exn \<Rightarrow> bool" where
  "is_OperationException (OperationException m) = True"
| "is_OperationException (InvalidMessage m) = False"
| "is_OperationException (CommException m) = False"
| "is_OperationException (FailedTransaction m) = False"
| "is_OperationException (Invalid_argument m) = False"
| "is_OperationException (Out_of_range m) = False"

primrec is_Invalid_argument :: "exn \<Rightarrow> bool" where
  "is_Invalid_argument (Invalid_argument m) = True"
| "is_Invalid_argument (InvalidMessage m) = False"
| "is_Invalid_argument (CommException m) = False"
| "is_Invalid_argument (OperationException m) = False"
| "is_Invalid_argument (FailedTransaction m) = False"
| "is_Invalid_argument (Out_of_range m) = False"

type_synonym 'a res = "(exn, 'a) outcome"
type_synonym ('s, 'a) xcmd = "('s, exn, 'a) cmd"

lemma is_InvalidMessageE: "is_InvalidMessage e \<Longrightarrow> \<exists>m. e = InvalidMessage m"
  by (cases e) simp_all

lemma is_OperationExceptionE: "is_OperationException e \<Longrightarrow> \<exists>m. e = OperationException m"
  by (cases e) simp_all

text \<open>The class hierarchy: what \<open>catch (std::runtime_error const&)\<close> lets through.\<close>

lemma not_runtime_error_iff:
  "\<not> is_runtime_error e \<longleftrightarrow> (\<exists>m. e = Invalid_argument m \<or> e = Out_of_range m)"
  by (cases e) simp_all

end
