(* ===== verification/Cxx_Std.thy ===== *)
theory Cxx_Std
  imports Exceptions "HOL-Library.Word" "HOL-Library.Signed_Division"
begin

text \<open>
  What the sources use of the C and C++ standard libraries: \<open>isspace\<close>,
  formatted extraction from a \<open>std::stringstream\<close>, \<open>std::getline\<close>,
  \<open>find_first_of\<close>, \<open>find_last_of\<close> and \<open>substr\<close>,
  \<open>std::stoi\<close> and \<open>std::to_string\<close>, the arithmetic of a 32-bit
  \<open>int\<close>, and the conversion of a \<open>size_t\<close> to \<open>int\<close>.
  A \<open>std::string\<close> is a list of bytes.
\<close>

section \<open>Characters\<close>

abbreviation newline :: char where "newline \<equiv> CHR 0x0A"
abbreviation nul :: char where "nul \<equiv> CHR 0x00"
abbreviation quote :: char where "quote \<equiv> CHR 0x22"

definition isspace :: "char \<Rightarrow> bool" where
  "isspace c \<longleftrightarrow> c = CHR '' '' \<or> c = CHR 0x09 \<or> c = CHR 0x0A \<or> c = CHR 0x0B \<or>
     c = CHR 0x0C \<or> c = CHR 0x0D"

definition char_between :: "char \<Rightarrow> char \<Rightarrow> char \<Rightarrow> bool" where
  "char_between lo hi c \<longleftrightarrow> (of_char lo :: nat) \<le> of_char c \<and> (of_char c :: nat) \<le> of_char hi"

definition isdigit :: "char \<Rightarrow> bool" where
  "isdigit c \<longleftrightarrow> char_between CHR ''0'' CHR ''9'' c"

text \<open>The bytes a word read with \<open>>>\<close> from a C string can hold.\<close>

definition word_char :: "char \<Rightarrow> bool" where
  "word_char c \<longleftrightarrow> \<not> isspace c \<and> c \<noteq> nul"

section \<open>Element access\<close>

text \<open>\<open>v.at(i)\<close> checks its index and raises; \<open>v[i]\<close> does not.\<close>

definition vec_at :: "'a list \<Rightarrow> nat \<Rightarrow> 'a res" where
  "vec_at xs i = (if i < length xs then Ret (xs ! i) else Throw (Out_of_range ''at''))"

definition vec_index :: "'a list \<Rightarrow> nat \<Rightarrow> 'a res" where
  "vec_index xs i = (if i < length xs then Ret (xs ! i) else Fault Index_out_of_range)"

section \<open>Strings and streams\<close>

text \<open>\<open>ss >> word\<close>: the word (empty when the extraction fails) and the rest of the stream.\<close>

definition extract_word :: "string \<Rightarrow> string \<times> string" where
  "extract_word s =
     (let t = dropWhile isspace s
      in (takeWhile (\<lambda>c. \<not> isspace c) t, dropWhile (\<lambda>c. \<not> isspace c) t))"

definition getline_str :: "string \<Rightarrow> string" where
  "getline_str s = takeWhile (\<lambda>c. c \<noteq> newline) s"

fun find_first_of :: "char \<Rightarrow> string \<Rightarrow> nat option" where
  "find_first_of c [] = None"
| "find_first_of c (x # xs) = (if x = c then Some 0 else map_option Suc (find_first_of c xs))"

fun find_last_of :: "char \<Rightarrow> string \<Rightarrow> nat option" where
  "find_last_of c [] = None"
| "find_last_of c (x # xs) =
     (case find_last_of c xs of
        Some i \<Rightarrow> Some (Suc i)
      | None \<Rightarrow> (if x = c then Some 0 else None))"

text \<open>\<open>s.substr(pos, n)\<close>: raises past the end; \<open>n\<close> is clipped to the rest.\<close>

definition substr :: "string \<Rightarrow> nat \<Rightarrow> nat \<Rightarrow> string res" where
  "substr s pos n =
     (if length s < pos then Throw (Out_of_range ''basic_string::substr'')
      else Ret (take n (drop pos s)))"

text \<open>A \<open>char*\<close> read as a \<open>std::string\<close> ends before the first NUL.\<close>

definition c_str :: "string \<Rightarrow> string" where
  "c_str s = takeWhile (\<lambda>c. c \<noteq> nul) s"

section \<open>Integers\<close>

definition INT_MAX :: int where "INT_MAX = 2147483647"
definition INT_MIN :: int where "INT_MIN = - 2147483648"

definition in_int :: "int \<Rightarrow> bool" where
  "in_int x \<longleftrightarrow> INT_MIN \<le> x \<and> x \<le> INT_MAX"

definition int_result :: "int \<Rightarrow> int res" where
  "int_result x = (if in_int x then Ret x else Fault Signed_overflow)"

definition cxx_div :: "int \<Rightarrow> int \<Rightarrow> int res" where
  "cxx_div a b =
     (if b = 0 \<or> a = INT_MIN \<and> b = -1 then Fault Division_trap else Ret (a sdiv b))"

text \<open>The value of a 64-bit \<open>size_t\<close> (or 32-bit \<open>unsigned\<close>) stored in an \<open>int\<close>.\<close>

definition int_of_size :: "nat \<Rightarrow> int" where
  "int_of_size n = sint (of_nat n :: 32 word)"

definition unsigned_of_size :: "nat \<Rightarrow> nat" where
  "unsigned_of_size n = unat (of_nat n :: 32 word)"

section \<open>\<open>std::to_string\<close> and \<open>std::stoi\<close>\<close>

definition digit_char :: "nat \<Rightarrow> char" where
  "digit_char d = char_of (48 + d)"

definition digit_value :: "char \<Rightarrow> nat" where
  "digit_value c = of_char c - 48"

fun nat_to_string :: "nat \<Rightarrow> string" where
  "nat_to_string n =
     (if n < 10 then [digit_char n] else nat_to_string (n div 10) @ [digit_char (n mod 10)])"

declare nat_to_string.simps [simp del]

definition to_string :: "int \<Rightarrow> string" where
  "to_string i = (if i < 0 then CHR ''-'' # nat_to_string (nat (- i)) else nat_to_string (nat i))"

definition digits_value :: "string \<Rightarrow> nat" where
  "digits_value ds = foldl (\<lambda>acc c. 10 * acc + digit_value c) 0 ds"

text \<open>
  \<open>std::stoi\<close> calls \<open>strtol\<close> in base ten: white space, an optional
  sign, then the longest run of digits; the rest of the string is ignored.
\<close>

definition split_sign :: "string \<Rightarrow> bool \<times> string" where
  "split_sign s =
     (case s of
        [] \<Rightarrow> (False, [])
      | c # cs \<Rightarrow> if c = CHR ''-'' then (True, cs) else if c = CHR ''+'' then (False, cs) else (False, s))"

definition stoi :: "string \<Rightarrow> int res" where
  "stoi s =
     (let (neg, t) = split_sign (dropWhile isspace s);
          ds = takeWhile isdigit t;
          v = (if neg then - int (digits_value ds) else int (digits_value ds))
      in if ds = [] then Throw (Invalid_argument ''stoi'')
         else if in_int v then Ret v
         else Throw (Out_of_range ''stoi''))"

section \<open>Lemmas\<close>

lemmas int_bounds = INT_MAX_def INT_MIN_def in_int_def

lemma int_of_size_small [simp]: "n < 2147483648 \<Longrightarrow> int_of_size n = int n"
  by (simp add: int_of_size_def signed_of_nat signed_take_bit_int_eq_self)

lemma unsigned_of_size_small [simp]: "n < 4294967296 \<Longrightarrow> unsigned_of_size n = n"
  by (simp add: unsigned_of_size_def unat_of_nat)

lemma int_result_range: "int_result x = Ret v \<Longrightarrow> in_int v"
  by (simp add: int_result_def split: if_splits)

lemma cxx_div_range:
  assumes "cxx_div a b = Ret v" "in_int a"
  shows "in_int v"
proof -
  have b: "b \<noteq> 0" "\<not> (a = INT_MIN \<and> b = -1)" and v: "v = sgn a * sgn b * (\<bar>a\<bar> div \<bar>b\<bar>)"
    using assms(1) by (auto simp: cxx_div_def signed_divide_int_def split: if_splits)
  consider "b = 1" | "b = -1" | "2 \<le> \<bar>b\<bar>" using b(1) by linarith
  then show ?thesis
  proof cases
    case 3
    have "\<bar>a\<bar> div \<bar>b\<bar> \<le> \<bar>a\<bar> div 2" using 3 by (intro zdiv_mono2) auto
    moreover have "\<bar>a\<bar> \<le> 2147483648" using assms(2) by (auto simp: int_bounds)
    ultimately have "\<bar>a\<bar> div \<bar>b\<bar> \<le> 1073741824" by linarith
    moreover have "0 \<le> \<bar>a\<bar> div \<bar>b\<bar>" using 3 by (intro pos_imp_zdiv_nonneg_iff [THEN iffD2]) auto
    ultimately show ?thesis by (auto simp: v sgn_if int_bounds)
  qed (use assms(2) b v in \<open>auto simp: sgn_if int_bounds split: if_splits\<close>)
qed

lemma vec_at_less: "i < length xs \<Longrightarrow> vec_at xs i = Ret (xs ! i)"
  by (simp add: vec_at_def)

lemma vec_index_less: "i < length xs \<Longrightarrow> vec_index xs i = Ret (xs ! i)"
  by (simp add: vec_index_def)

lemma isspace_newline [simp]: "isspace newline"
  by (simp add: isspace_def)

lemma isspace_space [simp]: "isspace CHR '' ''"
  by (simp add: isspace_def)

lemma of_char_less: "(of_char c :: nat) < 256"
  by (simp add: of_char_def horner_sum_of_bool_2_less)

lemma isdigit_digit_char: "d < 10 \<Longrightarrow> isdigit (digit_char d)"
  by (simp add: isdigit_def char_between_def digit_char_def of_char_of)

lemma digit_value_digit_char: "d < 10 \<Longrightarrow> digit_value (digit_char d) = d"
  by (simp add: digit_value_def digit_char_def of_char_of)

lemma isdigit_not_space: "isdigit c \<Longrightarrow> \<not> isspace c"
  by (auto simp: isdigit_def char_between_def isspace_def)

lemma isdigit_word_char: "isdigit c \<Longrightarrow> word_char c"
  by (auto simp: isdigit_def char_between_def isspace_def word_char_def)

lemma isdigit_not_sign: "isdigit c \<Longrightarrow> c \<noteq> CHR ''-'' \<and> c \<noteq> CHR ''+''"
  by (auto simp: isdigit_def char_between_def)

lemma nat_to_string_digits: "list_all isdigit (nat_to_string n)"
proof (induction n rule: nat_to_string.induct)
  case (1 n)
  then show ?case
    by (subst nat_to_string.simps) (auto simp: isdigit_digit_char)
qed

lemma nat_to_string_nonempty: "nat_to_string n \<noteq> []"
  by (subst nat_to_string.simps) simp

lemma digits_value_snoc: "digits_value (ds @ [c]) = 10 * digits_value ds + digit_value c"
  by (simp add: digits_value_def)

lemma digits_value_nat_to_string: "digits_value (nat_to_string n) = n"
proof (induction n rule: nat_to_string.induct)
  case (1 n)
  show ?case
  proof (cases "n < 10")
    case True
    then show ?thesis
      by (subst nat_to_string.simps) (simp add: digits_value_def digit_value_digit_char)
  next
    case False
    with 1 show ?thesis
      by (subst nat_to_string.simps) (simp add: digits_value_snoc digit_value_digit_char)
  qed
qed

lemma length_nat_to_string: "n < 10 ^ Suc k \<Longrightarrow> length (nat_to_string n) \<le> Suc k"
proof (induction k arbitrary: n)
  case 0
  then show ?case by (subst nat_to_string.simps) simp
next
  case (Suc k)
  show ?case
  proof (cases "n < 10")
    case True
    then show ?thesis by (subst nat_to_string.simps) simp
  next
    case False
    from Suc.prems have "n div 10 < 10 ^ Suc k" by (simp add: less_mult_imp_div_less)
    with Suc.IH False show ?thesis by (subst nat_to_string.simps) simp
  qed
qed

lemma to_string_nonempty: "to_string i \<noteq> []"
  by (simp add: to_string_def nat_to_string_nonempty)

lemma to_string_word: "list_all word_char (to_string i)"
proof -
  have "list_all word_char (nat_to_string n)" for n
    using nat_to_string_digits by (rule list.pred_mono_strong) (rule isdigit_word_char)
  then show ?thesis by (simp add: to_string_def word_char_def isspace_def)
qed

lemma to_string_length: "in_int i \<Longrightarrow> length (to_string i) \<le> 11"
proof -
  assume "in_int i"
  then have "nat (- i) < 10 ^ Suc 9" "nat i < 10 ^ Suc 9"
    by (auto simp: int_bounds)
  from this[THEN length_nat_to_string] show ?thesis
    by (simp add: to_string_def)
qed

lemma dropWhile_digits:
  "list_all isdigit ds \<Longrightarrow> ds \<noteq> [] \<Longrightarrow> dropWhile isspace (ds @ rest) = ds @ rest"
  by (cases ds) (auto simp: isdigit_not_space)

lemma split_sign_digits: "list_all isdigit ds \<Longrightarrow> ds \<noteq> [] \<Longrightarrow> split_sign ds = (False, ds)"
  by (cases ds) (auto simp: split_sign_def dest: isdigit_not_sign)

text \<open>Printing an \<open>int\<close> and reading it back is the identity.\<close>

lemma stoi_to_string: "in_int i \<Longrightarrow> stoi (to_string i) = Ret i"
proof -
  assume i: "in_int i"
  have ds: "list_all isdigit (nat_to_string n)" "nat_to_string n \<noteq> []" for n
    by (simp_all add: nat_to_string_digits nat_to_string_nonempty)
  have tw: "takeWhile isdigit (nat_to_string n) = nat_to_string n" for n
    by (rule takeWhile_id) (rule nat_to_string_digits)
  have dw: "dropWhile isspace (nat_to_string n) = nat_to_string n" for n
    using dropWhile_digits [of "nat_to_string n" "[]"] ds by simp
  show ?thesis
  proof (cases "i < 0")
    case True
    then have "stoi (to_string i) = stoi (CHR ''-'' # nat_to_string (nat (- i)))"
      by (simp add: to_string_def)
    also have "\<dots> = Ret i"
      using True i by (simp add: stoi_def split_sign_def isspace_def tw ds digits_value_nat_to_string)
    finally show ?thesis .
  next
    case False
    then have "stoi (to_string i) = stoi (nat_to_string (nat i))"
      by (simp add: to_string_def)
    also have "\<dots> = Ret i"
      using False i by (simp add: stoi_def dw split_sign_digits ds tw digits_value_nat_to_string)
    finally show ?thesis .
  qed
qed

lemma stoi_range: "stoi s = Ret i \<Longrightarrow> in_int i"
  by (auto simp: stoi_def Let_def split: prod.splits if_splits)

lemma stoi_cases:
  "(\<exists>i. stoi s = Ret i) \<or> stoi s = Throw (Invalid_argument ''stoi'') \<or> stoi s = Throw (Out_of_range ''stoi'')"
  by (auto simp: stoi_def Let_def split: prod.splits)

section \<open>Lemmas on extraction\<close>

lemma extract_word_word: "list_all (\<lambda>c. \<not> isspace c) (fst (extract_word s))"
  by (simp add: extract_word_def Let_def list_all_takeWhile)

lemma extract_word_shorter:
  assumes "extract_word s = (w, rest)" "w \<noteq> []"
  shows "length rest < length s"
proof -
  let ?t = "dropWhile isspace s"
  have "length w + length rest = length ?t"
    using assms(1) by (auto simp: extract_word_def Let_def takeWhile_dropWhile_id
        simp flip: length_append)
  moreover have "length ?t \<le> length s" by (rule length_dropWhile_le)
  ultimately show ?thesis using assms(2) by (cases w) auto
qed

lemma extract_word_rest_less:
  "(w, rest) = extract_word s \<Longrightarrow> w \<noteq> [] \<Longrightarrow> length rest < length s"
  using extract_word_shorter [of s w rest] by simp

lemma extract_word_sep:
  assumes "list_all (\<lambda>c. \<not> isspace c) w" "w \<noteq> []" "isspace c"
  shows "extract_word (w @ c # rest) = (w, c # rest)"
proof -
  have "dropWhile isspace (w @ c # rest) = w @ c # rest"
    using assms(1,2) by (cases w) auto
  then show ?thesis
    using assms by (simp add: extract_word_def takeWhile_stop dropWhile_stop)
qed

lemma extract_word_end:
  assumes "list_all (\<lambda>c. \<not> isspace c) w" "w \<noteq> []"
  shows "extract_word w = (w, [])"
proof -
  have "dropWhile isspace w = w"
    using assms by (cases w) auto
  then show ?thesis
    using assms by (simp add: extract_word_def takeWhile_id dropWhile_id)
qed

lemma extract_word_space: "isspace c \<Longrightarrow> extract_word (c # s) = extract_word s"
  by (simp add: extract_word_def)

lemma find_first_of_None: "find_first_of c s = None \<longleftrightarrow> c \<notin> set s"
  by (induction s) auto

lemma find_last_of_None: "find_last_of c s = None \<longleftrightarrow> c \<notin> set s"
  by (induction s) (auto split: option.splits)

lemma find_first_of_less: "find_first_of c s = Some i \<Longrightarrow> i < length s"
  by (induction s arbitrary: i) (auto split: if_splits)

lemma find_first_of_append: "c \<notin> set s \<Longrightarrow> find_first_of c (s @ c # t) = Some (length s)"
  by (induction s) auto

lemma find_last_of_append: "c \<notin> set t \<Longrightarrow> find_last_of c (s @ c # t) = Some (length s)"
  by (induction s) (auto simp: find_last_of_None split: option.splits)

end
