(* ===== verification/Message.thy ===== *)
theory Message
  imports Cxx_Std
begin

text \<open>
  The class \<open>Message\<close> of \<open>message.h\<close> and \<open>message.cpp\<close>:
  message types, construction, copying, the argument accessors and the protocol
  check \<open>is_valid\<close>. The accessors that use \<open>operator[]\<close> end in a
  fault when the argument is missing; \<open>get_arg\<close> uses \<open>at\<close> and
  raises. The lemmas give the protocol as a table of arities and argument classes
  (\<open>protocol_ok\<close>) and show that \<open>is_valid\<close> decides it.
\<close>

section \<open>Data\<close>

datatype MessageType =
    NONE
  | LOGIN | CREATE | PUSH | POP | TOP | SET | GET | ADD | SUB | MUL | DIV | BEGIN | COMMIT | BYE
  | OK | FAILED | ERROR | DATA

record Message =
  m_message_type :: MessageType
  m_args :: "string list"

definition MAX_ENCODED_LEN :: nat where "MAX_ENCODED_LEN = 1024"

section \<open>Operations\<close>

definition Message_default :: Message where
  "Message_default = \<lparr>m_message_type = NONE, m_args = []\<rparr>"

definition Message_new :: "MessageType \<Rightarrow> string list \<Rightarrow> Message" where
  "Message_new message_type args = \<lparr>m_message_type = message_type, m_args = args\<rparr>"

definition Message_copy :: "Message \<Rightarrow> Message" where
  "Message_copy other = \<lparr>m_message_type = m_message_type other, m_args = m_args other\<rparr>"

definition get_message_type :: "Message \<Rightarrow> MessageType" where
  "get_message_type msg = m_message_type msg"

definition set_message_type :: "MessageType \<Rightarrow> Message \<Rightarrow> Message" where
  "set_message_type message_type msg = msg\<lparr>m_message_type := message_type\<rparr>"

definition get_num_args :: "Message \<Rightarrow> nat" where
  "get_num_args msg = unsigned_of_size (length (m_args msg))"

definition get_arg :: "Message \<Rightarrow> nat \<Rightarrow> string res" where
  "get_arg msg i = vec_at (m_args msg) i"

definition get_username :: "Message \<Rightarrow> string res" where
  "get_username msg = vec_index (m_args msg) 0"

definition get_table :: "Message \<Rightarrow> string res" where
  "get_table msg = vec_index (m_args msg) 0"

definition get_key :: "Message \<Rightarrow> string res" where
  "get_key msg = vec_index (m_args msg) 1"

definition get_value :: "Message \<Rightarrow> string res" where
  "get_value msg = vec_index (m_args msg) 0"

definition get_quoted_text :: "Message \<Rightarrow> string res" where
  "get_quoted_text msg = vec_index (m_args msg) 0"

definition push_arg :: "string \<Rightarrow> Message \<Rightarrow> Message" where
  "push_arg arg msg = msg\<lparr>m_args := m_args msg @ [arg]\<rparr>"

definition clear_args :: "Message \<Rightarrow> Message" where
  "clear_args msg = msg\<lparr>m_args := []\<rparr>"

text \<open>
  \<open>operator=\<close> resizes a new vector and copies the arguments one by one, with an
  \<open>int\<close> counter.
\<close>

function assign_loop :: "Message \<Rightarrow> int \<Rightarrow> nat \<Rightarrow> string list \<Rightarrow> string list res" where
  "assign_loop rhs num_args_rhs i new_args =
     (if int i < num_args_rhs
      then bind_res (get_arg rhs i)
             (\<lambda>a. assign_loop rhs num_args_rhs (Suc i) (new_args[i := a]))
      else Ret new_args)"
  by pat_completeness auto
termination
  by (relation "measure (\<lambda>(rhs, n, i, xs). nat (n - int i))") auto

declare assign_loop.simps [simp del]

definition Message_assign :: "Message \<Rightarrow> Message res" where
  "Message_assign rhs =
     (let num_args_rhs = int_of_size (get_num_args rhs)
      in bind_res (assign_loop rhs num_args_rhs 0 (replicate (nat num_args_rhs) []))
           (\<lambda>new_args. Ret \<lparr>m_message_type = get_message_type rhs, m_args = new_args\<rparr>))"

subsection \<open>Validity\<close>

definition is_letter :: "char \<Rightarrow> bool" where
  "is_letter c \<longleftrightarrow> char_between CHR ''A'' CHR ''Z'' c \<or> char_between CHR ''a'' CHR ''z'' c"

definition is_ident_char :: "char \<Rightarrow> bool" where
  "is_ident_char c \<longleftrightarrow> is_letter c \<or> char_between CHR ''0'' CHR ''9'' c \<or> c = CHR ''_''"

function identifier_loop :: "string \<Rightarrow> int \<Rightarrow> nat \<Rightarrow> bool res" where
  "identifier_loop arg identifier_length i =
     (if int i < identifier_length
      then bind_res (vec_at arg i)
             (\<lambda>c. if \<not> is_ident_char c then Ret False
                  else identifier_loop arg identifier_length (Suc i))
      else Ret True)"
  by pat_completeness auto
termination
  by (relation "measure (\<lambda>(arg, n, i). nat (n - int i))") auto

declare identifier_loop.simps [simp del]

definition is_valid_identifier :: "string \<Rightarrow> bool res" where
  "is_valid_identifier arg =
     bind_res (vec_at arg 0)
       (\<lambda>c. if \<not> is_letter c then Ret False
            else identifier_loop arg (int_of_size (length arg)) 1)"

definition is_valid :: "Message \<Rightarrow> bool res" where
  "is_valid msg =
     (let msg_type = get_message_type msg in
      if msg_type \<in> {POP, TOP, ADD, MUL, SUB, DIV, BEGIN, COMMIT, BYE} \<and> length (m_args msg) \<noteq> 0
      then Ret False
      else if msg_type \<in> {LOGIN, CREATE, PUSH, DATA} \<and> length (m_args msg) \<noteq> 1
      then Ret False
      else if msg_type \<in> {SET, GET} \<and> length (m_args msg) \<noteq> 2
      then Ret False
      else if msg_type \<in> {LOGIN, CREATE, SET, GET}
      then bind_res (bind_res (vec_index (m_args msg) 0) is_valid_identifier)
             (\<lambda>b. if \<not> b then Ret False
                  else if msg_type \<in> {SET, GET}
                  then bind_res (bind_res (vec_index (m_args msg) 1) is_valid_identifier)
                         (\<lambda>b'. if \<not> b' then Ret False else Ret True)
                  else Ret True)
      else if msg_type = PUSH
      then bind_res (vec_index (m_args msg) 0)
             (\<lambda>a. if list_all isspace a then Ret False else Ret True)
      else Ret True)"

section \<open>The protocol as a specification\<close>

text \<open>
  The number of arguments of each type, and which of them are identifiers; types
  without an entry (responses with free text, and \<open>NONE\<close>) are not checked.
\<close>

primrec arity :: "MessageType \<Rightarrow> nat option" where
  "arity NONE = None"
| "arity LOGIN = Some 1"
| "arity CREATE = Some 1"
| "arity PUSH = Some 1"
| "arity POP = Some 0"
| "arity TOP = Some 0"
| "arity SET = Some 2"
| "arity GET = Some 2"
| "arity ADD = Some 0"
| "arity SUB = Some 0"
| "arity MUL = Some 0"
| "arity DIV = Some 0"
| "arity BEGIN = Some 0"
| "arity COMMIT = Some 0"
| "arity BYE = Some 0"
| "arity OK = None"
| "arity FAILED = None"
| "arity ERROR = None"
| "arity DATA = Some 1"

definition is_ident :: "string \<Rightarrow> bool" where
  "is_ident s \<longleftrightarrow> s \<noteq> [] \<and> is_letter (hd s) \<and> list_all is_ident_char (tl s)"

definition protocol_ok :: "Message \<Rightarrow> bool" where
  "protocol_ok msg \<longleftrightarrow>
     (case arity (m_message_type msg) of None \<Rightarrow> True | Some n \<Rightarrow> length (m_args msg) = n) \<and>
     (m_message_type msg \<in> {LOGIN, CREATE, SET, GET} \<longrightarrow> list_all is_ident (m_args msg)) \<and>
     (m_message_type msg = PUSH \<longrightarrow> \<not> list_all (list_all isspace) (m_args msg))"

section \<open>Lemmas\<close>

lemmas message_defs =
  get_message_type_def set_message_type_def push_arg_def clear_args_def Message_new_def

lemma message_eta [simp]:
  "\<lparr>m_message_type = m_message_type msg, m_args = m_args msg\<rparr> = (msg :: Message)"
  by (cases msg) simp

lemma Message_copy_id [simp]: "Message_copy msg = msg"
  by (simp add: Message_copy_def)

lemma assign_loop_result:
  assumes "length new_args = length (m_args rhs)" "i \<le> length (m_args rhs)"
    and "take i new_args = take i (m_args rhs)"
  shows "assign_loop rhs (int (length (m_args rhs))) i new_args = Ret (m_args rhs)"
  using assms
proof (induction rhs "int (length (m_args rhs))" i new_args rule: assign_loop.induct)
  case (1 rhs i new_args)
  show ?case
  proof (cases "i < length (m_args rhs)")
    case True
    have "take (Suc i) (new_args[i := m_args rhs ! i]) = take (Suc i) (m_args rhs)"
      using True "1.prems" by (simp add: take_Suc_conv_app_nth)
    with 1 True show ?thesis
      by (subst assign_loop.simps) (simp add: get_arg_def vec_at_less)
  next
    case False
    with "1.prems" show ?thesis by (subst assign_loop.simps) simp
  qed
qed

lemma Message_assign_small:
  assumes "length (m_args rhs) < 2147483648"
  shows "Message_assign rhs = Ret rhs"
proof -
  have "assign_loop rhs (int (length (m_args rhs))) 0 (replicate (length (m_args rhs)) [])
      = Ret (m_args rhs)"
    by (rule assign_loop_result) simp_all
  with assms show ?thesis
    by (simp add: Message_assign_def get_num_args_def get_message_type_def)
qed

lemma identifier_loop_result:
  "identifier_loop arg (int (length arg)) i = Ret (list_all is_ident_char (drop i arg))"
proof (induction arg "int (length arg)" i rule: identifier_loop.induct)
  case (1 arg i)
  show ?case
  proof (cases "i < length arg")
    case True
    then have "drop i arg = arg ! i # drop (Suc i) arg" by (simp add: Cons_nth_drop_Suc)
    with 1 True show ?thesis
      by (subst identifier_loop.simps) (simp add: vec_at_less)
  next
    case False
    then show ?thesis by (subst identifier_loop.simps) simp
  qed
qed

lemma is_valid_identifier_nonempty:
  assumes "s \<noteq> []" "length s < 2147483648"
  shows "is_valid_identifier s = Ret (is_ident s)"
  using assms
  by (simp add: is_valid_identifier_def vec_at_def identifier_loop_result is_ident_def
      hd_conv_nth drop_Suc)

lemma is_valid_identifier_empty: "is_valid_identifier [] = Throw (Out_of_range ''at'')"
  by (simp add: is_valid_identifier_def vec_at_def)

lemma is_letter_ident: "is_letter c \<Longrightarrow> is_ident_char c"
  by (simp add: is_ident_char_def)

lemma is_ident_char_word: "is_ident_char c \<Longrightarrow> word_char c"
  by (auto simp: is_ident_char_def is_letter_def char_between_def word_char_def isspace_def)

lemma is_ident_word: "is_ident s \<Longrightarrow> list_all word_char s"
  by (cases s) (auto simp: is_ident_def is_letter_ident is_ident_char_word list_all_iff)

text \<open>Every argument is a non-empty string short enough for an \<open>int\<close> length.\<close>

definition args_ok :: "Message \<Rightarrow> bool" where
  "args_ok msg \<longleftrightarrow> list_all (\<lambda>a. a \<noteq> [] \<and> length a < 2147483648) (m_args msg)"

lemma list_of_length_1: "length xs = Suc 0 \<Longrightarrow> \<exists>x. xs = [x]"
  by (simp add: length_Suc_conv)

lemma list_of_length_2: "length xs = Suc (Suc 0) \<Longrightarrow> \<exists>x y. xs = [x, y]"
  by (auto simp: length_Suc_conv)

lemmas valid_simps =
  is_valid_def protocol_ok_def get_message_type_def vec_index_def args_ok_def
  is_valid_identifier_nonempty numeral_2_eq_2

lemma is_valid_decides:
  assumes "args_ok msg"
  shows "is_valid msg = Ret (protocol_ok msg)"
  using assms
  by (cases "m_message_type msg")
    (auto simp: valid_simps dest!: list_of_length_1 list_of_length_2)

end
