(* ===== verification/Message_Serialization.thy ===== *)
theory Message_Serialization
  imports Message
begin

text \<open>
  \<open>message_serialization.cpp\<close>: \<open>encode\<close> and \<open>decode\<close>
  with their helpers. \<open>decode\<close> works in place on a \<open>Message\<close>, so
  it is a command over messages: the type and the arguments are already written when
  the final check raises.
\<close>

section \<open>Operations\<close>

definition check_message_size :: "string \<Rightarrow> unit res" where
  "check_message_size msg =
     (if MAX_ENCODED_LEN < length msg then Throw (InvalidMessage ''Message is too long.'')
      else Ret ())"

text \<open>\<open>try { ... } catch (InvalidMessage const& ex) { throw InvalidMessage(ex.what()); }\<close>\<close>

definition rethrow_invalid :: "'a res \<Rightarrow> 'a res" where
  "rethrow_invalid r =
     (case r of
        Throw e \<Rightarrow> if is_InvalidMessage e then Throw (InvalidMessage (what e)) else Throw e
      | _ \<Rightarrow> r)"

primrec type_name :: "MessageType \<Rightarrow> string res" where
  "type_name CREATE = Ret ''CREATE''"
| "type_name LOGIN = Ret ''LOGIN''"
| "type_name BEGIN = Ret ''BEGIN''"
| "type_name COMMIT = Ret ''COMMIT''"
| "type_name POP = Ret ''POP''"
| "type_name TOP = Ret ''TOP''"
| "type_name ADD = Ret ''ADD''"
| "type_name SUB = Ret ''SUB''"
| "type_name MUL = Ret ''MUL''"
| "type_name DIV = Ret ''DIV''"
| "type_name BYE = Ret ''BYE''"
| "type_name OK = Ret ''OK''"
| "type_name FAILED = Ret ''FAILED''"
| "type_name ERROR = Ret ''ERROR''"
| "type_name PUSH = Ret ''PUSH''"
| "type_name SET = Ret ''SET''"
| "type_name GET = Ret ''GET''"
| "type_name DATA = Ret ''DATA''"
| "type_name NONE = Throw (InvalidMessage ''Message must have a type.'')"

function encode_args :: "Message \<Rightarrow> int \<Rightarrow> nat \<Rightarrow> string \<Rightarrow> string res" where
  "encode_args msg num_args i encoded_msg =
     (if int i < num_args
      then bind_res (get_arg msg i)
             (\<lambda>a. encode_args msg num_args (Suc i) (encoded_msg @ '' '' @ a))
      else Ret encoded_msg)"
  by pat_completeness auto
termination
  by (relation "measure (\<lambda>(msg, n, i, s). nat (n - int i))") auto

declare encode_args.simps [simp del]

definition encode :: "Message \<Rightarrow> string res" where
  "encode msg =
     bind_res (type_name (get_message_type msg)) (\<lambda>name.
     bind_res (encode_args msg (int_of_size (get_num_args msg)) 0 name) (\<lambda>body.
     let encoded_msg = body @ [newline] in
     bind_res (rethrow_invalid (check_message_size encoded_msg)) (\<lambda>_. Ret encoded_msg)))"

definition decode_type :: "string \<Rightarrow> MessageType res" where
  "decode_type m_type =
     (if m_type = ''BEGIN'' then Ret BEGIN
      else if m_type = ''COMMIT'' then Ret COMMIT
      else if m_type = ''POP'' then Ret POP
      else if m_type = ''TOP'' then Ret TOP
      else if m_type = ''ADD'' then Ret ADD
      else if m_type = ''SUB'' then Ret SUB
      else if m_type = ''MUL'' then Ret MUL
      else if m_type = ''DIV'' then Ret DIV
      else if m_type = ''BYE'' then Ret BYE
      else if m_type = ''OK'' then Ret OK
      else if m_type = ''FAILED'' then Ret FAILED
      else if m_type = ''ERROR'' then Ret ERROR
      else if m_type = ''LOGIN'' then Ret LOGIN
      else if m_type = ''CREATE'' then Ret CREATE
      else if m_type = ''PUSH'' then Ret PUSH
      else if m_type = ''SET'' then Ret SET
      else if m_type = ''GET'' then Ret GET
      else if m_type = ''DATA'' then Ret DATA
      else Throw (InvalidMessage ''Message must have a type.''))"

text \<open>
  With a single quotation mark the two positions agree and
  \<open>close - open - 1\<close> wraps to the largest \<open>size_t\<close>, so
  \<open>substr\<close> runs to the end of the text.
\<close>

definition quoted_length :: "nat \<Rightarrow> nat \<Rightarrow> nat" where
  "quoted_length open_quote_ind close_quote_ind =
     unat (of_nat close_quote_ind - of_nat open_quote_ind - 1 :: 64 word)"

definition extract_quoted_text_arg :: "string \<Rightarrow> (Message, unit) xcmd" where
  "extract_quoted_text_arg quoted_text =
     (case (find_first_of quote quoted_text, find_last_of quote quoted_text) of
        (Some open_quote_ind, Some close_quote_ind) \<Rightarrow>
          bind_cmd (lift_res (substr quoted_text (open_quote_ind + 1)
                       (quoted_length open_quote_ind close_quote_ind)))
            (\<lambda>text. modify (push_arg text))
      | _ \<Rightarrow> throw (InvalidMessage
          ''Message whose type requires a quoted text argument does not contain a quotation.''))"

function extract_single_word_args :: "string \<Rightarrow> Message \<Rightarrow> Message" where
  "extract_single_word_args ss msg =
     (let (curr_arg, rest) = extract_word ss
      in if curr_arg = [] then msg else extract_single_word_args rest (push_arg curr_arg msg))"
  by pat_completeness auto
termination
  by (relation "measure (\<lambda>(ss, msg). length ss)") (auto intro: extract_word_rest_less)

declare extract_single_word_args.simps [simp del]

definition string_back :: "string \<Rightarrow> char res" where
  "string_back s = (if s = [] then Fault Index_out_of_range else Ret (last s))"

definition check_valid :: "(Message, unit) xcmd" where
  "check_valid =
     bind_cmd (\<lambda>msg. (is_valid msg, msg))
       (\<lambda>b. if \<not> b then throw (InvalidMessage ''Message is not valid.'') else ret ())"

definition decode :: "string \<Rightarrow> (Message, unit) xcmd" where
  "decode encoded_msg =
     seq_cmd (lift_res (rethrow_invalid (check_message_size encoded_msg)))
    (bind_cmd (lift_res (string_back encoded_msg)) (\<lambda>b.
     if b \<noteq> newline then throw (InvalidMessage ''Encoded message is missing a newline.'')
     else
       let (m_type, ss) = extract_word encoded_msg in
       bind_cmd (lift_res (decode_type m_type)) (\<lambda>t.
       seq_cmd (modify (set_message_type t))
      (seq_cmd (modify clear_args)
      (let remaining_text = getline_str ss in
       bind_cmd (gets get_message_type) (\<lambda>msg_type.
       seq_cmd
         (if msg_type = FAILED \<or> msg_type = ERROR
          then extract_quoted_text_arg remaining_text
          else modify (extract_single_word_args remaining_text))
         check_valid))))))"

section \<open>Lemmas on encoding\<close>

lemma rethrow_invalid_id [simp]: "rethrow_invalid r = r"
  by (auto simp: rethrow_invalid_def split: outcome.splits dest!: is_InvalidMessageE)

lemma encode_args_result:
  "encode_args msg (int (length (m_args msg))) i s =
     Ret (s @ concat (map ((#) CHR '' '') (drop i (m_args msg))))"
proof (induction msg "int (length (m_args msg))" i s rule: encode_args.induct)
  case (1 msg i s)
  show ?case
  proof (cases "i < length (m_args msg)")
    case True
    then have "drop i (m_args msg) = m_args msg ! i # drop (Suc i) (m_args msg)"
      by (simp add: Cons_nth_drop_Suc)
    with 1 True show ?thesis
      by (subst encode_args.simps) (simp add: get_arg_def vec_at_less)
  next
    case False
    then show ?thesis by (subst encode_args.simps) simp
  qed
qed

text \<open>The line for a message: its type's name, then each argument after a space.\<close>

definition message_line :: "string \<Rightarrow> string list \<Rightarrow> string" where
  "message_line name args = name @ concat (map ((#) CHR '' '') args) @ [newline]"

lemma encode_small:
  assumes "type_name (m_message_type msg) = Ret name" "length (m_args msg) < 2147483648"
  shows "encode msg =
    (if length (message_line name (m_args msg)) \<le> MAX_ENCODED_LEN
     then Ret (message_line name (m_args msg))
     else Throw (InvalidMessage ''Message is too long.''))"
  using assms
  by (simp add: encode_def get_message_type_def get_num_args_def encode_args_result
      check_message_size_def message_line_def)

lemma decode_type_name:
  assumes "type_name t = Ret name"
  shows "decode_type name = Ret t"
  using assms [symmetric] by (cases t) (simp_all add: decode_type_def)

lemma type_name_word:
  assumes "type_name t = Ret name"
  shows "name \<noteq> [] \<and> list_all word_char name \<and> length name \<le> 6"
  using assms [symmetric] by (cases t) (simp_all add: word_char_def isspace_def)

section \<open>Lemmas on decoding\<close>

text \<open>The words of a text, as repeated extraction gives them.\<close>

function text_words :: "string \<Rightarrow> string list" where
  "text_words s =
     (let (w, rest) = extract_word s in if w = [] then [] else w # text_words rest)"
  by pat_completeness auto
termination
  by (relation "measure length") (auto intro: extract_word_rest_less)

declare text_words.simps [simp del]

lemma extract_single_word_args_words:
  "extract_single_word_args ss msg = msg\<lparr>m_args := m_args msg @ text_words ss\<rparr>"
proof (induction ss msg rule: extract_single_word_args.induct)
  case (1 ss msg)
  obtain w rest where e: "extract_word ss = (w, rest)" by fastforce
  show ?case
  proof (cases "w = []")
    case True
    with e show ?thesis
      by (simp add: extract_single_word_args.simps [of ss] text_words.simps [of ss])
  next
    case False
    with e 1 show ?thesis
      by (simp add: extract_single_word_args.simps [of ss] text_words.simps [of ss] push_arg_def)
  qed
qed

lemma extract_word_parts:
  assumes "extract_word s = (w, rest)"
  shows "set w \<subseteq> set s" "set rest \<subseteq> set s" "length w \<le> length s"
proof -
  have "w @ rest = dropWhile isspace s"
    using assms by (auto simp: extract_word_def Let_def)
  then have "set w \<union> set rest \<subseteq> set s" and "length w + length rest \<le> length s"
    by (metis set_append set_dropWhileD subsetI, metis length_append length_dropWhile_le)
  then show "set w \<subseteq> set s" "set rest \<subseteq> set s" "length w \<le> length s" by auto
qed

lemma extract_word_rest_le: "extract_word s = (w, rest) \<Longrightarrow> length rest \<le> length s"
  by (auto simp: extract_word_def Let_def intro: order.trans [OF length_dropWhile_le length_dropWhile_le])

lemma text_words_members:
  "w \<in> set (text_words s) \<Longrightarrow>
     w \<noteq> [] \<and> list_all (\<lambda>c. \<not> isspace c) w \<and> length w \<le> length s \<and> set w \<subseteq> set s"
proof (induction s rule: text_words.induct)
  case (1 s)
  obtain v rest where e: "extract_word s = (v, rest)" by fastforce
  show ?case
  proof (cases "v = []")
    case True
    with e "1.prems" show ?thesis by (simp add: text_words.simps [of s])
  next
    case False
    with e "1.prems" have "w = v \<or> w \<in> set (text_words rest)"
      by (simp add: text_words.simps [of s])
    then show ?thesis
    proof
      assume "w = v"
      with e False extract_word_parts [OF e] extract_word_word [of s] show ?thesis by simp
    next
      assume "w \<in> set (text_words rest)"
      with "1.IH" e False extract_word_parts [OF e] extract_word_shorter [OF e False]
      show ?thesis by fastforce
    qed
  qed
qed

definition word_arg :: "string \<Rightarrow> bool" where
  "word_arg a \<longleftrightarrow> a \<noteq> [] \<and> list_all (\<lambda>c. \<not> isspace c) a"

lemma text_words_line:
  assumes "list_all word_arg args"
  shows "text_words (concat (map ((#) CHR '' '') args)) = args"
  using assms
proof (induction args)
  case Nil
  then show ?case by (simp add: text_words.simps [of "[]"] extract_word_def)
next
  case (Cons a args)
  let ?rest = "concat (map ((#) CHR '' '') args)"
  have a: "a \<noteq> []" "list_all (\<lambda>c. \<not> isspace c) a"
    using Cons.prems by (simp_all add: word_arg_def)
  have "extract_word (CHR '' '' # a @ ?rest) = (a, ?rest)"
    using a by (cases args) (simp_all add: extract_word_space extract_word_end extract_word_sep)
  with Cons a show ?case
    by (subst text_words.simps) simp
qed

text \<open>What \<open>decode\<close> does once the type is known, on a message that is overwritten.\<close>

definition decode_fields :: "MessageType \<Rightarrow> string \<Rightarrow> unit res \<times> Message" where
  "decode_fields t text =
     seq_cmd (if t = FAILED \<or> t = ERROR then extract_quoted_text_arg text
              else modify (extract_single_word_args text))
       check_valid \<lparr>m_message_type = t, m_args = []\<rparr>"

lemma message_overwrite:
  "clear_args (set_message_type t msg) = \<lparr>m_message_type = t, m_args = []\<rparr>"
  by (cases msg) (simp add: message_defs)

lemma decode_result:
  "decode s msg =
     (if MAX_ENCODED_LEN < length s then (Throw (InvalidMessage ''Message is too long.''), msg)
      else if s = [] then (Fault Index_out_of_range, msg)
      else if last s \<noteq> newline
      then (Throw (InvalidMessage ''Encoded message is missing a newline.''), msg)
      else case extract_word s of (m_type, ss) \<Rightarrow>
        continue_with (decode_type m_type, msg) (\<lambda>t _. decode_fields t (getline_str ss)))"
proof -
  obtain w ss where "extract_word s = (w, ss)" by fastforce
  then show ?thesis
    by (cases "decode_type w")
      (simp_all add: decode_def run_simps check_message_size_def string_back_def Let_def
        message_overwrite decode_fields_def get_message_type_def)
qed

lemma decode_type_cases:
  "(\<exists>t. decode_type w = Ret t \<and> type_name t = Ret w) \<or>
   decode_type w = Throw (InvalidMessage ''Message must have a type.'')"
  by (simp add: decode_type_def)

lemma check_valid_run:
  "check_valid msg = continue_with (is_valid msg, msg)
     (\<lambda>b. if \<not> b then throw (InvalidMessage ''Message is not valid.'') else ret ())"
  by (simp add: check_valid_def run_simps)

lemma decode_fields_words:
  assumes "t \<noteq> FAILED" "t \<noteq> ERROR" "length text < 2147483648"
  shows "decode_fields t text =
    (let msg = \<lparr>m_message_type = t, m_args = text_words text\<rparr> in
     (if protocol_ok msg then Ret () else Throw (InvalidMessage ''Message is not valid.''), msg))"
proof -
  let ?msg = "\<lparr>m_message_type = t, m_args = text_words text\<rparr>"
  have "args_ok ?msg"
    using assms(3) by (auto simp: args_ok_def list_all_iff dest!: text_words_members)
  then have "is_valid ?msg = Ret (protocol_ok ?msg)" by (rule is_valid_decides)
  with assms show ?thesis
    by (simp add: decode_fields_def run_simps check_valid_run extract_single_word_args_words)
qed

lemma is_valid_free_text: "t = FAILED \<or> t = ERROR \<Longrightarrow> is_valid \<lparr>m_message_type = t, m_args = as\<rparr> = Ret True"
  by (auto simp: is_valid_def get_message_type_def)

lemma decode_fields_unquoted:
  assumes "t = FAILED \<or> t = ERROR" "quote \<notin> set text"
  shows "decode_fields t text =
    (Throw (InvalidMessage
       ''Message whose type requires a quoted text argument does not contain a quotation.''),
     \<lparr>m_message_type = t, m_args = []\<rparr>)"
proof -
  have "find_first_of quote text = None"
    using assms(2) by (simp add: find_first_of_None)
  with assms(1) show ?thesis
    by (auto simp: decode_fields_def extract_quoted_text_arg_def run_simps)
qed

lemma find_quotes:
  assumes "quote \<in> set text"
  obtains i j where "find_first_of quote text = Some i" "find_last_of quote text = Some j"
    "i < length text"
  using assms
  by (metis find_first_of_None find_last_of_None find_first_of_less not_Some_eq)

lemma decode_fields_quoted:
  assumes "t = FAILED \<or> t = ERROR" "quote \<in> set text"
  shows "\<exists>a. decode_fields t text = (Ret (), \<lparr>m_message_type = t, m_args = [a]\<rparr>)"
proof -
  obtain i j where "find_first_of quote text = Some i" "find_last_of quote text = Some j"
    "i < length text"
    using assms(2) by (rule find_quotes)
  with assms(1) show ?thesis
    by (auto simp: decode_fields_def extract_quoted_text_arg_def run_simps substr_def
        push_arg_def check_valid_run is_valid_free_text)
qed

lemma decode_fields_between_quotes:
  assumes "t = FAILED \<or> t = ERROR" "length text < 2147483648" "quote \<notin> set pre" "quote \<notin> set post"
  shows "decode_fields t (pre @ quote # text @ quote # post) =
    (Ret (), \<lparr>m_message_type = t, m_args = [text]\<rparr>)"
proof -
  let ?s = "pre @ quote # text @ quote # post"
  have "find_first_of quote ?s = Some (length pre)"
    using assms(3) by (rule find_first_of_append)
  moreover have "find_last_of quote ?s = Some (length (pre @ quote # text))"
    using find_last_of_append [OF assms(4), of "pre @ quote # text"] by simp
  moreover have "quoted_length (length pre) (length (pre @ quote # text)) = length text"
    using assms(2) by (simp add: quoted_length_def unat_of_nat)
  moreover have "substr ?s (length pre + 1) (length text) = Ret text"
    by (simp add: substr_def)
  ultimately show ?thesis
    using assms(1)
    by (auto simp: decode_fields_def extract_quoted_text_arg_def run_simps push_arg_def
        check_valid_run is_valid_free_text)
qed

lemma decode_fields_outcome:
  assumes "length text < 2147483648"
  shows "fst (decode_fields t text) = Ret () \<or> (\<exists>e. fst (decode_fields t text) = Throw (InvalidMessage e))"
proof (cases "t = FAILED \<or> t = ERROR")
  case True
  then show ?thesis
    using decode_fields_unquoted [OF True] decode_fields_quoted [OF True]
    by (cases "quote \<in> set text") fastforce+
next
  case False
  with assms show ?thesis by (simp add: decode_fields_words Let_def)
qed

lemma decode_fields_protocol:
  assumes "decode_fields t text = (Ret (), m)" "length text < 2147483648"
  shows "protocol_ok m"
proof (cases "t = FAILED \<or> t = ERROR")
  case True
  then have "m_message_type m = t"
    using assms(1) decode_fields_unquoted [OF True] decode_fields_quoted [OF True]
    by (cases "quote \<in> set text") fastforce+
  with True show ?thesis by (auto simp: protocol_ok_def)
next
  case False
  with assms show ?thesis by (auto simp: decode_fields_words Let_def split: if_splits)
qed

lemma getline_str_length: "length (getline_str s) \<le> length s"
  by (simp add: getline_str_def length_takeWhile_le)

text \<open>A non-empty line that \<open>decode\<close> accepts, taken apart.\<close>

lemma decode_RetE:
  assumes "decode s m0 = (Ret (), m)"
  obtains w ss where "extract_word s = (w, ss)" "last s = newline" "s \<noteq> []" "length s \<le> MAX_ENCODED_LEN"
    "type_name (m_message_type m) = Ret w"
    "decode_fields (m_message_type m) (getline_str ss) = (Ret (), m)"
proof -
  obtain w ss where e: "extract_word s = (w, ss)" by fastforce
  have s: "length s \<le> MAX_ENCODED_LEN" "s \<noteq> []" "last s = newline"
    using assms by (auto simp: decode_result split: if_splits)
  with assms e have d: "continue_with (decode_type w, m0) (\<lambda>t _. decode_fields t (getline_str ss)) = (Ret (), m)"
    by (simp add: decode_result)
  then obtain t where t: "decode_type w = Ret t" "type_name t = Ret w"
    using decode_type_cases [of w] by auto
  with d have f: "decode_fields t (getline_str ss) = (Ret (), m)" by simp
  have small: "length (getline_str ss) < 2147483648"
    using s(1) getline_str_length [of ss] extract_word_rest_le [OF e]
    by (simp add: MAX_ENCODED_LEN_def)
  have "m_message_type m = t"
  proof (cases "t = FAILED \<or> t = ERROR")
    case True
    then show ?thesis
      using f decode_fields_unquoted [OF True] decode_fields_quoted [OF True]
      by (cases "quote \<in> set (getline_str ss)") fastforce+
  next
    case False
    then have "t \<noteq> FAILED" "t \<noteq> ERROR" by simp_all
    from f decode_fields_words [OF this small] show ?thesis by (auto simp: Let_def)
  qed
  with e s t f that show thesis by blast
qed

section \<open>The wire format\<close>

lemma word_charD: "list_all word_char a \<Longrightarrow> list_all (\<lambda>c. \<not> isspace c) a"
  by (simp add: list_all_iff word_char_def)

lemma encode_RetD:
  assumes "encode msg = Ret s" "length (m_args msg) < 2147483648"
  obtains name where "type_name (m_message_type msg) = Ret name"
    "s = message_line name (m_args msg)" "length s \<le> MAX_ENCODED_LEN"
proof -
  obtain name where name: "type_name (m_message_type msg) = Ret name"
    using assms(1) by (cases "type_name (m_message_type msg)")
      (auto simp: encode_def get_message_type_def)
  with assms encode_small [OF name assms(2)] that show thesis
    by (auto split: if_splits)
qed

lemma word_args_no_newline: "list_all word_arg args \<Longrightarrow> newline \<notin> set (concat args)"
  by (induction args) (auto simp: word_arg_def list_all_iff)

lemma spaced_args_no_newline:
  "newline \<notin> set (concat args) \<Longrightarrow> newline \<notin> set (concat (map ((#) CHR '' '') args))"
  by (induction args) simp_all

lemma message_line_length:
  "length (message_line name args) = length name + (\<Sum>a\<leftarrow>args. Suc (length a)) + 1"
  by (simp add: message_line_def length_concat o_def)

lemma message_line_butlast:
  assumes "list_all word_char name" "newline \<notin> set (concat args)"
  shows "newline \<notin> set (butlast (message_line name args))"
proof -
  have "newline \<notin> set name"
    using assms(1) by (metis isspace_newline list_all_iff word_char_def)
  then show ?thesis
    using spaced_args_no_newline [OF assms(2)]
    by (simp only: message_line_def append_assoc [symmetric] butlast_snoc set_append Un_iff) simp
qed

lemma extract_word_message_line:
  assumes "name \<noteq> []" "list_all word_char name"
  shows "extract_word (message_line name args) =
    (name, concat (map ((#) CHR '' '') args) @ [newline])"
  using assms
  by (cases args) (simp_all add: message_line_def extract_word_sep word_charD)

lemma getline_message_line:
  "newline \<notin> set text \<Longrightarrow> getline_str (text @ newline # rest) = text"
  unfolding getline_str_def by (rule takeWhile_stop) (auto simp: list_all_iff)

lemma decode_message_line:
  assumes name: "type_name t = Ret name"
    and len: "length (message_line name args) \<le> MAX_ENCODED_LEN"
    and nl: "newline \<notin> set (concat args)"
  shows "decode (message_line name args) m0 = decode_fields t (concat (map ((#) CHR '' '') args))"
proof -
  have "newline \<notin> set (concat (map ((#) CHR '' '') args))"
    using nl by (rule spaced_args_no_newline)
  then have "getline_str (concat (map ((#) CHR '' '') args) @ [newline]) =
      concat (map ((#) CHR '' '') args)"
    by (rule getline_message_line)
  moreover have "message_line name args \<noteq> []" "last (message_line name args) = newline"
    by (simp_all add: message_line_def)
  ultimately show ?thesis
    using len type_name_word [OF name]
    by (simp add: decode_result extract_word_message_line decode_type_name [OF name])
qed

lemma decode_of_encode:
  assumes "encode msg = Ret s" "protocol_ok msg" "list_all word_arg (m_args msg)"
    and "length (m_args msg) < 2147483648"
    and "m_message_type msg \<noteq> FAILED" "m_message_type msg \<noteq> ERROR"
  shows "decode s m0 = (Ret (), msg)"
proof -
  obtain name where name: "type_name (m_message_type msg) = Ret name"
    and s: "s = message_line name (m_args msg)" "length s \<le> MAX_ENCODED_LEN"
    using assms(1,4) by (rule encode_RetD)
  let ?text = "concat (map ((#) CHR '' '') (m_args msg))"
  have "decode s m0 = decode_fields (m_message_type msg) ?text"
    using decode_message_line [OF name _ word_args_no_newline [OF assms(3)]] s by simp
  also have "text_words ?text = m_args msg"
    using assms(3) by (rule text_words_line)
  moreover have "length ?text < 2147483648"
    using s by (simp add: message_line_def MAX_ENCODED_LEN_def)
  ultimately show ?thesis
    using assms(2,5,6) by (simp add: decode_fields_words Let_def)
qed

text \<open>
  C3. Serialization round trip: a message of any type other than \<open>FAILED\<close> and
  \<open>ERROR\<close> that obeys the protocol and whose arguments are non-empty words is
  decoded, from the line that \<open>encode\<close> writes for it, to exactly itself,
  whatever the receiving \<open>Message\<close> object held before.
\<close>

theorem decode_encode:
  assumes "encode msg = Ret s" "protocol_ok msg" "list_all word_arg (m_args msg)"
    and "length (m_args msg) < 2147483648"
    and "m_message_type msg \<noteq> FAILED" "m_message_type msg \<noteq> ERROR"
  shows "decode s m0 = (Ret (), msg)"
  using assms by (rule decode_of_encode)

theorem decode_encode_witness:
  "encode (Message_new SET [''accounts'', ''acct123'']) = Ret (''SET accounts acct123'' @ [newline]) \<and>
   decode (''SET accounts acct123'' @ [newline]) Message_default =
     (Ret (), Message_new SET [''accounts'', ''acct123''])"
proof -
  let ?m = "Message_new SET [''accounts'', ''acct123'']"
  have enc: "encode ?m = Ret (''SET accounts acct123'' @ [newline])"
    by code_simp
  have "protocol_ok ?m" "list_all word_arg (m_args ?m)"
    by code_simp+
  then show ?thesis
    using decode_encode [OF enc, of Message_default] enc by (simp add: Message_new_def)
qed

text \<open>
  C29. \<open>encode\<close> never produces a line longer than the protocol's limit, every line
  it produces ends with its only newline when the arguments hold none, and it refuses
  the message exactly when that line would be too long or the type is \<open>NONE\<close>.
\<close>

theorem encode_bounds:
  assumes "length (m_args msg) < 2147483648"
  shows "(\<forall>s. encode msg = Ret s \<longrightarrow>
            length s \<le> 1024 \<and> last s = newline \<and>
            (newline \<notin> set (concat (m_args msg)) \<longrightarrow> newline \<notin> set (butlast s))) \<and>
         ((\<exists>s. encode msg = Ret s) \<longleftrightarrow>
            (\<exists>name. type_name (m_message_type msg) = Ret name \<and>
              length name + (\<Sum>a\<leftarrow>m_args msg. Suc (length a)) + 1 \<le> 1024))"
proof (intro conjI allI impI)
  fix s
  assume s: "encode msg = Ret s"
  then obtain name where name: "type_name (m_message_type msg) = Ret name"
    and line: "s = message_line name (m_args msg)" "length s \<le> MAX_ENCODED_LEN"
    using assms by (rule encode_RetD)
  show "length s \<le> 1024" using line(2) by (simp add: MAX_ENCODED_LEN_def)
  show "last s = newline" using line(1) by (simp add: message_line_def)
  assume "newline \<notin> set (concat (m_args msg))"
  then show "newline \<notin> set (butlast s)"
    using line(1) type_name_word [OF name] message_line_butlast by simp
next
  show "(\<exists>s. encode msg = Ret s) \<longleftrightarrow>
      (\<exists>name. type_name (m_message_type msg) = Ret name \<and>
        length name + (\<Sum>a\<leftarrow>m_args msg. Suc (length a)) + 1 \<le> 1024)"
  proof (cases "type_name (m_message_type msg)")
    case (Ret name)
    then show ?thesis
      using encode_small [OF Ret assms] message_line_length [of name "m_args msg"]
      by (simp add: MAX_ENCODED_LEN_def)
  qed (simp_all add: encode_def get_message_type_def)
qed

theorem encode_bounds_witness:
  "encode (Message_new DATA [''10012'']) = Ret (''DATA 10012'' @ [newline]) \<and>
   length (''DATA 10012'' @ [newline]) \<le> 1024"
proof -
  have enc: "encode (Message_new DATA [''10012'']) = Ret (''DATA 10012'' @ [newline])"
    by code_simp
  have "length (m_args (Message_new DATA [''10012''])) < 2147483648"
    by (simp add: Message_new_def)
  from encode_bounds [OF this] enc show ?thesis by blast
qed

text \<open>
  Decoding a \<open>FAILED\<close> or \<open>ERROR\<close> line whose text stands
  between quotation marks gives a message with exactly that text, the marks stripped,
  even when the text itself contains quotation marks.
\<close>

theorem decode_quoted:
  assumes "t = FAILED \<or> t = ERROR" "type_name t = Ret name" "newline \<notin> set text"
    and "length (message_line name [quote # text @ [quote]]) \<le> 1024"
  shows "decode (message_line name [quote # text @ [quote]]) m0 = (Ret (), Message_new t [text])"
proof -
  have "decode (message_line name [quote # text @ [quote]]) m0 =
      decode_fields t (concat (map ((#) CHR '' '') [quote # text @ [quote]]))"
    using assms by (intro decode_message_line) (simp_all add: MAX_ENCODED_LEN_def)
  also have "\<dots> = decode_fields t ('' '' @ quote # text @ quote # [])" by simp
  also have "\<dots> = (Ret (), \<lparr>m_message_type = t, m_args = [text]\<rparr>)"
    using assms by (intro decode_fields_between_quotes) (simp_all add: message_line_def)
  finally show ?thesis by (simp add: Message_new_def)
qed

theorem decode_quoted_witness:
  "decode (message_line ''FAILED'' [quote # ''Something went wrong'' @ [quote]]) Message_default =
     (Ret (), Message_new FAILED [''Something went wrong''])"
  by (rule decode_quoted) (simp_all add: message_line_def)

text \<open>
  C30. \<open>encode\<close> does not put the text of a \<open>FAILED\<close> or
  \<open>ERROR\<close> message between quotation marks, so the line it writes for such a
  message, when the text holds no quotation mark of its own, is one that
  \<open>decode\<close> always refuses.
\<close>

theorem encoded_error_not_decodable:
  assumes "t = FAILED \<or> t = ERROR" "encode (Message_new t [text]) = Ret s"
    and "quote \<notin> set text" "newline \<notin> set text"
  shows "fst (decode s m0) = Throw (InvalidMessage
    ''Message whose type requires a quoted text argument does not contain a quotation.'')"
proof -
  have "length (m_args (Message_new t [text])) < 2147483648" by (simp add: Message_new_def)
  from encode_RetD [OF assms(2) this] obtain name where name: "type_name t = Ret name"
    and s: "s = message_line name [text]" "length s \<le> MAX_ENCODED_LEN"
    by (auto simp: Message_new_def)
  have "decode s m0 = decode_fields t (CHR '' '' # text)"
    using decode_message_line [OF name, of "[text]"] s assms(4) by simp
  moreover have "quote \<notin> set (CHR '' '' # text)" using assms(3) by simp
  ultimately show ?thesis using decode_fields_unquoted [OF assms(1)] by simp
qed

theorem encoded_error_not_decodable_witness:
  "encode (Message_new FAILED [''No value on stack.'']) = Ret (''FAILED No value on stack.'' @ [newline]) \<and>
   fst (decode (''FAILED No value on stack.'' @ [newline]) Message_default) = Throw (InvalidMessage
    ''Message whose type requires a quoted text argument does not contain a quotation.'')"
proof -
  have enc: "encode (Message_new FAILED [''No value on stack.'']) =
      Ret (''FAILED No value on stack.'' @ [newline])"
    by code_simp
  from encoded_error_not_decodable [OF _ enc, of Message_default] enc show ?thesis by simp
qed

text \<open>
  C28. \<open>decode\<close> is safe on every non-empty input: it succeeds or raises
  \<open>InvalidMessage\<close>, and never the out-of-range exception of a missing or empty
  argument, which no caller would catch.
\<close>

theorem decode_outcome:
  assumes "s \<noteq> []"
  shows "fst (decode s m0) = Ret () \<or> (\<exists>e. fst (decode s m0) = Throw (InvalidMessage e))"
proof (cases "length s \<le> MAX_ENCODED_LEN \<and> last s = newline")
  case True
  obtain w ss where e: "extract_word s = (w, ss)" by fastforce
  have "length (getline_str ss) < 2147483648"
    using True getline_str_length [of ss] extract_word_rest_le [OF e]
    by (simp add: MAX_ENCODED_LEN_def)
  note fields = decode_fields_outcome [OF this]
  from decode_type_cases [of w] show ?thesis
  proof (elim disjE exE conjE)
    fix t
    assume "decode_type w = Ret t"
    with True assms e fields [of t] show ?thesis by (simp add: decode_result)
  qed (use True assms e in \<open>simp add: decode_result\<close>)
next
  case False
  with assms show ?thesis by (auto simp: decode_result)
qed

theorem decode_outcome_witness:
  "fst (decode (''GET 1 2'' @ [newline]) Message_default) = Ret () \<or>
   (\<exists>e. fst (decode (''GET 1 2'' @ [newline]) Message_default) = Throw (InvalidMessage e))"
  by (rule decode_outcome) simp

text \<open>
  C27. A decoded message always obeys the protocol, has a type, and does not depend on
  what the \<open>Message\<close> object held before.
\<close>

theorem decode_sound:
  assumes "decode s m0 = (Ret (), m)"
  shows "protocol_ok m \<and> m_message_type m \<noteq> NONE \<and> decode s m1 = (Ret (), m)"
proof -
  obtain w ss where e: "extract_word s = (w, ss)" and s: "last s = newline" "s \<noteq> []"
      "length s \<le> MAX_ENCODED_LEN"
    and t: "type_name (m_message_type m) = Ret w"
    and f: "decode_fields (m_message_type m) (getline_str ss) = (Ret (), m)"
    using assms by (rule decode_RetE)
  have "decode s m1 = (Ret (), m)"
    using e s t f by (simp add: decode_result decode_type_name)
  moreover have "m_message_type m \<noteq> NONE" using t by auto
  moreover have "protocol_ok m" by (rule decode_fields_protocol [OF f])
      (use getline_str_length [of ss] extract_word_rest_le [OF e] s(3) in \<open>simp add: MAX_ENCODED_LEN_def\<close>)
  ultimately show ?thesis by simp
qed

theorem decode_sound_witness:
  "decode (''CREATE invoices'' @ [newline]) Message_default = (Ret (), Message_new CREATE [''invoices'']) \<and>
   protocol_ok (Message_new CREATE [''invoices'']) \<and>
   decode (''CREATE invoices'' @ [newline]) (Message_new POP []) = (Ret (), Message_new CREATE [''invoices''])"
proof -
  have d: "decode (''CREATE invoices'' @ [newline]) Message_default = (Ret (), Message_new CREATE [''invoices''])"
    by code_simp
  from decode_sound [OF d, of "Message_new POP []"] d show ?thesis by simp
qed

end
