(* ===== verification/Value_Stack.thy ===== *)
theory Value_Stack
  imports Cxx_Std
begin

text \<open>
  The class \<open>ValueStack\<close> of \<open>value_stack.h\<close> and
  \<open>value_stack.cpp\<close>: a \<open>std::stack\<close> of strings, as a list with
  the top first. \<open>get_size\<close> stores the \<open>size_t\<close> of the stack in
  an \<open>int\<close>. The interface its clients rely on is the locale
  \<open>lifo\<close>.
\<close>

section \<open>Operations\<close>

type_synonym ValueStack = "string list"

definition ValueStack_new :: ValueStack where
  "ValueStack_new = []"

definition is_empty :: "ValueStack \<Rightarrow> bool" where
  "is_empty stack = (if stack = [] then True else False)"

definition push :: "string \<Rightarrow> ValueStack \<Rightarrow> ValueStack" where
  "push v stack = v # stack"

definition get_top :: "ValueStack \<Rightarrow> string res" where
  "get_top stack =
     (if stack = []
      then Throw (OperationException ''Tried to call TOP on an empty operations stack.'')
      else Ret (hd stack))"

definition pop :: "ValueStack \<Rightarrow> ValueStack res" where
  "pop stack =
     (if stack = []
      then Throw (OperationException ''Tried to call POP on an empty operations stack.'')
      else Ret (tl stack))"

definition get_size :: "ValueStack \<Rightarrow> int" where
  "get_size stack = int_of_size (length stack)"

section \<open>The interface\<close>

text \<open>
  Last in, first out: what the request handlers use of the stack, over the sequence of
  values it holds.
\<close>

locale lifo =
  fixes fresh :: 's
    and pushes :: "'v \<Rightarrow> 's \<Rightarrow> 's"
    and top_of :: "'s \<Rightarrow> 'v res"
    and pops :: "'s \<Rightarrow> 's res"
    and size_of :: "'s \<Rightarrow> int"
    and contents :: "'s \<Rightarrow> 'v list"
  assumes contents_fresh: "contents fresh = []"
    and contents_pushes: "contents (pushes v s) = v # contents s"
    and top_pushes: "top_of (pushes v s) = Ret v"
    and pops_pushes: "pops (pushes v s) = Ret s"
    and contents_inject: "contents s = contents s' \<Longrightarrow> s = s'"
    and contents_surj: "\<exists>s. contents s = vs"
    and size_contents: "length (contents s) < 2147483648 \<Longrightarrow> size_of s = int (length (contents s))"
    and top_fresh: "\<exists>m. top_of fresh = Throw (OperationException m)"
    and pops_fresh: "\<exists>m. pops fresh = Throw (OperationException m)"
begin

lemma lifo_cases: "s = fresh \<or> (\<exists>v s'. s = pushes v s')"
proof (cases "contents s")
  case Nil
  then show ?thesis using contents_inject contents_fresh by metis
next
  case (Cons v t)
  obtain s' where "contents s' = t" using contents_surj by blast
  with Cons have "s = pushes v s'" by (intro contents_inject) (simp add: contents_pushes)
  then show ?thesis by blast
qed

text \<open>Pushing values and popping as many gives them back in reverse order.\<close>

lemma contents_fold: "contents (fold pushes vs s) = rev vs @ contents s"
  by (induction vs arbitrary: s) (simp_all add: contents_pushes)

end

interpretation vs: lifo ValueStack_new push get_top pop get_size "\<lambda>s. s"
  by unfold_locales (auto simp: ValueStack_new_def push_def get_top_def pop_def get_size_def)

lemma get_top_push [simp]: "get_top (push v s) = Ret v"
  by (rule vs.top_pushes)

lemma pop_push [simp]: "pop (push v s) = Ret s"
  by (rule vs.pops_pushes)

lemma get_size_small: "length s < 2147483648 \<Longrightarrow> get_size s = int (length s)"
  by (rule vs.size_contents)

lemma is_empty_iff: "is_empty s \<longleftrightarrow> s = []"
  by (simp add: is_empty_def)

lemma get_top_outcome: "(\<exists>v. get_top s = Ret v) \<or> (\<exists>m. get_top s = Throw (OperationException m))"
  by (simp add: get_top_def)

end
