(* ===== verification/Table.thy ===== *)
theory Table
  imports Cxx_Std
begin

text \<open>
  The class \<open>Table\<close> of \<open>table.h\<close> and \<open>table.cpp\<close>, its
  mutex and the RAII class \<open>Guard\<close> of \<open>guard.h\<close>. A table keeps
  committed pairs and proposed pairs; \<open>set\<close> proposes, \<open>commit_changes\<close>
  copies every proposed pair over the committed ones, \<open>rollback_changes\<close>
  forgets the proposals.

  A POSIX mutex of the default type is the thread that owns it, or none. Locking a
  mutex of another thread does not return (\<open>Block\<close>); unlocking a mutex that the
  caller does not own, and locking one it owns already, are undefined behaviour.
\<close>

section \<open>Mutexes\<close>

type_synonym thread_id = nat
type_synonym mutex = "thread_id option"

definition mutex_init :: mutex where
  "mutex_init = None"

definition mutex_lock :: "thread_id \<Rightarrow> mutex \<Rightarrow> mutex res" where
  "mutex_lock t m =
     (case m of
        None \<Rightarrow> Ret (Some t)
      | Some u \<Rightarrow> if u = t then Fault Mutex_relock else Block)"

text \<open>\<open>pthread_mutex_trylock\<close>: 0 and the lock, or an error code and no change.\<close>

definition mutex_trylock :: "thread_id \<Rightarrow> mutex \<Rightarrow> bool \<times> mutex" where
  "mutex_trylock t m = (case m of None \<Rightarrow> (True, Some t) | Some u \<Rightarrow> (False, m))"

definition mutex_unlock :: "thread_id \<Rightarrow> mutex \<Rightarrow> mutex res" where
  "mutex_unlock t m = (if m = Some t then Ret None else Fault Mutex_not_owned)"

section \<open>Tables\<close>

record Table =
  m_name :: string
  t_mutex :: mutex
  key_value_pairs :: "(string, string) umap"
  proposed_pairs :: "(string, string) umap"

definition Table_new :: "string \<Rightarrow> Table" where
  "Table_new name =
     \<lparr>m_name = name, t_mutex = mutex_init, key_value_pairs = [], proposed_pairs = []\<rparr>"

definition get_name :: "Table \<Rightarrow> string" where
  "get_name t = m_name t"

definition table_lock :: "thread_id \<Rightarrow> Table \<Rightarrow> Table res" where
  "table_lock me t = bind_res (mutex_lock me (t_mutex t)) (\<lambda>m. Ret (t\<lparr>t_mutex := m\<rparr>))"

definition table_unlock :: "thread_id \<Rightarrow> Table \<Rightarrow> Table res" where
  "table_unlock me t = bind_res (mutex_unlock me (t_mutex t)) (\<lambda>m. Ret (t\<lparr>t_mutex := m\<rparr>))"

definition table_trylock :: "thread_id \<Rightarrow> Table \<Rightarrow> bool \<times> Table" where
  "table_trylock me t =
     (let (ok, m) = mutex_trylock me (t_mutex t) in (ok, t\<lparr>t_mutex := m\<rparr>))"

definition table_set :: "string \<Rightarrow> string \<Rightarrow> Table \<Rightarrow> Table" where
  "table_set key v t = t\<lparr>proposed_pairs := umap_assign (proposed_pairs t) key v\<rparr>"

definition umap_at :: "('k, 'v) umap \<Rightarrow> 'k \<Rightarrow> 'v res" where
  "umap_at m k = (case map_of m k of None \<Rightarrow> Throw (Out_of_range ''at'') | Some v \<Rightarrow> Ret v)"

definition table_get :: "string \<Rightarrow> Table \<Rightarrow> string res" where
  "table_get key t =
     (if umap_contains (key_value_pairs t) key then umap_at (key_value_pairs t) key
      else if umap_contains (proposed_pairs t) key then umap_at (proposed_pairs t) key
      else Throw (OperationException ''Key that does not exist requested''))"

definition has_key :: "string \<Rightarrow> Table \<Rightarrow> bool" where
  "has_key key t =
     (if umap_contains (key_value_pairs t) key \<or> umap_contains (proposed_pairs t) key
      then True else False)"

definition commit_changes :: "Table \<Rightarrow> Table" where
  "commit_changes t =
     t\<lparr>key_value_pairs :=
         fold (\<lambda>(k, v) m. umap_assign m k v) (proposed_pairs t) (key_value_pairs t)\<rparr>"

definition rollback_changes :: "Table \<Rightarrow> Table" where
  "rollback_changes t = t\<lparr>proposed_pairs := []\<rparr>"

text \<open>\<open>Guard\<close>: the constructor locks, the destructor unlocks the same mutex.\<close>

definition Guard_enter :: "thread_id \<Rightarrow> mutex \<Rightarrow> mutex res" where
  "Guard_enter me m_lock = mutex_lock me m_lock"

definition Guard_exit :: "thread_id \<Rightarrow> mutex \<Rightarrow> mutex res" where
  "Guard_exit me m_lock = mutex_unlock me m_lock"

section \<open>The mutex interface\<close>

text \<open>
  What the users of a lock rely on: a lock has at most one owner, is given only when
  free, and the owner can always give it back.
\<close>

locale exclusive_lock =
  fixes acquire :: "'t \<Rightarrow> 'l \<Rightarrow> 'l res"
    and try_acquire :: "'t \<Rightarrow> 'l \<Rightarrow> bool \<times> 'l"
    and release :: "'t \<Rightarrow> 'l \<Rightarrow> 'l res"
    and owner :: "'l \<Rightarrow> 't option"
  assumes acquire_iff: "(\<exists>l'. acquire t l = Ret l') \<longleftrightarrow> owner l = None"
    and acquire_owner: "acquire t l = Ret l' \<Longrightarrow> owner l' = Some t"
    and acquire_block: "acquire t l = Block \<longleftrightarrow> (\<exists>u. owner l = Some u \<and> u \<noteq> t)"
    and try_iff: "fst (try_acquire t l) \<longleftrightarrow> owner l = None"
    and try_owner: "try_acquire t l = (True, l') \<Longrightarrow> owner l' = Some t"
    and try_busy: "try_acquire t l = (False, l') \<Longrightarrow> l' = l"
    and release_iff: "(\<exists>l'. release t l = Ret l') \<longleftrightarrow> owner l = Some t"
    and release_owner: "release t l = Ret l' \<Longrightarrow> owner l' = None"
begin

lemma acquire_then_release: "acquire t l = Ret l' \<Longrightarrow> \<exists>l''. release t l' = Ret l'' \<and> owner l'' = None"
  using acquire_owner release_iff release_owner by blast

lemma no_second_acquire: "acquire t l = Ret l' \<Longrightarrow> u \<noteq> t \<Longrightarrow> acquire u l' = Block"
  using acquire_block acquire_owner by blast

lemma no_second_try: "acquire t l = Ret l' \<Longrightarrow> \<not> fst (try_acquire u l')"
  using acquire_owner try_iff by simp

lemma release_twice: "release t l = Ret l' \<Longrightarrow> \<nexists>l''. release u l' = Ret l''"
  using release_iff release_owner by simp

end

interpretation pm: exclusive_lock mutex_lock mutex_trylock mutex_unlock "\<lambda>m. m"
  by unfold_locales (auto simp: mutex_lock_def mutex_trylock_def mutex_unlock_def split: option.splits if_splits)

interpretation tlk: exclusive_lock table_lock table_trylock table_unlock t_mutex
  by unfold_locales
    (auto simp: table_lock_def table_trylock_def table_unlock_def mutex_lock_def
      mutex_trylock_def mutex_unlock_def Let_def split: option.splits prod.splits if_splits)

section \<open>Tables as transactional maps\<close>

definition committed :: "Table \<Rightarrow> string \<rightharpoonup> string" where
  "committed t = map_of (key_value_pairs t)"

definition proposed :: "Table \<Rightarrow> string \<rightharpoonup> string" where
  "proposed t = map_of (proposed_pairs t)"

definition table_wf :: "Table \<Rightarrow> bool" where
  "table_wf t \<longleftrightarrow> umap_wf (key_value_pairs t) \<and> umap_wf (proposed_pairs t)"

text \<open>
  The contract that the request handlers use: a store with a committed map and a map of
  proposals, where setting touches the proposals only, committing overrides the
  committed map by the proposals, rolling back forgets them.
\<close>

locale transactional_store =
  fixes put :: "'k \<Rightarrow> 'v \<Rightarrow> 't \<Rightarrow> 't"
    and read_key :: "'k \<Rightarrow> 't \<Rightarrow> 'v res"
    and present :: "'k \<Rightarrow> 't \<Rightarrow> bool"
    and commit :: "'t \<Rightarrow> 't"
    and rollback :: "'t \<Rightarrow> 't"
    and base :: "'t \<Rightarrow> 'k \<rightharpoonup> 'v"
    and pending :: "'t \<Rightarrow> 'k \<rightharpoonup> 'v"
    and wf :: "'t \<Rightarrow> bool"
  assumes base_put: "base (put k v t) = base t"
    and pending_put: "pending (put k v t) = (pending t)(k \<mapsto> v)"
    and wf_put: "wf t \<Longrightarrow> wf (put k v t)"
    and base_commit: "wf t \<Longrightarrow> base (commit t) = base t ++ pending t"
    and pending_commit: "pending (commit t) = pending t"
    and wf_commit: "wf t \<Longrightarrow> wf (commit t)"
    and base_rollback: "base (rollback t) = base t"
    and pending_rollback: "pending (rollback t) = Map.empty"
    and wf_rollback: "wf t \<Longrightarrow> wf (rollback t)"
    and present_iff: "present k t \<longleftrightarrow> (pending t ++ base t) k \<noteq> None"
    and read_present: "(pending t ++ base t) k = Some v \<Longrightarrow> read_key k t = Ret v"
    and read_absent: "(pending t ++ base t) k = None \<Longrightarrow> \<exists>m. read_key k t = Throw (OperationException m)"
begin

lemma present_read: "present k t \<Longrightarrow> \<exists>v. read_key k t = Ret v"
  using present_iff [of k t] read_present [of t k] by (metis not_None_eq)

text \<open>Any sequence of proposals followed by a rollback leaves the committed map alone.\<close>

lemma base_puts: "base (fold (\<lambda>(k, v). put k v) kvs t) = base t"
  by (induction kvs arbitrary: t) (auto simp: base_put)

lemma wf_puts: "wf t \<Longrightarrow> wf (fold (\<lambda>(k, v). put k v) kvs t)"
  by (induction kvs arbitrary: t) (auto simp: wf_put)

lemma pending_puts:
  "pending (fold (\<lambda>(k, v). put k v) kvs t) = pending t ++ map_of (rev kvs)"
  by (induction kvs arbitrary: t)
    (auto simp: pending_put map_add_def fun_eq_iff split: option.splits)

lemma puts_rollback:
  "base (rollback (fold (\<lambda>(k, v). put k v) kvs t)) = base t \<and>
   pending (rollback (fold (\<lambda>(k, v). put k v) kvs t)) = Map.empty"
  by (simp add: base_rollback base_puts pending_rollback)

lemma puts_commit:
  assumes "wf t" "pending t \<subseteq>\<^sub>m base t"
  shows "base (commit (fold (\<lambda>(k, v). put k v) kvs t)) = base t ++ map_of (rev kvs)"
proof -
  have "base t ++ pending t = base t"
    using assms(2) by (rule map_add_subsumed2)
  then show ?thesis
    using assms(1)
    by (simp only: base_commit [OF wf_puts] base_puts pending_puts map_add_assoc)
qed

lemma commit_settles: "wf t \<Longrightarrow> pending (commit t) \<subseteq>\<^sub>m base (commit t)"
  by (simp add: base_commit pending_commit)

lemma commit_idem: "wf t \<Longrightarrow> base (commit (commit t)) = base (commit t)"
  by (simp add: base_commit wf_commit pending_commit map_add_subsumed2)

end

interpretation ts: transactional_store table_set table_get has_key commit_changes rollback_changes
  committed proposed table_wf
proof
  fix t :: Table
  assume "table_wf t"
  then show "table_wf (commit_changes t)"
    by (simp add: table_wf_def commit_changes_def um.wf_assign_all)
next
  fix t :: Table
  assume "table_wf t"
  then show "committed (commit_changes t) = committed t ++ proposed t"
    by (simp add: table_wf_def committed_def proposed_def commit_changes_def um.lookup_merge)
qed (auto simp: committed_def proposed_def table_set_def table_get_def has_key_def table_wf_def
    commit_changes_def rollback_changes_def um.lookup_assign um.wf_assign um.wf_empty umap_contains_def
    umap_at_def map_add_def split: option.splits)

lemma table_wf_new: "table_wf (Table_new name)"
  by (simp add: table_wf_def Table_new_def um.wf_empty)

lemma Table_new_fields [simp]: "m_name (Table_new name) = name" "t_mutex (Table_new name) = None"
  by (simp_all add: Table_new_def mutex_init_def)

lemma committed_new: "committed (Table_new name) = Map.empty" "proposed (Table_new name) = Map.empty"
  by (simp_all add: committed_def proposed_def Table_new_def)

lemma table_frame:
  "t_mutex (table_set k v t) = t_mutex t" "t_mutex (commit_changes t) = t_mutex t"
  "t_mutex (rollback_changes t) = t_mutex t" "m_name (table_set k v t) = m_name t"
  "m_name (commit_changes t) = m_name t" "m_name (rollback_changes t) = m_name t"
  by (simp_all add: table_set_def commit_changes_def rollback_changes_def)

section \<open>Properties of tables\<close>

text \<open>
  C23. Atomicity of a table: any series of \<open>set\<close> calls followed by
  \<open>rollback_changes\<close> leaves every committed value as it was and no proposal
  behind, and followed by \<open>commit_changes\<close> installs for each key the last value
  set, keeping the rest.
\<close>

theorem table_transaction:
  assumes "table_wf t" "proposed t \<subseteq>\<^sub>m committed t"
  shows "committed (rollback_changes (fold (\<lambda>(k, v). table_set k v) kvs t)) = committed t \<and>
         proposed (rollback_changes (fold (\<lambda>(k, v). table_set k v) kvs t)) = Map.empty \<and>
         committed (commit_changes (fold (\<lambda>(k, v). table_set k v) kvs t)) =
           committed t ++ map_of (rev kvs)"
  using ts.puts_rollback [of kvs t] ts.puts_commit [OF assms, of kvs] by simp

theorem table_transaction_witness:
  "committed (commit_changes (fold (\<lambda>(k, v). table_set k v)
      [(''apples'', ''1''), (''apples'', ''2'')] (Table_new ''fruit''))) =
   committed (Table_new ''fruit'') ++ map_of (rev [(''apples'', ''1''), (''apples'', ''2'')])"
proof -
  have "proposed (Table_new ''fruit'') \<subseteq>\<^sub>m committed (Table_new ''fruit'')"
    by (simp add: committed_new)
  from table_transaction [OF table_wf_new this] show ?thesis by blast
qed

text \<open>
  \<open>get\<close> raises exactly when \<open>has_key\<close> is false; otherwise it gives
  the committed value if the key has one, and the proposed value if not.
\<close>

theorem table_get_spec:
  "(has_key k t \<longleftrightarrow> (\<exists>v. table_get k t = Ret v)) \<and>
   (\<not> has_key k t \<longleftrightarrow> (\<exists>m. table_get k t = Throw (OperationException m))) \<and>
   (\<forall>v. table_get k t = Ret v \<longleftrightarrow>
      committed t k = Some v \<or> committed t k = None \<and> proposed t k = Some v)"
  by (auto simp: has_key_def table_get_def umap_contains_def umap_at_def committed_def proposed_def
      split: option.splits)

theorem table_get_spec_witness:
  "table_get ''k'' (table_set ''k'' ''7'' (Table_new ''t'')) = Ret ''7''"
proof -
  have "committed (table_set ''k'' ''7'' (Table_new ''t'')) ''k'' = None"
    "proposed (table_set ''k'' ''7'' (Table_new ''t'')) ''k'' = Some ''7''"
    by code_simp+
  then show ?thesis using table_get_spec [of "''k''" "table_set ''k'' ''7'' (Table_new ''t'')"] by blast
qed

text \<open>
  A proposed value does not hide a committed one: after \<open>set\<close> on a key that
  already has a committed value, \<open>get\<close> still gives the old value until the
  proposals are committed, so a transaction does not see its own write to an existing
  key.
\<close>

theorem table_get_stale:
  assumes "table_wf t" "committed t k = Some old"
  shows "table_get k (table_set k new t) = Ret old \<and>
         table_get k (commit_changes (table_set k new t)) = Ret new"
proof -
  have "(proposed (table_set k new t) ++ committed (table_set k new t)) k = Some old"
    using assms(2) by (simp add: ts.base_put)
  moreover have "(proposed (commit_changes (table_set k new t)) ++
      committed (commit_changes (table_set k new t))) k = Some new"
    using assms(1) by (simp add: ts.base_commit ts.wf_put ts.pending_put)
  ultimately show ?thesis by (simp add: ts.read_present)
qed

theorem table_get_stale_witness:
  "table_get ''k'' (table_set ''k'' ''2'' (commit_changes (table_set ''k'' ''1'' (Table_new ''t'')))) = Ret ''1''"
proof -
  let ?t = "commit_changes (table_set ''k'' ''1'' (Table_new ''t''))"
  have "table_wf ?t" "committed ?t ''k'' = Some ''1''"
    by code_simp+
  from table_get_stale [OF this, of "''2''"] show ?thesis by blast
qed

end
