(* ===== verification/Server.thy ===== *)
theory Server
  imports Table
begin

text \<open>
  The class \<open>Server\<close> of \<open>server.h\<close> and \<open>server.cpp\<close>:
  the map from names to tables, and the mutex that serialises table creation. The
  tables that \<open>new Table\<close> allocates live in a list; a \<open>Table*\<close> is
  an index of that list, and tables are never freed. \<open>on_table\<close> runs a member
  function on the table that a pointer refers to.
\<close>

section \<open>State\<close>

type_synonym table_ptr = nat

record Server =
  server_fd :: int
  table_names :: "(string, table_ptr) umap"
  s_mutex :: mutex
  mutex_is_locked :: bool
  heap :: "Table list"

text \<open>The constructor leaves \<open>mutex_is_locked\<close> uninitialised: its value is an argument.\<close>

definition Server_new :: "bool \<Rightarrow> Server" where
  "Server_new garbage =
     \<lparr>server_fd = 0, table_names = [], s_mutex = mutex_init, mutex_is_locked = garbage, heap = []\<rparr>"

section \<open>Operations\<close>

definition update_cmd :: "('s \<Rightarrow> 's res) \<Rightarrow> ('s, unit) xcmd" where
  "update_cmd f s =
     (case f s of
        Ret s' \<Rightarrow> (Ret (), s')
      | Throw e \<Rightarrow> (Throw e, s)
      | Fault u \<Rightarrow> (Fault u, s)
      | Block \<Rightarrow> (Block, s))"

definition on_table :: "table_ptr \<Rightarrow> (Table, 'a) xcmd \<Rightarrow> (Server, 'a) xcmd" where
  "on_table p f srv =
     (if p < length (heap srv)
      then case f (heap srv ! p) of (r, t) \<Rightarrow> (r, srv\<lparr>heap := (heap srv)[p := t]\<rparr>)
      else (Fault Index_out_of_range, srv))"

definition server_lock :: "thread_id \<Rightarrow> (Server, unit) xcmd" where
  "server_lock me =
     seq_cmd
       (update_cmd (\<lambda>srv. bind_res (mutex_lock me (s_mutex srv)) (\<lambda>m. Ret (srv\<lparr>s_mutex := m\<rparr>))))
       (modify (\<lambda>srv. srv\<lparr>mutex_is_locked := True\<rparr>))"

definition server_unlock :: "thread_id \<Rightarrow> (Server, unit) xcmd" where
  "server_unlock me =
     seq_cmd
       (modify (\<lambda>srv. srv\<lparr>mutex_is_locked := False\<rparr>))
       (update_cmd (\<lambda>srv. bind_res (mutex_unlock me (s_mutex srv)) (\<lambda>m. Ret (srv\<lparr>s_mutex := m\<rparr>))))"

definition create_table :: "string \<Rightarrow> (Server, unit) xcmd" where
  "create_table name =
     modify (\<lambda>srv.
       let new_table = length (heap srv) in
       srv\<lparr>heap := heap srv @ [Table_new name],
           table_names := umap_assign (table_names srv) name new_table\<rparr>)"

text \<open>\<open>nullptr\<close> is \<open>None\<close>.\<close>

definition find_table :: "string \<Rightarrow> Server \<Rightarrow> table_ptr option" where
  "find_table name srv =
     (if umap_contains (table_names srv) name then Some (the (map_of (table_names srv) name))
      else None)"

text \<open>\<open>Server::listen\<close>, with the result of \<open>open_listenfd\<close> as an argument.\<close>

definition server_listen :: "int \<Rightarrow> (Server, unit) xcmd" where
  "server_listen listenfd =
     seq_cmd (modify (\<lambda>srv. srv\<lparr>server_fd := listenfd\<rparr>))
       (bind_cmd (gets server_fd)
          (\<lambda>fd. if fd < 0 then throw (CommException ''Failed to create server socket'') else ret ()))"

definition log_error :: "string \<Rightarrow> string" where
  "log_error message = ''Error: '' @ message @ [newline]"

section \<open>Lemmas\<close>

lemma update_cmd_run [run_simps]:
  "update_cmd f s = (case f s of Ret s' \<Rightarrow> (Ret (), s') | Throw e \<Rightarrow> (Throw e, s)
     | Fault u \<Rightarrow> (Fault u, s) | Block \<Rightarrow> (Block, s))"
  by (rule update_cmd_def)

lemma find_table_map_of: "find_table name srv = map_of (table_names srv) name"
  by (auto simp: find_table_def umap_contains_def)

lemma server_lock_free:
  "s_mutex srv = None \<Longrightarrow>
     server_lock me srv = (Ret (), srv\<lparr>s_mutex := Some me, mutex_is_locked := True\<rparr>)"
  by (simp add: server_lock_def run_simps mutex_lock_def)

lemma server_unlock_owned:
  "s_mutex srv = Some me \<Longrightarrow>
     server_unlock me srv = (Ret (), srv\<lparr>mutex_is_locked := False, s_mutex := None\<rparr>)"
  by (simp add: server_unlock_def run_simps mutex_unlock_def)

lemma on_table_run:
  "p < length (heap srv) \<Longrightarrow> f (heap srv ! p) = (r, t) \<Longrightarrow>
     on_table p f srv = (r, srv\<lparr>heap := (heap srv)[p := t]\<rparr>)"
  by (simp add: on_table_def)

section \<open>Well-formed servers\<close>

text \<open>
  Every name leads to its own table: names are distinct, pointers are valid, and the
  table behind a name carries that name (so no table has two names).
\<close>

definition server_wf :: "Server \<Rightarrow> bool" where
  "server_wf srv \<longleftrightarrow>
     umap_wf (table_names srv) \<and>
     (\<forall>name p. map_of (table_names srv) name = Some p \<longrightarrow>
        p < length (heap srv) \<and> m_name (heap srv ! p) = name) \<and>
     list_all table_wf (heap srv)"

lemma server_wf_new: "server_wf (Server_new g)"
  by (simp add: server_wf_def Server_new_def um.wf_empty)

lemma find_table_valid:
  "server_wf srv \<Longrightarrow> find_table name srv = Some p \<Longrightarrow> p < length (heap srv)"
  by (auto simp: server_wf_def find_table_map_of)

lemma find_table_inj:
  "server_wf srv \<Longrightarrow> find_table a srv = Some p \<Longrightarrow> find_table b srv = Some p \<Longrightarrow> a = b"
  by (auto simp: server_wf_def find_table_map_of)

lemma create_table_run:
  "create_table name srv = (Ret (),
     srv\<lparr>heap := heap srv @ [Table_new name],
         table_names := umap_assign (table_names srv) name (length (heap srv))\<rparr>)"
  by (simp add: create_table_def run_simps Let_def)

lemma create_table_wf:
  assumes "server_wf srv" "find_table name srv = None" "create_table name srv = (r, srv')"
  shows "server_wf srv'"
  using assms
  by (auto simp: server_wf_def create_table_run find_table_map_of um.lookup_assign um.wf_assign
      nth_append table_wf_new less_SucI split: if_splits)

lemma create_table_find:
  assumes "server_wf srv" "create_table name srv = (r, srv')"
  shows "find_table name srv' = Some (length (heap srv))"
    and "other \<noteq> name \<Longrightarrow> find_table other srv' = find_table other srv"
  using assms by (auto simp: create_table_run find_table_map_of um.lookup_assign)

lemma heap_update_wf:
  assumes "server_wf srv" "p < length (heap srv)" "table_wf t" "m_name t = m_name (heap srv ! p)"
  shows "server_wf (srv\<lparr>heap := (heap srv)[p := t]\<rparr>)"
  using assms by (auto simp: server_wf_def nth_list_update list_all_length)

end
