(* ===== verification/Rio.thy ===== *)
theory Rio
  imports Cxx_Std
begin

text \<open>
  The robust I/O package of \<open>csapp.c\<close>: \<open>rio_readn\<close>,
  \<open>rio_writen\<close>, the buffered \<open>rio_read\<close>,
  \<open>rio_readinitb\<close>, \<open>rio_readnb\<close> and
  \<open>rio_readlineb\<close>.

  The kernel's side of a descriptor is an argument: the list of what the calls of
  \<open>read\<close> (or \<open>write\<close>) will meet. A \<open>read\<close> of
  \<open>n\<close> bytes returns at most \<open>n\<close> bytes of the next chunk, 0 at the
  end of the stream, or -1 with \<open>errno\<close> either \<open>EINTR\<close> or another
  code. The lemmas relate each function to the sequence of bytes that is still to come,
  independently of how it is cut into chunks.
\<close>

section \<open>The kernel's side\<close>

datatype read_event = Bytes string | Interrupted | Read_error

datatype read_result = Got string | Got_eintr | Got_error

fun sys_read :: "nat \<Rightarrow> read_event list \<Rightarrow> read_result \<times> read_event list" where
  "sys_read n [] = (Got [], [])"
| "sys_read n (Interrupted # inp) = (Got_eintr, inp)"
| "sys_read n (Read_error # inp) = (Got_error, inp)"
| "sys_read n (Bytes bs # inp) =
     (Got (take n bs), if length bs \<le> n then inp else Bytes (drop n bs) # inp)"

text \<open>
  A \<open>write\<close> of \<open>n\<close> bytes takes a positive number of them,
  \<open>min k n\<close> for the next \<open>Accept k\<close>, or all of them when nothing is
  said; a result of 0 or -1 leaves \<open>errno\<close> to decide.
\<close>

datatype write_event = Accept nat | Write_interrupted | Write_error

section \<open>Operations\<close>

definition RIO_BUFSIZE :: nat where "RIO_BUFSIZE = 8192"

record rio_t =
  rio_fd :: int
  rio_cnt :: int
  rio_bufptr :: nat
  rio_buf :: string

text \<open>The size of a \<open>rio_t\<close> with four-byte \<open>int\<close> and eight-byte pointers.\<close>

definition sizeof_rio_t :: nat where "sizeof_rio_t = 4 + 4 + 8 + RIO_BUFSIZE"

definition rio_readinitb :: "int \<Rightarrow> rio_t \<Rightarrow> rio_t" where
  "rio_readinitb fd rp = rp\<lparr>rio_fd := fd, rio_cnt := 0, rio_bufptr := 0\<rparr>"

text \<open>
  The refill loop of \<open>rio_read\<close>: \<open>Some r\<close> is a return from the
  function with \<open>r\<close>, \<open>None\<close> the end of the loop.
\<close>

lemma sys_read_eintr_less: "(Got_eintr, inp') = sys_read n inp \<Longrightarrow> length inp' < length inp"
  by (cases "(n, inp)" rule: sys_read.cases) auto

function rio_refill :: "rio_t \<Rightarrow> read_event list \<Rightarrow> int option \<times> rio_t \<times> read_event list" where
  "rio_refill rp inp =
     (if rio_cnt rp \<le> 0
      then case sys_read RIO_BUFSIZE inp of
             (Got_eintr, inp') \<Rightarrow> rio_refill (rp\<lparr>rio_cnt := -1\<rparr>) inp'
           | (Got_error, inp') \<Rightarrow> (Some (-1), rp\<lparr>rio_cnt := -1\<rparr>, inp')
           | (Got bs, inp') \<Rightarrow>
               (if bs = [] then (Some 0, rp\<lparr>rio_cnt := 0\<rparr>, inp')
                else rio_refill (rp\<lparr>rio_cnt := int (length bs), rio_bufptr := 0,
                                    rio_buf := bs @ drop (length bs) (rio_buf rp)\<rparr>) inp')
      else (None, rp, inp))"
  by pat_completeness auto
termination
  by (relation "measure (\<lambda>(rp, inp). if rio_cnt rp \<le> 0 then Suc (length inp) else 0)")
    (auto dest: sys_read_eintr_less)

declare rio_refill.simps [simp del]

text \<open>
  \<open>rio_read\<close> compares its count as an \<open>int\<close>. For \<open>n\<close> below \<open>2^31\<close>
  this is the definition; for larger \<open>n\<close> the count can be negative, and
  the \<open>memcpy\<close> with it undefined, which the definition does not show. No result is stated for such \<open>n\<close>.
\<close>

definition rio_read :: "nat \<Rightarrow> rio_t \<Rightarrow> read_event list \<Rightarrow> int \<times> string \<times> rio_t \<times> read_event list" where
  "rio_read n rp inp =
     (case rio_refill rp inp of
        (Some r, rp', inp') \<Rightarrow> (r, [], rp', inp')
      | (None, rp', inp') \<Rightarrow>
          (let cnt = (if rio_cnt rp' < int_of_size n then rio_cnt rp' else int_of_size n);
               bytes = take (nat cnt) (drop (rio_bufptr rp') (rio_buf rp'))
           in (cnt, bytes,
               rp'\<lparr>rio_bufptr := rio_bufptr rp' + nat cnt, rio_cnt := rio_cnt rp' - cnt\<rparr>, inp')))"

text \<open>
  The loop of \<open>rio_readlineb\<close> stores into the user's buffer; the model returns
  the bytes stored, in order, the terminating NUL included when it is written.
\<close>

function readline_loop ::
  "int \<Rightarrow> int \<Rightarrow> string \<Rightarrow> rio_t \<Rightarrow> read_event list \<Rightarrow> int \<times> string \<times> rio_t \<times> read_event list" where
  "readline_loop maxlen n stored rp inp =
     (if n < maxlen
      then case rio_read 1 rp inp of (rc, c, rp', inp') \<Rightarrow>
             (if rc = 1
              then (if c = [newline] then (n + 1 - 1, stored @ c @ [nul], rp', inp')
                    else readline_loop maxlen (n + 1) (stored @ c) rp' inp')
              else if rc = 0
              then (if n = 1 then (0, stored, rp', inp') else (n - 1, stored @ [nul], rp', inp'))
              else (-1, stored, rp', inp'))
      else (n - 1, stored @ [nul], rp, inp))"
  by pat_completeness auto
termination
  by (relation "measure (\<lambda>(maxlen, n, stored, rp, inp). nat (maxlen - n))") auto

declare readline_loop.simps [simp del]

definition rio_readlineb :: "nat \<Rightarrow> rio_t \<Rightarrow> read_event list \<Rightarrow> int \<times> string \<times> rio_t \<times> read_event list" where
  "rio_readlineb maxlen rp inp = readline_loop (int_of_size maxlen) 1 [] rp inp"

text \<open>
  The loop of \<open>rio_readnb\<close>; a call of \<open>rio_read\<close> for \<open>nleft\<close>
  bytes returns no more than that, so \<open>nleft\<close> does not wrap.
\<close>

lemma rio_refill_cnt: "rio_refill rp inp = (None, rp', inp') \<Longrightarrow> 0 < rio_cnt rp'"
proof (induction rp inp rule: rio_refill.induct)
  case (1 rp inp)
  from "1.prems" show ?case
    by (subst (asm) rio_refill.simps)
      (auto split: if_splits prod.splits read_result.splits dest: "1.IH")
qed

function readnb_loop ::
  "nat \<Rightarrow> nat \<Rightarrow> string \<Rightarrow> rio_t \<Rightarrow> read_event list \<Rightarrow> int \<times> string \<times> rio_t \<times> read_event list" where
  "readnb_loop n nleft stored rp inp =
     (if 0 < nleft
      then case rio_read nleft rp inp of (nread, bytes, rp', inp') \<Rightarrow>
             (if nread < 0 then (-1, stored, rp', inp')
              else if nread = 0 then (int (n - nleft), stored, rp', inp')
              else readnb_loop n (nleft - nat nread) (stored @ bytes) rp' inp')
      else (int (n - nleft), stored, rp, inp))"
  by pat_completeness auto
termination
  by (relation "measure (\<lambda>(n, nleft, stored, rp, inp). nleft)") auto

declare readnb_loop.simps [simp del]

definition rio_readnb :: "nat \<Rightarrow> rio_t \<Rightarrow> read_event list \<Rightarrow> int \<times> string \<times> rio_t \<times> read_event list" where
  "rio_readnb n rp inp = readnb_loop n n [] rp inp"

text \<open>The unbuffered \<open>rio_readn\<close>: after \<open>EINTR\<close> it calls \<open>read\<close> again.\<close>

lemma sys_read_progress:
  "(r, inp') = sys_read n inp \<Longrightarrow> r \<noteq> Got [] \<Longrightarrow> length inp' \<le> length inp"
  by (cases "(n, inp)" rule: sys_read.cases) auto

function readn_loop ::
  "nat \<Rightarrow> nat \<Rightarrow> string \<Rightarrow> read_event list \<Rightarrow> int \<times> string \<times> read_event list" where
  "readn_loop n nleft stored inp =
     (if 0 < nleft
      then case sys_read nleft inp of
             (Got_eintr, inp') \<Rightarrow> readn_loop n nleft stored inp'
           | (Got_error, inp') \<Rightarrow> (-1, stored, inp')
           | (Got bs, inp') \<Rightarrow>
               (if bs = [] then (int (n - nleft), stored, inp')
                else readn_loop n (nleft - length bs) (stored @ bs) inp')
      else (int (n - nleft), stored, inp))"
  by pat_completeness auto
termination
  by (relation "measures [\<lambda>(n, nleft, stored, inp). nleft, \<lambda>(n, nleft, stored, inp). length inp]")
    (auto dest: sys_read_eintr_less)

declare readn_loop.simps [simp del]

definition rio_readn :: "nat \<Rightarrow> read_event list \<Rightarrow> int \<times> string \<times> read_event list" where
  "rio_readn n inp = readn_loop n n [] inp"

text \<open>
  \<open>rio_writen\<close>: the bytes handed to the kernel so far, and what it does next. A
  \<open>write\<close> that takes nothing is an error unless \<open>errno\<close> is
  \<open>EINTR\<close>.
\<close>

function writen_loop :: "string \<Rightarrow> nat \<Rightarrow> string \<Rightarrow> write_event list \<Rightarrow> int \<times> string \<times> write_event list" where
  "writen_loop bufp n sent out =
     (if bufp \<noteq> []
      then case out of
             [] \<Rightarrow> writen_loop [] n (sent @ bufp) []
           | Accept k # out' \<Rightarrow>
               (if k = 0 then (-1, sent, out')
                else writen_loop (drop k bufp) n (sent @ take k bufp) out')
           | Write_interrupted # out' \<Rightarrow> writen_loop bufp n sent out'
           | Write_error # out' \<Rightarrow> (-1, sent, out')
      else (int n, sent, out))"
  by pat_completeness auto
termination
  by (relation "measures [\<lambda>(bufp, n, sent, out). length bufp, \<lambda>(bufp, n, sent, out). length out]") auto

declare writen_loop.simps [simp del]

definition rio_writen :: "string \<Rightarrow> write_event list \<Rightarrow> int \<times> string \<times> write_event list" where
  "rio_writen usrbuf out = writen_loop usrbuf (length usrbuf) [] out"

section \<open>The bytes that are still to come\<close>

fun stream_of :: "read_event list \<Rightarrow> string" where
  "stream_of [] = []"
| "stream_of (Bytes bs # inp) = bs @ stream_of inp"
| "stream_of (Interrupted # inp) = stream_of inp"
| "stream_of (Read_error # inp) = stream_of inp"

text \<open>A stream that ends by the peer closing it, and not by an error.\<close>

definition clean :: "read_event list \<Rightarrow> bool" where
  "clean inp \<longleftrightarrow> Read_error \<notin> set inp \<and> Bytes [] \<notin> set inp"

definition buffered :: "rio_t \<Rightarrow> string" where
  "buffered rp = take (nat (rio_cnt rp)) (drop (rio_bufptr rp) (rio_buf rp))"

definition rio_wf :: "rio_t \<Rightarrow> bool" where
  "rio_wf rp \<longleftrightarrow> rio_bufptr rp + nat (rio_cnt rp) \<le> length (rio_buf rp)"

definition remaining :: "rio_t \<times> read_event list \<Rightarrow> string" where
  "remaining s = buffered (fst s) @ stream_of (snd s)"

definition rio_ok :: "rio_t \<times> read_event list \<Rightarrow> bool" where
  "rio_ok s \<longleftrightarrow> rio_wf (fst s) \<and> clean (snd s)"

lemma sys_read_clean:
  assumes "clean inp" "sys_read n inp = (r, inp')" "0 < n"
  shows "clean inp' \<and> r \<noteq> Got_error \<and>
    (\<forall>bs. r = Got bs \<longrightarrow> stream_of inp = bs @ stream_of inp' \<and> length bs \<le> n \<and> (bs = [] \<longrightarrow> inp = [] \<and> inp' = [])) \<and>
    (r = Got_eintr \<longrightarrow> stream_of inp' = stream_of inp)"
  using assms by (cases "(n, inp)" rule: sys_read.cases) (auto simp: clean_def split: if_splits)

lemma buffered_empty: "rio_cnt rp \<le> 0 \<Longrightarrow> buffered rp = []"
  by (simp add: buffered_def)

lemma rio_refill_stream:
  assumes "rio_ok (rp, inp)" "rio_refill rp inp = (r, rp', inp')"
  shows "rio_ok (rp', inp') \<and> remaining (rp', inp') = remaining (rp, inp) \<and>
    (r = None \<and> 0 < rio_cnt rp' \<or> r = Some 0 \<and> remaining (rp, inp) = [])"
  using assms
proof (induction rp inp rule: rio_refill.induct)
  case (1 rp inp)
  show ?case
  proof (cases "rio_cnt rp \<le> 0")
    case False
    with "1.prems" show ?thesis by (simp add: rio_refill.simps [of rp])
  next
    case True
    obtain x inp1 where sys: "sys_read RIO_BUFSIZE inp = (x, inp1)" by fastforce
    have c: "clean inp" using "1.prems"(1) by (simp add: rio_ok_def)
    note k = sys_read_clean [OF c sys]
    have pos: "0 < RIO_BUFSIZE" by (simp add: RIO_BUFSIZE_def)
    show ?thesis
    proof (cases x)
      case Got_error
      with k pos show ?thesis by simp
    next
      case Got_eintr
      with k pos True "1.prems" "1.IH"(2) [OF True sys [symmetric] Got_eintr] sys show ?thesis
        by (auto simp: rio_refill.simps [of rp] rio_ok_def rio_wf_def remaining_def buffered_def)
    next
      case (Got bs)
      with k pos True "1.prems" "1.IH"(1) [OF True sys [symmetric] Got] sys show ?thesis
        by (cases "bs = []")
          (auto simp: rio_refill.simps [of rp] rio_ok_def rio_wf_def remaining_def buffered_def)
    qed
  qed
qed

text \<open>
  The interface of a source of bytes with a known rest: what a reader that asks for
  \<open>n\<close> bytes may rely on, and all that the line reader uses.
\<close>

locale byte_source =
  fixes fetch :: "nat \<Rightarrow> 's \<Rightarrow> int \<times> string \<times> 's"
    and rest :: "'s \<Rightarrow> string"
    and ok :: "'s \<Rightarrow> bool"
  assumes fetch_ok: "ok s \<Longrightarrow> 0 < n \<Longrightarrow> n < 2147483648 \<Longrightarrow> fetch n s = (rc, bs, s') \<Longrightarrow>
      ok s' \<and> rest s = bs @ rest s' \<and> rc = int (length bs) \<and> length bs \<le> n \<and>
      (bs = [] \<longrightarrow> rest s = [])"
begin

lemma fetch_byte:
  assumes "ok s" "rest s = c # cs"
  obtains s' where "fetch 1 s = (1, [c], s')" "ok s'" "rest s' = cs"
proof -
  obtain rc bs s' where f: "fetch 1 s = (rc, bs, s')" by (metis prod_cases3)
  from fetch_ok [OF assms(1) _ _ f] assms(2)
  have "ok s'" "c # cs = bs @ rest s'" "rc = int (length bs)" "length bs \<le> 1" "bs \<noteq> []"
    by auto
  moreover from this obtain b where "bs = [b]" by (cases bs) auto
  ultimately show thesis using f that by auto
qed

lemma fetch_end:
  assumes "ok s" "rest s = []"
  obtains s' where "fetch 1 s = (0, [], s')" "ok s'" "rest s' = []"
proof -
  obtain rc bs s' where f: "fetch 1 s = (rc, bs, s')" by (metis prod_cases3)
  from fetch_ok [OF assms(1) _ _ f] assms(2) f that show thesis by auto
qed

end

definition fetch_rio :: "nat \<Rightarrow> rio_t \<times> read_event list \<Rightarrow> int \<times> string \<times> (rio_t \<times> read_event list)" where
  "fetch_rio n s = (case rio_read n (fst s) (snd s) of (rc, bs, rp, inp) \<Rightarrow> (rc, bs, (rp, inp)))"

lemma take_drop_buffer:
  assumes "k \<le> m"
  shows "take m xs = take k xs @ take (m - k) (drop k xs)"
  using assms by (metis le_add_diff_inverse take_add)

interpretation br: byte_source fetch_rio remaining rio_ok
proof
  fix s n rc bs and s' :: "rio_t \<times> read_event list"
  assume ok: "rio_ok s" and n: "0 < n" "n < 2147483648" and f: "fetch_rio n s = (rc, bs, s')"
  obtain rp inp where s: "s = (rp, inp)" by fastforce
  obtain r rp1 inp1 where refill: "rio_refill rp inp = (r, rp1, inp1)" by (metis prod_cases3)
  note R = rio_refill_stream [OF ok [unfolded s] refill]
  show "rio_ok s' \<and> remaining s = bs @ remaining s' \<and> rc = int (length bs) \<and> length bs \<le> n \<and>
    (bs = [] \<longrightarrow> remaining s = [])"
  proof (cases r)
    case (Some x)
    with f s refill R show ?thesis by (auto simp: fetch_rio_def rio_read_def)
  next
    case None
    define cnt where "cnt = min (nat (rio_cnt rp1)) n"
    have pos: "0 < rio_cnt rp1" using R None by simp
    have wf: "rio_bufptr rp1 + nat (rio_cnt rp1) \<le> length (rio_buf rp1)" and cl: "clean inp1"
      using R by (simp_all add: rio_ok_def rio_wf_def)
    have eq: "(if rio_cnt rp1 < int n then rio_cnt rp1 else int n) = int cnt"
      using pos by (simp add: cnt_def)
    have out: "rc = int cnt" "bs = take cnt (drop (rio_bufptr rp1) (rio_buf rp1))"
        "s' = (rp1\<lparr>rio_bufptr := rio_bufptr rp1 + cnt, rio_cnt := rio_cnt rp1 - int cnt\<rparr>, inp1)"
      using f [unfolded s fetch_rio_def rio_read_def int_of_size_small [OF n(2)]] refill None eq
      by (auto simp: Let_def)
    have len: "length bs = cnt" using wf out(2) by (simp add: cnt_def)
    have le: "cnt \<le> nat (rio_cnt rp1)" "cnt \<le> n" "0 < cnt" using pos n by (simp_all add: cnt_def)
    have "nat (rio_cnt rp1 - int cnt) = nat (rio_cnt rp1) - cnt" by arith
    then have "buffered rp1 = bs @ buffered (fst s')"
      using take_drop_buffer [OF le(1), of "drop (rio_bufptr rp1) (rio_buf rp1)"] out
      by (simp add: buffered_def add.commute)
    moreover have "rio_ok s'" using wf cl out le(1) pos by (simp add: rio_ok_def rio_wf_def)
    ultimately show ?thesis
      using R s out len le by (auto simp: remaining_def)
  qed
qed

section \<open>Lines\<close>

text \<open>The first line of a sequence of bytes, newline included, cut after \<open>m\<close> bytes.\<close>

fun line_upto :: "nat \<Rightarrow> string \<Rightarrow> string" where
  "line_upto 0 s = []"
| "line_upto (Suc m) [] = []"
| "line_upto (Suc m) (c # cs) = (if c = newline then [c] else c # line_upto m cs)"

lemma line_upto_length: "length (line_upto m s) \<le> m"
  by (induction m s rule: line_upto.induct) auto

lemma line_upto_line:
  "newline \<notin> set l \<Longrightarrow> length l < m \<Longrightarrow> line_upto m (l @ newline # rest) = l @ [newline]"
proof (induction l arbitrary: m)
  case Nil
  then show ?case by (cases m) auto
next
  case (Cons c l)
  then show ?case by (cases m) auto
qed

lemma line_upto_cut: "newline \<notin> set l \<Longrightarrow> length l = m \<Longrightarrow> line_upto m (l @ rest) = l"
  by (induction l arbitrary: m) auto

lemma rio_read_byte:
  assumes "rio_ok (rp, inp)" "remaining (rp, inp) = c # cs"
  obtains rp' inp' where "rio_read 1 rp inp = (1, [c], rp', inp')" "rio_ok (rp', inp')"
    "remaining (rp', inp') = cs"
proof -
  obtain s' where f: "fetch_rio 1 (rp, inp) = (1, [c], s')" "rio_ok s'" "remaining s' = cs"
    using assms by (rule br.fetch_byte)
  obtain rp' inp' where "s' = (rp', inp')" by fastforce
  with f that show thesis by (simp add: fetch_rio_def split: prod.splits)
qed

lemma rio_read_end:
  assumes "rio_ok (rp, inp)" "remaining (rp, inp) = []"
  obtains rp' inp' where "rio_read 1 rp inp = (0, [], rp', inp')" "rio_ok (rp', inp')"
    "remaining (rp', inp') = []"
proof -
  obtain s' where f: "fetch_rio 1 (rp, inp) = (0, [], s')" "rio_ok s'" "remaining s' = []"
    using assms by (rule br.fetch_end)
  obtain rp' inp' where "s' = (rp', inp')" by fastforce
  with f that show thesis by (simp add: fetch_rio_def split: prod.splits)
qed

lemma readline_loop_line:
  assumes "rio_ok (rp, inp)" "1 \<le> n" "n + int m = maxlen"
  shows "\<exists>rp' inp'. readline_loop maxlen n stored rp inp =
      (n - 1 + int (length (line_upto m (remaining (rp, inp)))),
       stored @ line_upto m (remaining (rp, inp)) @
         (if n = 1 \<and> 0 < m \<and> remaining (rp, inp) = [] then [] else [nul]), rp', inp') \<and>
    rio_ok (rp', inp') \<and> remaining (rp, inp) = line_upto m (remaining (rp, inp)) @ remaining (rp', inp')"
  using assms
proof (induction m arbitrary: n stored rp inp)
  case 0
  then show ?case by (subst readline_loop.simps) auto
next
  case (Suc m)
  have less: "n < maxlen" using Suc.prems by simp
  show ?case
  proof (cases "remaining (rp, inp)")
    case Nil
    from rio_read_end [OF Suc.prems(1) Nil] obtain rp' inp' where
      "rio_read 1 rp inp = (0, [], rp', inp')" "rio_ok (rp', inp')" "remaining (rp', inp') = []" .
    with Nil less show ?thesis by (subst readline_loop.simps) auto
  next
    case (Cons c cs)
    from rio_read_byte [OF Suc.prems(1) Cons] obtain rp' inp' where
      r: "rio_read 1 rp inp = (1, [c], rp', inp')" "rio_ok (rp', inp')" "remaining (rp', inp') = cs" .
    show ?thesis
    proof (cases "c = newline")
      case True
      with r less Cons show ?thesis by (subst readline_loop.simps) auto
    next
      case False
      have "1 \<le> n + 1" "n + 1 + int m = maxlen" using Suc.prems by simp_all
      from Suc.IH [OF r(2) this, of "stored @ [c]"] False r less Cons Suc.prems(2) show ?thesis
        by (subst readline_loop.simps) (auto simp: algebra_simps)
    qed
  qed
qed

text \<open>\<open>rio_readlineb\<close> on a stream without errors.\<close>

lemma rio_readlineb_line:
  assumes "rio_ok (rp, inp)" "0 < m" "Suc m < 2147483648"
  shows "\<exists>rp' inp'. rio_readlineb (Suc m) rp inp =
      (int (length (line_upto m (remaining (rp, inp)))),
       line_upto m (remaining (rp, inp)) @ (if remaining (rp, inp) = [] then [] else [nul]), rp', inp') \<and>
    rio_ok (rp', inp') \<and> remaining (rp, inp) = line_upto m (remaining (rp, inp)) @ remaining (rp', inp')"
  using readline_loop_line [OF assms(1), of 1 m "int (Suc m)" "[]"] assms(2,3)
  by (simp add: rio_readlineb_def)

section \<open>Counted reads and writes\<close>

lemma readnb_loop_bytes:
  assumes "rio_ok (rp, inp)" "nleft \<le> n" "n < 2147483648"
  shows "\<exists>rp' inp'. readnb_loop n nleft stored rp inp =
      (int (n - nleft + length (take nleft (remaining (rp, inp)))),
       stored @ take nleft (remaining (rp, inp)), rp', inp') \<and>
    rio_ok (rp', inp') \<and> remaining (rp', inp') = drop nleft (remaining (rp, inp))"
  using assms
proof (induction nleft arbitrary: stored rp inp rule: less_induct)
  case (less nleft)
  show ?case
  proof (cases "nleft = 0")
    case True
    with less.prems show ?thesis by (subst readnb_loop.simps) simp
  next
    case False
    obtain rc bs rp1 inp1 where r: "rio_read nleft rp inp = (rc, bs, rp1, inp1)"
      by (metis prod_cases4)
    then have "fetch_rio nleft (rp, inp) = (rc, bs, (rp1, inp1))" by (simp add: fetch_rio_def)
    from br.fetch_ok [OF less.prems(1) _ _ this] False less.prems(2,3)
    have F: "rio_ok (rp1, inp1)" "remaining (rp, inp) = bs @ remaining (rp1, inp1)"
      "rc = int (length bs)" "length bs \<le> nleft" "bs = [] \<longrightarrow> remaining (rp, inp) = []"
      by auto
    show ?thesis
    proof (cases "bs = []")
      case True
      with False r F show ?thesis by (subst readnb_loop.simps) auto
    next
      case ne: False
      then have "nleft - length bs < nleft" "nleft - length bs \<le> n"
        using False less.prems(2) F(4) by (cases bs, simp_all)
      from less.IH [OF this(1) F(1) this(2) less.prems(3), of "stored @ bs"] ne False r F less.prems(2)
      show ?thesis by (subst readnb_loop.simps) (auto simp: min_def)
    qed
  qed
qed

lemma readn_loop_bytes:
  assumes "clean inp" "nleft \<le> n"
  shows "\<exists>inp'. readn_loop n nleft stored inp =
      (int (n - nleft + length (take nleft (stream_of inp))), stored @ take nleft (stream_of inp), inp') \<and>
    clean inp' \<and> stream_of inp' = drop nleft (stream_of inp)"
  using assms
proof (induction n nleft stored inp rule: readn_loop.induct)
  case (1 n nleft stored inp)
  show ?case
  proof (cases "nleft = 0")
    case True
    with "1.prems" show ?thesis by (subst readn_loop.simps) simp
  next
    case False
    obtain x inp1 where sys: "sys_read nleft inp = (x, inp1)" by fastforce
    have pos: "0 < nleft" using False by simp
    note k = sys_read_clean [OF "1.prems"(1) sys pos]
    show ?thesis
    proof (cases x)
      case Got_error
      with k show ?thesis by simp
    next
      case Got_eintr
      with k "1.IH"(2) [OF pos sys [symmetric] Got_eintr] "1.prems"(2) sys pos show ?thesis
        by (subst readn_loop.simps) simp
    next
      case (Got bs)
      show ?thesis
      proof (cases "bs = []")
        case True
        with Got k sys pos show ?thesis by (subst readn_loop.simps) (simp add: clean_def)
      next
        case ne: False
        have "nleft - length bs \<le> n" using "1.prems"(2) by simp
        from "1.IH"(1) [OF pos sys [symmetric] Got ne _ this] k Got "1.prems"(2) ne sys pos show ?thesis
          by (subst readn_loop.simps) (auto simp: min_def add.assoc)
      qed
    qed
  qed
qed

lemma writen_loop_sent:
  assumes "writen_loop bufp n sent out = (rc, sent', out')"
  shows "\<exists>k. sent' = sent @ take k bufp \<and> (rc = int n \<and> sent' = sent @ bufp \<or> rc = -1)"
  using assms
proof (induction bufp n sent out rule: writen_loop.induct)
  case (1 bufp n sent out)
  show ?case
  proof (cases "bufp = []")
    case True
    with "1.prems" show ?thesis by (subst (asm) writen_loop.simps) auto
  next
    case False
    show ?thesis
    proof (cases out)
      case Nil
      with False "1.prems" have "writen_loop [] n (sent @ bufp) [] = (rc, sent', out')"
        by (simp add: writen_loop.simps [of bufp])
      then show ?thesis
        by (subst (asm) writen_loop.simps) (auto intro: exI [of _ "length bufp"])
    next
      case (Cons e es)
      show ?thesis
      proof (cases e)
        case (Accept k)
        show ?thesis
        proof (cases "k = 0")
          case True
          with False Cons Accept "1.prems" show ?thesis
            by (subst (asm) writen_loop.simps) (auto intro: exI [of _ 0])
        next
          case k: False
          with False Cons Accept "1.prems"
          have "writen_loop (drop k bufp) n (sent @ take k bufp) es = (rc, sent', out')"
            by (simp add: writen_loop.simps [of bufp])
          from "1.IH"(2) [OF False Cons Accept k this] show ?thesis
            by (auto simp: take_add [symmetric])
        qed
      next
        case Write_interrupted
        with False Cons "1.prems" "1.IH"(3) [OF False Cons Write_interrupted] show ?thesis
          by (simp add: writen_loop.simps [of bufp])
      next
        case Write_error
        with False Cons "1.prems" show ?thesis
          by (subst (asm) writen_loop.simps) (auto intro: exI [of _ 0])
      qed
    qed
  qed
qed

lemma writen_loop_complete:
  assumes "Write_error \<notin> set out" "Accept 0 \<notin> set out"
  shows "\<exists>out'. writen_loop bufp n sent out = (int n, sent @ bufp, out')"
  using assms
proof (induction bufp n sent out rule: writen_loop.induct)
  case (1 bufp n sent out)
  show ?case
  proof (cases "bufp = []")
    case True
    then show ?thesis by (subst writen_loop.simps) simp
  next
    case False
    show ?thesis
    proof (cases out)
      case Nil
      with 1 False show ?thesis by (simp add: writen_loop.simps)
    next
      case (Cons e es)
      with 1 False show ?thesis
        by (cases e) (auto simp: writen_loop.simps [of bufp])
    qed
  qed
qed

section \<open>Properties of the robust I/O package\<close>

text \<open>
  C4. \<open>rio_readlineb\<close> reads lines: on a descriptor whose bytes still to come
  start with a line of fewer than \<open>maxlen\<close> bytes, it returns the length of that
  line with its newline, stores exactly the line and a NUL, and leaves exactly the
  bytes after it to be read next; how the kernel cuts the stream into chunks and how
  often it is interrupted make no difference.
\<close>

theorem rio_readlineb_reads_line:
  assumes "rio_ok (rp, inp)" "remaining (rp, inp) = l @ newline # rest" "newline \<notin> set l"
    and "length l + 2 \<le> maxlen" "maxlen < 2147483648"
  shows "\<exists>rp' inp'. rio_readlineb maxlen rp inp =
      (int (length l) + 1, l @ [newline, nul], rp', inp') \<and>
      rio_ok (rp', inp') \<and> remaining (rp', inp') = rest"
proof -
  obtain m where m: "maxlen = Suc m" using assms(4) by (cases maxlen) auto
  have "line_upto m (l @ newline # rest) = l @ [newline]"
    using assms(3,4) m by (intro line_upto_line) simp_all
  with rio_readlineb_line [OF assms(1), of m] assms m show ?thesis by auto
qed

definition example_rio :: rio_t where
  "example_rio = rio_readinitb 4 \<lparr>rio_fd = 0, rio_cnt = 7, rio_bufptr = 3, rio_buf = ''xyz''\<rparr>"

definition example_chunks :: "read_event list" where
  "example_chunks = [Bytes ''TO'', Interrupted, Bytes (''P'' @ [newline] @ ''BY''), Bytes (''E'' @ [newline])]"

theorem rio_readlineb_reads_line_witness:
  "\<exists>rp' inp'. rio_readlineb 1024 example_rio example_chunks =
      (int (length ''TOP'') + 1, ''TOP'' @ [newline, nul], rp', inp') \<and>
      rio_ok (rp', inp') \<and> remaining (rp', inp') = ''BYE'' @ [newline]"
proof (rule rio_readlineb_reads_line)
  show "rio_ok (example_rio, example_chunks)" by code_simp
  show "remaining (example_rio, example_chunks) = ''TOP'' @ newline # ''BYE'' @ [newline]" by code_simp
qed simp_all

text \<open>
  The counted reads \<open>rio_readn\<close> and \<open>rio_readnb\<close> deliver the
  next \<open>n\<close> bytes of the stream, or all of them when fewer are left, return how
  many that is, and leave the rest to be read; short reads and interruptions are
  hidden.
\<close>

theorem rio_counted_reads:
  assumes "rio_ok (rp, inp)" "n < 2147483648"
  shows "(\<exists>rp' inp'. rio_readnb n rp inp =
            (int (min n (length (remaining (rp, inp)))), take n (remaining (rp, inp)), rp', inp') \<and>
            rio_ok (rp', inp') \<and> remaining (rp', inp') = drop n (remaining (rp, inp))) \<and>
         (\<exists>inp'. rio_readn n inp =
            (int (min n (length (stream_of inp))), take n (stream_of inp), inp') \<and>
            stream_of inp' = drop n (stream_of inp))"
proof
  show "\<exists>rp' inp'. rio_readnb n rp inp =
      (int (min n (length (remaining (rp, inp)))), take n (remaining (rp, inp)), rp', inp') \<and>
      rio_ok (rp', inp') \<and> remaining (rp', inp') = drop n (remaining (rp, inp))"
    using readnb_loop_bytes [OF assms(1) order.refl assms(2), of "[]"]
    by (simp add: rio_readnb_def min.commute)
  show "\<exists>inp'. rio_readn n inp =
      (int (min n (length (stream_of inp))), take n (stream_of inp), inp') \<and>
      stream_of inp' = drop n (stream_of inp)"
    using readn_loop_bytes [of inp n n "[]"] assms(1)
    by (auto simp: rio_readn_def rio_ok_def min.commute)
qed

theorem rio_counted_reads_witness:
  "\<exists>inp'. rio_readn 6 example_chunks =
      (int (min 6 (length (stream_of example_chunks))), take 6 (stream_of example_chunks), inp') \<and>
      stream_of inp' = drop 6 (stream_of example_chunks)"
proof -
  have "rio_ok (example_rio, example_chunks)" by code_simp
  moreover have "(6 :: nat) < 2147483648" by simp
  ultimately show ?thesis using rio_counted_reads by blast
qed

text \<open>
  C31. \<open>rio_writen\<close> is all or an error: it returns the number of bytes asked for
  only when every byte was handed to the kernel, in order and once; otherwise it
  returns -1 and only a prefix was. It returns the full count whenever the kernel
  reports no error, however it splits or interrupts the writes.
\<close>

theorem rio_writen_spec:
  "(\<exists>k. fst (snd (rio_writen buf out)) = take k buf) \<and>
   (fst (rio_writen buf out) = int (length buf) \<and> fst (snd (rio_writen buf out)) = buf \<or>
    fst (rio_writen buf out) = -1) \<and>
   (Write_error \<notin> set out \<and> Accept 0 \<notin> set out \<longrightarrow> fst (rio_writen buf out) = int (length buf))"
proof -
  obtain rc sent out' where w: "writen_loop buf (length buf) [] out = (rc, sent, out')"
    by (metis prod_cases3)
  from writen_loop_sent [OF w] writen_loop_complete [of out buf "length buf" "[]"] w
  show ?thesis by (auto simp: rio_writen_def)
qed

theorem rio_writen_spec_witness:
  "fst (rio_writen ''OK'' [Accept 1, Write_interrupted, Accept 5]) = int (length ''OK'')"
  using rio_writen_spec [of "''OK''" "[Accept 1, Write_interrupted, Accept 5]"] by simp

end
