(* ===== verification/Client_Connection.thy ===== *)
theory Client_Connection
  imports Message_Serialization Value_Stack Server Rio
begin

text \<open>
  The class \<open>ClientConnection\<close> of \<open>client_connection.h\<close> and
  \<open>client_connection.cpp\<close>: the thread that serves one client. A handler is a
  command over the pair of the shared \<open>Server\<close> and this thread's connection;
  every message written with \<open>rio_writen\<close> is appended to \<open>written\<close>.

  The record holds the members of the class, the two local variables of
  \<open>chat_with_client\<close>, the identity of the thread (which owns the mutexes it
  locks), the kernel's side of the socket, and what was written to it.
  \<open>unordered_set<Table*>\<close> is a list without repetition, in the order of insertion; the library may release
  the tables in another order.
\<close>

section \<open>State\<close>

record ClientConnection =
  me :: thread_id
  m_client_fd :: int
  m_fdbuf :: rio_t
  stack :: ValueStack
  locked_tables :: "table_ptr list"
  in_transaction :: bool
  loop_in_progress :: bool
  first_valid_message :: bool
  client_msg :: Message
  incoming :: "read_event list"
  written :: "string list"
  fd_closed :: bool

type_synonym world = "Server \<times> ClientConnection"

definition ClientConnection_new ::
  "thread_id \<Rightarrow> int \<Rightarrow> rio_t \<Rightarrow> read_event list \<Rightarrow> ClientConnection" where
  "ClientConnection_new thread client_fd garbage inp =
     \<lparr>me = thread, m_client_fd = client_fd, m_fdbuf = rio_readinitb client_fd garbage,
      stack = ValueStack_new, locked_tables = [], in_transaction = False, loop_in_progress = True,
      first_valid_message = True, client_msg = Message_default, incoming = inp, written = [],
      fd_closed = False\<rparr>"

definition get_m_client_fd :: "ClientConnection \<Rightarrow> int" where
  "get_m_client_fd c = m_client_fd c"

section \<open>Access to the two halves of the state\<close>

definition on_server :: "(thread_id \<Rightarrow> (Server, 'a) xcmd) \<Rightarrow> (world, 'a) xcmd" where
  "on_server m = (\<lambda>(srv, c). case m (me c) srv of (r, srv') \<Rightarrow> (r, (srv', c)))"

definition ask :: "(ClientConnection \<Rightarrow> 'a) \<Rightarrow> (world, 'a) xcmd" where
  "ask f = gets (\<lambda>(srv, c). f c)"

definition change :: "(ClientConnection \<Rightarrow> ClientConnection) \<Rightarrow> (world, unit) xcmd" where
  "change f = modify (\<lambda>(srv, c). (srv, f c))"

definition stack_get_top :: "(world, string) xcmd" where
  "stack_get_top = bind_cmd (ask (\<lambda>c. get_top (stack c))) lift_res"

definition stack_pop :: "(world, unit) xcmd" where
  "stack_pop = update_cmd (\<lambda>(srv, c). bind_res (pop (stack c)) (\<lambda>s. Ret (srv, c\<lparr>stack := s\<rparr>)))"

definition stack_push :: "string \<Rightarrow> (world, unit) xcmd" where
  "stack_push v = change (\<lambda>c. c\<lparr>stack := push v (stack c)\<rparr>)"

definition table_cmd :: "table_ptr \<Rightarrow> (thread_id \<Rightarrow> (Table, 'a) xcmd) \<Rightarrow> (world, 'a) xcmd" where
  "table_cmd p f = on_server (\<lambda>thread. on_table p (f thread))"

definition lock_table :: "table_ptr \<Rightarrow> (world, unit) xcmd" where
  "lock_table p = table_cmd p (\<lambda>thread. update_cmd (table_lock thread))"

definition unlock_table :: "table_ptr \<Rightarrow> (world, unit) xcmd" where
  "unlock_table p = table_cmd p (\<lambda>thread. update_cmd (table_unlock thread))"

definition trylock_table :: "table_ptr \<Rightarrow> (world, bool) xcmd" where
  "trylock_table p = table_cmd p (\<lambda>thread t. case table_trylock thread t of (ok, t') \<Rightarrow> (Ret ok, t'))"

definition modify_table :: "table_ptr \<Rightarrow> (Table \<Rightarrow> Table) \<Rightarrow> (world, unit) xcmd" where
  "modify_table p f = table_cmd p (\<lambda>_. modify f)"

section \<open>Replies and exceptions\<close>

definition rio_write :: "string \<Rightarrow> (world, unit) xcmd" where
  "rio_write line = change (\<lambda>c. c\<lparr>written := written c @ [line]\<rparr>)"

definition send :: "Message \<Rightarrow> (world, unit) xcmd" where
  "send msg = bind_cmd (lift_res (encode msg)) rio_write"

definition write_ok :: "(world, unit) xcmd" where
  "write_ok = send (Message_new OK [])"

definition fail_transaction :: "(world, unit) xcmd" where
  "fail_transaction =
     seq_cmd
       (bind_cmd (ask locked_tables)
         (for_each (\<lambda>p. seq_cmd (modify_table p rollback_changes) (unlock_table p))))
       (seq_cmd (change (\<lambda>c. c\<lparr>locked_tables := []\<rparr>)) (change (\<lambda>c. c\<lparr>in_transaction := False\<rparr>)))"

definition manage_exception :: "exn \<Rightarrow> bool \<Rightarrow> (world, unit) xcmd" where
  "manage_exception ex recoverable =
     seq_cmd (bind_cmd (ask in_transaction) (\<lambda>b. if b then fail_transaction else ret ()))
       (let response_type = (if recoverable then FAILED else ERROR)
        in send (Message_new response_type [what ex]))"

definition rethrow_operation :: "(world, 'a) xcmd \<Rightarrow> (world, 'a) xcmd" where
  "rethrow_operation m =
     try_catch m (\<lambda>ex. if is_OperationException ex then Some (throw (OperationException (what ex))) else None)"

section \<open>Request handlers\<close>

definition handle_create :: "Message \<Rightarrow> (world, unit) xcmd" where
  "handle_create msg =
     seq_cmd (on_server server_lock)
    (bind_cmd (lift_res (get_arg msg 0)) (\<lambda>table_name.
     bind_cmd (on_server (\<lambda>_. gets (find_table table_name))) (\<lambda>found.
     if found \<noteq> None
     then seq_cmd (on_server server_unlock)
            (throw (OperationException ''A table with this name already exists.''))
     else seq_cmd (on_server (\<lambda>_. create_table table_name))
            (seq_cmd write_ok (on_server server_unlock)))))"

text \<open>
  The argument of \<open>handle_login\<close> is a pointer to the caller's flag: \<open>None\<close>
  for a null pointer, else the flag behind it. The result is the flag's new value.
\<close>

definition handle_login :: "bool option \<Rightarrow> (world, bool) xcmd" where
  "handle_login first_valid_message_ptr =
     (case first_valid_message_ptr of
        None \<Rightarrow> throw (OperationException ''You are already logged in.'')
      | Some flag \<Rightarrow> seq_cmd write_ok (ret False))"

definition handle_begin :: "(world, unit) xcmd" where
  "handle_begin =
     bind_cmd (ask in_transaction) (\<lambda>b.
     if b then throw (FailedTransaction ''Nested transactions are not supported.'')
     else seq_cmd (change (\<lambda>c. c\<lparr>in_transaction := True\<rparr>)) write_ok)"

definition handle_commit :: "(world, unit) xcmd" where
  "handle_commit =
     bind_cmd (ask in_transaction) (\<lambda>b.
     if \<not> b then throw (FailedTransaction ''Transaction is not ongoing.'')
     else
       seq_cmd
         (bind_cmd (ask locked_tables)
           (for_each (\<lambda>p. seq_cmd (modify_table p commit_changes) (unlock_table p))))
      (seq_cmd (change (\<lambda>c. c\<lparr>locked_tables := []\<rparr>))
      (seq_cmd (change (\<lambda>c. c\<lparr>in_transaction := False\<rparr>))
       write_ok)))"

definition handle_pop :: "(world, unit) xcmd" where
  "handle_pop = seq_cmd (rethrow_operation stack_pop) write_ok"

definition handle_top :: "(world, unit) xcmd" where
  "handle_top =
     bind_cmd (rethrow_operation stack_get_top) (\<lambda>top_value.
     send (push_arg top_value (Message_new DATA [])))"

text \<open>
  The four arithmetic handlers share the text that reads the two operands: the right
  operand is popped before the left one is read, and is pushed back, printed anew, when
  the left one is not a number. Only \<open>std::invalid_argument\<close> is caught.
\<close>

definition conversion_error :: exn where
  "conversion_error = OperationException ''Value on stack could not be converted to an integer.''"

definition pop_operand :: "(world, int) xcmd" where
  "pop_operand =
     bind_cmd stack_get_top (\<lambda>v.
     bind_cmd (lift_res (stoi v)) (\<lambda>i.
     seq_cmd stack_pop (ret i)))"

definition pop_operands :: "string \<Rightarrow> (world, int \<times> int) xcmd" where
  "pop_operands not_enough =
     bind_cmd (ask (\<lambda>c. get_size (stack c))) (\<lambda>size.
     if size < 2 then throw (OperationException not_enough)
     else
       bind_cmd
         (try_catch pop_operand
           (\<lambda>ex. if is_Invalid_argument ex then Some (throw conversion_error) else None))
         (\<lambda>right_operand.
       bind_cmd
         (try_catch pop_operand
           (\<lambda>ex. if is_Invalid_argument ex
                 then Some (seq_cmd (stack_push (to_string right_operand)) (throw conversion_error))
                 else None))
         (\<lambda>left_operand. ret (left_operand, right_operand))))"

definition handle_add :: "(world, unit) xcmd" where
  "handle_add =
     bind_cmd (pop_operands ''There are not enough operands to add with.'') (\<lambda>(left, right).
     bind_cmd (lift_res (int_result (left + right))) (\<lambda>r.
     seq_cmd (stack_push (to_string r)) write_ok))"

definition handle_sub :: "(world, unit) xcmd" where
  "handle_sub =
     bind_cmd (pop_operands ''There are not enough operands to subtract with.'') (\<lambda>(left, right).
     bind_cmd (lift_res (int_result (left - right))) (\<lambda>r.
     seq_cmd (stack_push (to_string r)) write_ok))"

definition handle_mul :: "(world, unit) xcmd" where
  "handle_mul =
     bind_cmd (pop_operands ''There are not enough operands to multiply with.'') (\<lambda>(left, right).
     bind_cmd (lift_res (int_result (left * right))) (\<lambda>r.
     seq_cmd (stack_push (to_string r)) write_ok))"

definition handle_div :: "(world, unit) xcmd" where
  "handle_div =
     bind_cmd (pop_operands ''There are not enough operands to divide with.'') (\<lambda>(left, right).
     bind_cmd (lift_res (cxx_div left right)) (\<lambda>r.
     seq_cmd (stack_push (to_string r)) write_ok))"

definition handle_bye :: "(world, unit) xcmd" where
  "handle_bye = seq_cmd (change (\<lambda>c. c\<lparr>loop_in_progress := False\<rparr>)) write_ok"

definition handle_push :: "Message \<Rightarrow> (world, unit) xcmd" where
  "handle_push msg = bind_cmd (lift_res (get_arg msg 0)) (\<lambda>v. seq_cmd (stack_push v) write_ok)"

definition set_table_value :: "Message \<Rightarrow> table_ptr \<Rightarrow> (world, unit) xcmd" where
  "set_table_value msg table_obj =
     bind_cmd (lift_res (get_arg msg 1)) (\<lambda>key.
     bind_cmd stack_get_top (\<lambda>v.
     seq_cmd (modify_table table_obj (table_set key v)) stack_pop))"

text \<open>In a transaction a table not yet locked by this thread is locked, or the transaction fails.\<close>

definition acquire_in_transaction :: "table_ptr \<Rightarrow> (world, unit) xcmd" where
  "acquire_in_transaction table_obj =
     bind_cmd (ask locked_tables) (\<lambda>held.
     if table_obj \<notin> set held
     then bind_cmd (trylock_table table_obj) (\<lambda>lock_successful.
            if \<not> lock_successful then throw (FailedTransaction ''Could not gain access to table.'')
            else change (\<lambda>c. c\<lparr>locked_tables := locked_tables c @ [table_obj]\<rparr>))
     else ret ())"

definition handle_set :: "Message \<Rightarrow> (world, unit) xcmd" where
  "handle_set msg =
     bind_cmd (ask (\<lambda>c. get_size (stack c))) (\<lambda>size.
     if size < 1 then throw (OperationException ''No value on stack.'')
     else
     bind_cmd (lift_res (get_arg msg 0)) (\<lambda>table_name.
     bind_cmd (on_server (\<lambda>_. gets (find_table table_name))) (\<lambda>found.
     case found of
       None \<Rightarrow> throw (OperationException ''Could not find table.'')
     | Some table_obj \<Rightarrow>
         bind_cmd (ask in_transaction) (\<lambda>b.
         seq_cmd
           (if \<not> b
            then seq_cmd (lock_table table_obj)
                (seq_cmd (set_table_value msg table_obj)
                (seq_cmd (modify_table table_obj commit_changes)
                 (unlock_table table_obj)))
            else seq_cmd (acquire_in_transaction table_obj)
                 (set_table_value msg table_obj))
           write_ok))))"

definition get_table_value :: "Message \<Rightarrow> table_ptr \<Rightarrow> (world, unit) xcmd" where
  "get_table_value msg table_obj =
     bind_cmd (lift_res (get_arg msg 1)) (\<lambda>key.
     bind_cmd (table_cmd table_obj (\<lambda>_. gets (has_key key))) (\<lambda>present.
     if \<not> present
     then seq_cmd (unlock_table table_obj)
            (throw (OperationException ''Could not find key in specified table.''))
     else bind_cmd (table_cmd table_obj (\<lambda>_. gets (table_get key))) (\<lambda>v.
          bind_cmd (lift_res v) stack_push)))"

definition handle_get :: "Message \<Rightarrow> (world, unit) xcmd" where
  "handle_get msg =
     bind_cmd (lift_res (get_arg msg 0)) (\<lambda>table_name.
     bind_cmd (on_server (\<lambda>_. gets (find_table table_name))) (\<lambda>found.
     case found of
       None \<Rightarrow> throw (OperationException ''Could not find table.'')
     | Some table_obj \<Rightarrow>
         bind_cmd (ask in_transaction) (\<lambda>b.
         seq_cmd
           (if \<not> b
            then seq_cmd (lock_table table_obj)
                (seq_cmd
                  (try_catch (get_table_value msg table_obj)
                    (\<lambda>ex. if is_OperationException ex
                          then Some (seq_cmd (unlock_table table_obj)
                                 (throw (OperationException (what ex))))
                          else None))
                 (unlock_table table_obj))
            else seq_cmd (acquire_in_transaction table_obj)
                 (rethrow_operation (get_table_value msg table_obj)))
           write_ok)))"

section \<open>Dispatch and the connection's loop\<close>

definition dispatch :: "Message \<Rightarrow> (world, unit) xcmd" where
  "dispatch msg =
     (case get_message_type msg of
        CREATE \<Rightarrow> handle_create msg
      | BEGIN \<Rightarrow> handle_begin
      | COMMIT \<Rightarrow> handle_commit
      | POP \<Rightarrow> handle_pop
      | TOP \<Rightarrow> handle_top
      | ADD \<Rightarrow> handle_add
      | SUB \<Rightarrow> handle_sub
      | MUL \<Rightarrow> handle_mul
      | DIV \<Rightarrow> handle_div
      | BYE \<Rightarrow> handle_bye
      | PUSH \<Rightarrow> handle_push msg
      | SET \<Rightarrow> handle_set msg
      | GET \<Rightarrow> handle_get msg
      | _ \<Rightarrow> throw (OperationException ''Please only enter standardized requests.''))"

definition call_response_function :: "Message \<Rightarrow> (world, unit) xcmd" where
  "call_response_function msg =
     try_catch (dispatch msg)
       (\<lambda>ex. if is_InvalidMessage ex
             then Some (seq_cmd (change (\<lambda>c. c\<lparr>loop_in_progress := False\<rparr>)) (manage_exception ex False))
             else if is_runtime_error ex then Some (manage_exception ex True)
             else None)"

text \<open>\<open>rio_readlineb(&m_fdbuf, buf, sizeof(m_fdbuf))\<close> with \<open>char buf[MAX_ENCODED_LEN]\<close>.\<close>

definition read_request :: "(world, int \<times> string) xcmd" where
  "read_request = (\<lambda>(srv, c).
     case rio_readlineb sizeof_rio_t (m_fdbuf c) (incoming c) of (n, buf, fdbuf, inp) \<Rightarrow>
       (if MAX_ENCODED_LEN < length buf then Fault Buffer_overrun else Ret (n, buf),
        (srv, c\<lparr>m_fdbuf := fdbuf, incoming := inp\<rparr>)))"

definition decode_request :: "string \<Rightarrow> (world, unit) xcmd" where
  "decode_request buf = (\<lambda>(srv, c).
     case decode (c_str buf) (client_msg c) of (r, msg) \<Rightarrow> (r, (srv, c\<lparr>client_msg := msg\<rparr>)))"

text \<open>What the loop does with a request that was decoded.\<close>

definition serve_request :: "(world, unit) xcmd" where
  "serve_request =
     bind_cmd (ask client_msg) (\<lambda>msg.
     bind_cmd (ask first_valid_message) (\<lambda>first.
     if get_message_type msg = LOGIN
     then try_catch
            (bind_cmd (handle_login (Some first)) (\<lambda>flag.
             change (\<lambda>c. c\<lparr>first_valid_message := flag\<rparr>)))
            (\<lambda>ex. if is_OperationException ex then Some (manage_exception ex True) else None)
     else if first
     then seq_cmd (send (Message_new ERROR [''Please log in first.'']))
            (change (\<lambda>c. c\<lparr>loop_in_progress := False\<rparr>))
     else call_response_function (Message_copy msg)))"

text \<open>
  The outcome of a decode that raised is handled in the loop; a decode that succeeded is
  followed by the request.
\<close>

definition handle_line :: "string \<Rightarrow> (world, unit) xcmd" where
  "handle_line buf =
     bind_cmd
       (try_catch (seq_cmd (decode_request buf) (ret True))
         (\<lambda>ex. if is_InvalidMessage ex
               then Some (seq_cmd (manage_exception ex False) (ret False)) else None))
       (\<lambda>decoded. if decoded then serve_request else ret ())"

definition chat_iteration :: "(world, unit) xcmd" where
  "chat_iteration =
     bind_cmd read_request (\<lambda>(n, buf).
     if n \<le> 0 then change (\<lambda>c. c\<lparr>loop_in_progress := False\<rparr>) else handle_line buf)"

text \<open>
  The loop, for at most \<open>fuel\<close> iterations; \<open>None\<close> when they were not
  enough.
\<close>

primrec chat_loop :: "nat \<Rightarrow> world \<Rightarrow> (unit res \<times> world) option" where
  "chat_loop 0 w = None"
| "chat_loop (Suc fuel) w =
     (if loop_in_progress (snd w)
      then case chat_iteration w of
             (Ret u, w') \<Rightarrow> chat_loop fuel w'
           | (r, w') \<Rightarrow> Some (r, w')
      else Some (Ret (), w))"

definition close_fd :: "(world, unit) xcmd" where
  "close_fd = change (\<lambda>c. c\<lparr>fd_closed := True\<rparr>)"

definition chat_with_client :: "nat \<Rightarrow> world \<Rightarrow> (unit res \<times> world) option" where
  "chat_with_client fuel w = map_option (\<lambda>r. continue_with r (\<lambda>_. close_fd)) (chat_loop fuel w)"

definition ClientConnection_destroy :: "(world, unit) xcmd" where
  "ClientConnection_destroy = bind_cmd (ask in_transaction) (\<lambda>b. if b then fail_transaction else ret ())"

text \<open>
  \<open>Server::client_worker\<close>: the \<open>unique_ptr\<close> destroys the connection when
  \<open>chat_with_client\<close> returns. An exception that leaves it ends the process
  (\<open>std::terminate\<close>).
\<close>

definition client_worker :: "nat \<Rightarrow> world \<Rightarrow> (unit res \<times> world) option" where
  "client_worker fuel w =
     map_option (\<lambda>r. continue_with r (\<lambda>_. ClientConnection_destroy)) (chat_with_client fuel w)"

end
