(* ===== verification/Request_Handlers.thy ===== *)
theory Request_Handlers
  imports Client_Connection
begin

text \<open>
  What each request handler of \<open>client_connection.cpp\<close> does, on every branch. A
  connection is in order (\<open>conn_ok\<close>) when the tables it believes to have locked
  are exactly those whose mutex its thread owns, and it holds none outside a
  transaction. From such a state each handler's result is given in closed form; the
  properties rest on these forms.
\<close>

section \<open>Running the primitive commands\<close>

lemma ask_run [run_simps]: "ask f (srv, c) = (Ret (f c), (srv, c))"
  by (simp add: ask_def run_simps)

lemma change_run [run_simps]: "change f (srv, c) = (Ret (), (srv, f c))"
  by (simp add: change_def run_simps)

lemma on_server_run [run_simps]:
  "on_server m (srv, c) = (case m (me c) srv of (r, srv') \<Rightarrow> (r, (srv', c)))"
  by (simp add: on_server_def)

lemma stack_push_run [run_simps]: "stack_push v (srv, c) = (Ret (), (srv, c\<lparr>stack := v # stack c\<rparr>))"
  by (simp add: stack_push_def run_simps push_def)

lemma stack_get_top_run [run_simps]: "stack_get_top (srv, c) = (get_top (stack c), (srv, c))"
  by (simp add: stack_get_top_def run_simps)

lemma stack_pop_run [run_simps]:
  "stack_pop (srv, c) =
     (case stack c of
        [] \<Rightarrow> (Throw (OperationException ''Tried to call POP on an empty operations stack.''), (srv, c))
      | v # vs \<Rightarrow> (Ret (), (srv, c\<lparr>stack := vs\<rparr>)))"
  by (simp add: stack_pop_def run_simps pop_def split: list.splits)

text \<open>The heap after \<open>f\<close> was applied to the table behind a pointer.\<close>

definition at_table :: "table_ptr \<Rightarrow> (Table \<Rightarrow> Table) \<Rightarrow> Server \<Rightarrow> Server" where
  "at_table p f srv = srv\<lparr>heap := (heap srv)[p := f (heap srv ! p)]\<rparr>"

lemma at_table_fields [simp]:
  "length (heap (at_table p f srv)) = length (heap srv)" "table_names (at_table p f srv) = table_names srv"
  "s_mutex (at_table p f srv) = s_mutex srv"
  "find_table name (at_table p f srv) = find_table name srv"
  by (simp_all add: at_table_def find_table_map_of)

lemma at_table_nth [simp]:
  "p < length (heap srv) \<Longrightarrow>
     heap (at_table p f srv) ! q = (if q = p then f (heap srv ! p) else heap srv ! q)"
  by (simp add: at_table_def nth_list_update)

lemma at_table_twice:
  "p < length (heap srv) \<Longrightarrow> at_table p f (at_table p g srv) = at_table p (\<lambda>t. f (g t)) srv"
  by (simp add: at_table_def)

lemma at_table_same: "p < length (heap srv) \<Longrightarrow> f (heap srv ! p) = heap srv ! p \<Longrightarrow> at_table p f srv = srv"
  by (simp add: at_table_def)

lemma table_cmd_run:
  "p < length (heap srv) \<Longrightarrow> f (me c) (heap srv ! p) = (r, t) \<Longrightarrow>
     table_cmd p f (srv, c) = (r, (at_table p (\<lambda>_. t) srv, c))"
  by (simp add: table_cmd_def run_simps on_table_run at_table_def)

lemma modify_table_run:
  "p < length (heap srv) \<Longrightarrow> modify_table p f (srv, c) = (Ret (), (at_table p f srv, c))"
  by (simp add: modify_table_def table_cmd_run run_simps) (simp add: at_table_def)

lemma read_table_run:
  "p < length (heap srv) \<Longrightarrow> table_cmd p (\<lambda>_. gets f) (srv, c) = (Ret (f (heap srv ! p)), (srv, c))"
  by (simp add: table_cmd_run run_simps at_table_same)

lemma lock_table_free:
  "p < length (heap srv) \<Longrightarrow> t_mutex (heap srv ! p) = None \<Longrightarrow>
     lock_table p (srv, c) = (Ret (), (at_table p (t_mutex_update (\<lambda>_. Some (me c))) srv, c))"
  by (simp add: lock_table_def table_cmd_run run_simps table_lock_def mutex_lock_def)
    (simp add: at_table_def)

lemma lock_table_busy:
  "p < length (heap srv) \<Longrightarrow> t_mutex (heap srv ! p) = Some u \<Longrightarrow> u \<noteq> me c \<Longrightarrow>
     lock_table p (srv, c) = (Block, (srv, c))"
  by (simp add: lock_table_def table_cmd_run run_simps table_lock_def mutex_lock_def at_table_same)

lemma unlock_table_owned:
  "p < length (heap srv) \<Longrightarrow> t_mutex (heap srv ! p) = Some (me c) \<Longrightarrow>
     unlock_table p (srv, c) = (Ret (), (at_table p (t_mutex_update (\<lambda>_. None)) srv, c))"
  by (simp add: unlock_table_def table_cmd_run run_simps table_unlock_def mutex_unlock_def)
    (simp add: at_table_def)

lemma unlock_table_not_owned:
  "p < length (heap srv) \<Longrightarrow> t_mutex (heap srv ! p) \<noteq> Some (me c) \<Longrightarrow>
     unlock_table p (srv, c) = (Fault Mutex_not_owned, (srv, c))"
  by (simp add: unlock_table_def table_cmd_run run_simps table_unlock_def mutex_unlock_def at_table_same)

lemma trylock_table_free:
  "p < length (heap srv) \<Longrightarrow> t_mutex (heap srv ! p) = None \<Longrightarrow>
     trylock_table p (srv, c) = (Ret True, (at_table p (t_mutex_update (\<lambda>_. Some (me c))) srv, c))"
  by (simp add: trylock_table_def table_cmd_run run_simps table_trylock_def mutex_trylock_def)
    (simp add: at_table_def)

lemma trylock_table_busy:
  "p < length (heap srv) \<Longrightarrow> t_mutex (heap srv ! p) = Some u \<Longrightarrow>
     trylock_table p (srv, c) = (Ret False, (srv, c))"
  by (simp add: trylock_table_def table_cmd_run run_simps table_trylock_def mutex_trylock_def at_table_same)

section \<open>Replies\<close>

definition answer :: "string \<Rightarrow> ClientConnection \<Rightarrow> ClientConnection" where
  "answer line c = c\<lparr>written := written c @ [line]\<rparr>"

abbreviation ok_line :: string where
  "ok_line \<equiv> message_line ''OK'' []"

abbreviation failed_line :: "string \<Rightarrow> string" where
  "failed_line text \<equiv> message_line ''FAILED'' [text]"

abbreviation error_line :: "string \<Rightarrow> string" where
  "error_line text \<equiv> message_line ''ERROR'' [text]"

abbreviation data_line :: "string \<Rightarrow> string" where
  "data_line v \<equiv> message_line ''DATA'' [v]"

lemma answer_fields [simp]:
  "me (answer l c) = me c" "stack (answer l c) = stack c" "locked_tables (answer l c) = locked_tables c"
  "in_transaction (answer l c) = in_transaction c" "loop_in_progress (answer l c) = loop_in_progress c"
  "written (answer l c) = written c @ [l]" "first_valid_message (answer l c) = first_valid_message c"
  "incoming (answer l c) = incoming c" "m_fdbuf (answer l c) = m_fdbuf c" "client_msg (answer l c) = client_msg c"
  by (simp_all add: answer_def)

lemma send_run:
  assumes "type_name t = Ret name" "length args < 2147483648"
    and "length (message_line name args) \<le> MAX_ENCODED_LEN"
  shows "send (Message_new t args) (srv, c) = (Ret (), (srv, answer (message_line name args) c))"
  using assms encode_small [of "Message_new t args" name]
  by (simp add: send_def run_simps rio_write_def answer_def Message_new_def)

lemma write_ok_run [run_simps]: "write_ok (srv, c) = (Ret (), (srv, answer ok_line c))"
  unfolding write_ok_def by (rule send_run) (simp_all add: message_line_def MAX_ENCODED_LEN_def)

lemma send_failed_run:
  "length text \<le> 1000 \<Longrightarrow>
     send (Message_new FAILED [text]) (srv, c) = (Ret (), (srv, answer (failed_line text) c))"
  by (rule send_run) (simp_all add: message_line_length MAX_ENCODED_LEN_def)

lemma send_error_run:
  "length text \<le> 1000 \<Longrightarrow>
     send (Message_new ERROR [text]) (srv, c) = (Ret (), (srv, answer (error_line text) c))"
  by (rule send_run) (simp_all add: message_line_length MAX_ENCODED_LEN_def)

text \<open>\<open>DATA\<close>, a space and the newline leave 1018 bytes for the value.\<close>

lemma send_data_run:
  "length v \<le> 1018 \<Longrightarrow>
     send (Message_new DATA [v]) (srv, c) = (Ret (), (srv, answer (data_line v) c))"
  by (rule send_run) (simp_all add: message_line_length MAX_ENCODED_LEN_def)

lemma send_data_too_long:
  "1018 < length v \<Longrightarrow>
     send (Message_new DATA [v]) (srv, c) = (Throw (InvalidMessage ''Message is too long.''), (srv, c))"
  using encode_small [of "Message_new DATA [v]" "''DATA''"]
  by (simp add: send_def run_simps message_line_length MAX_ENCODED_LEN_def Message_new_def)

section \<open>Releasing the locked tables\<close>

text \<open>Every table of the list has \<open>f\<close> applied and its mutex released.\<close>

definition release_all :: "(Table \<Rightarrow> Table) \<Rightarrow> table_ptr list \<Rightarrow> Server \<Rightarrow> Server" where
  "release_all f ps srv = fold (\<lambda>p. at_table p (\<lambda>t. (f t)\<lparr>t_mutex := None\<rparr>)) ps srv"

definition owns_all :: "table_ptr list \<Rightarrow> world \<Rightarrow> bool" where
  "owns_all ps w \<longleftrightarrow> distinct ps \<and>
     (\<forall>p\<in>set ps. p < length (heap (fst w)) \<and> t_mutex (heap (fst w) ! p) = Some (me (snd w)))"

lemma release_all_fields [simp]:
  "length (heap (release_all f ps srv)) = length (heap srv)"
  "table_names (release_all f ps srv) = table_names srv" "s_mutex (release_all f ps srv) = s_mutex srv"
  "find_table name (release_all f ps srv) = find_table name srv"
  by (induction ps arbitrary: srv) (simp_all add: release_all_def)

text \<open>The order of the list (of the \<open>unordered_set\<close>) does not show in the result.\<close>

lemma release_all_nth:
  assumes "distinct ps" "set ps \<subseteq> {..<length (heap srv)}"
  shows "heap (release_all f ps srv) ! q =
    (if q \<in> set ps then (f (heap srv ! q))\<lparr>t_mutex := None\<rparr> else heap srv ! q)"
  using assms
proof (induction ps arbitrary: srv)
  case Nil
  then show ?case by (simp add: release_all_def)
next
  case (Cons p ps)
  let ?srv = "at_table p (\<lambda>t. (f t)\<lparr>t_mutex := None\<rparr>) srv"
  have "release_all f (p # ps) srv = release_all f ps ?srv"
    by (simp add: release_all_def)
  with Cons.IH [of ?srv] Cons.prems show ?case by auto
qed

lemma release_all_run:
  assumes "owns_all ps (srv, c)" and "\<And>t. t_mutex (f t) = t_mutex t"
  shows "for_each (\<lambda>p. seq_cmd (modify_table p f) (unlock_table p)) ps (srv, c) =
    (Ret (), (release_all f ps srv, c))"
  using assms(1)
proof (induction ps arbitrary: srv)
  case Nil
  then show ?case by (simp add: run_simps release_all_def)
next
  case (Cons p ps)
  let ?srv = "at_table p (\<lambda>t. (f t)\<lparr>t_mutex := None\<rparr>) srv"
  have p: "p < length (heap srv)" "t_mutex (heap srv ! p) = Some (me c)"
    using Cons.prems by (simp_all add: owns_all_def)
  have "owns_all ps (?srv, c)"
    using Cons.prems by (auto simp: owns_all_def)
  with Cons.IH p show ?case
    by (simp add: run_simps modify_table_run unlock_table_owned assms(2) at_table_twice release_all_def)
qed

section \<open>Connections in order\<close>

definition owned_tables :: "thread_id \<Rightarrow> Server \<Rightarrow> table_ptr list" where
  "owned_tables t srv = filter (\<lambda>p. t_mutex (heap srv ! p) = Some t) [0..<length (heap srv)]"

text \<open>The values that reach the stack and the tables: words short enough for a \<open>DATA\<close> reply.\<close>

definition value_ok :: "string \<Rightarrow> bool" where
  "value_ok v \<longleftrightarrow> v \<noteq> [] \<and> list_all word_char v \<and> length v \<le> 1018"

text \<open>
  A table's values are such words, and while nobody holds the table every proposal it
  still lists has been committed.
\<close>

definition table_ok :: "Table \<Rightarrow> bool" where
  "table_ok t \<longleftrightarrow>
     table_wf t \<and> list_all value_ok (map snd (key_value_pairs t)) \<and>
     list_all value_ok (map snd (proposed_pairs t)) \<and>
     (t_mutex t = None \<longrightarrow> proposed t \<subseteq>\<^sub>m committed t)"

definition conn_ok :: "world \<Rightarrow> bool" where
  "conn_ok w \<longleftrightarrow>
     server_wf (fst w) \<and> s_mutex (fst w) = None \<and>
     distinct (locked_tables (snd w)) \<and>
     set (locked_tables (snd w)) = set (owned_tables (me (snd w)) (fst w)) \<and>
     (\<not> in_transaction (snd w) \<longrightarrow> locked_tables (snd w) = []) \<and>
     list_all table_ok (heap (fst w)) \<and> list_all value_ok (stack (snd w))"

lemma set_owned_tables:
  "set (owned_tables t srv) = {p. p < length (heap srv) \<and> t_mutex (heap srv ! p) = Some t}"
  by (auto simp: owned_tables_def)

lemma conn_ok_owns: "conn_ok (srv, c) \<Longrightarrow> owns_all (locked_tables c) (srv, c)"
  by (auto simp: conn_ok_def owns_all_def set_owned_tables)

lemma conn_ok_held:
  "conn_ok (srv, c) \<Longrightarrow> p < length (heap srv) \<Longrightarrow>
     p \<in> set (locked_tables c) \<longleftrightarrow> t_mutex (heap srv ! p) = Some (me c)"
  by (simp add: conn_ok_def set_owned_tables)

lemma conn_ok_unlocked: "conn_ok (srv, c) \<Longrightarrow> \<not> in_transaction c \<Longrightarrow> locked_tables c = []"
  by (simp add: conn_ok_def)

lemma conn_ok_idle:
  "conn_ok (srv, c) \<Longrightarrow> \<not> in_transaction c \<Longrightarrow> p < length (heap srv) \<Longrightarrow>
     t_mutex (heap srv ! p) \<noteq> Some (me c)"
  using conn_ok_held [of srv c p] conn_ok_unlocked [of srv c] by simp

lemma conn_ok_server: "conn_ok (srv, c) \<Longrightarrow> server_wf srv \<and> s_mutex srv = None"
  by (simp add: conn_ok_def)

text \<open>The state after an open transaction, if any, was given up.\<close>

definition aborted :: "world \<Rightarrow> world" where
  "aborted w =
     (release_all rollback_changes (locked_tables (snd w)) (fst w),
      (snd w)\<lparr>locked_tables := [], in_transaction := False\<rparr>)"

lemma fail_transaction_run:
  assumes "owns_all (locked_tables c) (srv, c)"
  shows "fail_transaction (srv, c) = (Ret (), aborted (srv, c))"
  using release_all_run [OF assms, of rollback_changes]
  by (simp add: fail_transaction_def run_simps table_frame aborted_def)

lemma aborted_idle:
  assumes "\<not> in_transaction c" "locked_tables c = []"
  shows "aborted (srv, c) = (srv, c)"
proof -
  have "c\<lparr>locked_tables := [], in_transaction := False\<rparr> = c"
    using assms by (cases c) simp
  with assms show ?thesis by (simp add: aborted_def release_all_def)
qed

text \<open>What a request that ends in an exception leaves behind, and the line it sends.\<close>

definition failed_with :: "string \<Rightarrow> world \<Rightarrow> unit res \<times> world" where
  "failed_with text w = (case aborted w of (srv, c) \<Rightarrow> (Ret (), (srv, answer (failed_line text) c)))"

lemma manage_exception_run:
  assumes "owns_all (locked_tables c) (srv, c)" "\<not> in_transaction c \<Longrightarrow> locked_tables c = []"
    and "length (what ex) \<le> 1000"
  shows "manage_exception ex True (srv, c) = failed_with (what ex) (srv, c)"
    and "manage_exception ex False (srv, c) =
      (case aborted (srv, c) of (srv', c') \<Rightarrow> (Ret (), (srv', answer (error_line (what ex)) c')))"
  using assms
  by (cases "in_transaction c"; cases "aborted (srv, c)";
      simp add: manage_exception_def run_simps fail_transaction_run failed_with_def Let_def
        send_failed_run send_error_run aborted_idle)+

text \<open>A handler's exception becomes a \<open>FAILED\<close> reply.\<close>

lemma call_response_failed:
  assumes "dispatch msg w = (Throw ex, (srv, c))"
    and "is_runtime_error ex" "\<not> is_InvalidMessage ex" "length (what ex) \<le> 1000"
    and "conn_ok (srv, c)"
  shows "call_response_function msg w = failed_with (what ex) (srv, c)"
  using assms conn_ok_owns [OF assms(5)]
  by (simp add: call_response_function_def run_simps manage_exception_run conn_ok_def)

lemma call_response_done:
  assumes "dispatch msg w = (r, w')" "\<And>e. r \<noteq> Throw e"
  shows "call_response_function msg w = (r, w')"
  using assms(1) assms(2)
  by (cases r) (auto simp: call_response_function_def run_simps)

lemma call_response_escapes:
  assumes "dispatch msg w = (Throw ex, w')" "\<not> is_runtime_error ex"
  shows "call_response_function msg w = (Throw ex, w')"
  using assms by (cases ex) (simp_all add: call_response_function_def run_simps)

section \<open>Stack requests\<close>

abbreviation empty_pop :: exn where
  "empty_pop \<equiv> OperationException ''Tried to call POP on an empty operations stack.''"

abbreviation empty_top :: exn where
  "empty_top \<equiv> OperationException ''Tried to call TOP on an empty operations stack.''"

lemma handle_push_run:
  "m_args msg = [v] \<Longrightarrow> handle_push msg (srv, c) = (Ret (), (srv, answer ok_line (c\<lparr>stack := v # stack c\<rparr>)))"
  by (simp add: handle_push_def run_simps get_arg_def vec_at_def)

lemma handle_pop_run:
  "handle_pop (srv, c) =
     (case stack c of
        [] \<Rightarrow> (Throw empty_pop, (srv, c))
      | v # vs \<Rightarrow> (Ret (), (srv, answer ok_line (c\<lparr>stack := vs\<rparr>))))"
  by (simp add: handle_pop_def rethrow_operation_def run_simps split: list.splits)

lemma handle_top_run:
  "handle_top (srv, c) =
     (case stack c of
        [] \<Rightarrow> (Throw empty_top, (srv, c))
      | v # vs \<Rightarrow> if length v \<le> 1018 then (Ret (), (srv, answer (data_line v) c))
                  else (Throw (InvalidMessage ''Message is too long.''), (srv, c)))"
proof -
  have "push_arg v (Message_new DATA []) = Message_new DATA [v]" for v
    by (simp add: push_arg_def Message_new_def)
  then show ?thesis
    by (simp add: handle_top_def rethrow_operation_def run_simps get_top_def send_data_run
        send_data_too_long split: list.splits)
qed

subsection \<open>Arithmetic\<close>

text \<open>The text that the four arithmetic handlers share.\<close>

definition arith_handler :: "string \<Rightarrow> (int \<Rightarrow> int \<Rightarrow> int res) \<Rightarrow> (world, unit) xcmd" where
  "arith_handler not_enough f =
     bind_cmd (pop_operands not_enough) (\<lambda>(left, right).
     bind_cmd (lift_res (f left right)) (\<lambda>r.
     seq_cmd (stack_push (to_string r)) write_ok))"

lemma arith_handlers:
  "handle_add = arith_handler ''There are not enough operands to add with.'' (\<lambda>l r. int_result (l + r))"
  "handle_sub = arith_handler ''There are not enough operands to subtract with.'' (\<lambda>l r. int_result (l - r))"
  "handle_mul = arith_handler ''There are not enough operands to multiply with.'' (\<lambda>l r. int_result (l * r))"
  "handle_div = arith_handler ''There are not enough operands to divide with.'' cxx_div"
  by (simp_all add: handle_add_def handle_sub_def handle_mul_def handle_div_def arith_handler_def)

text \<open>Which function an arithmetic request computes, and its complaint about a short stack.\<close>

fun arith_fun :: "MessageType \<Rightarrow> (string \<times> (int \<Rightarrow> int \<Rightarrow> int res)) option" where
  "arith_fun ADD = Some (''There are not enough operands to add with.'', \<lambda>l r. int_result (l + r))"
| "arith_fun SUB = Some (''There are not enough operands to subtract with.'', \<lambda>l r. int_result (l - r))"
| "arith_fun MUL = Some (''There are not enough operands to multiply with.'', \<lambda>l r. int_result (l * r))"
| "arith_fun DIV = Some (''There are not enough operands to divide with.'', cxx_div)"
| "arith_fun t = None"

lemma dispatch_arith:
  assumes "arith_fun (m_message_type msg) = Some (txt, f)"
  shows "dispatch msg = arith_handler txt f"
proof (cases "m_message_type msg")
  case DIV
  with assms show ?thesis by (simp add: dispatch_def get_message_type_def arith_handlers)
qed (use assms in \<open>auto simp: dispatch_def get_message_type_def arith_handlers\<close>)

lemma pop_operand_run:
  "stack c = v # vs \<Longrightarrow>
     pop_operand (srv, c) =
       (case stoi v of Ret i \<Rightarrow> (Ret i, (srv, c\<lparr>stack := vs\<rparr>)) | Throw e \<Rightarrow> (Throw e, (srv, c))
        | Fault u \<Rightarrow> (Fault u, (srv, c)) | Block \<Rightarrow> (Block, (srv, c)))"
  by (simp add: pop_operand_def run_simps get_top_def split: outcome.splits)

lemma arith_short:
  assumes "get_size (stack c) < 2"
  shows "arith_handler txt f (srv, c) = (Throw (OperationException txt), (srv, c))"
  using assms by (simp add: arith_handler_def pop_operands_def run_simps)

lemma arith_right_bad:
  assumes "stack c = r # l # rest" "2 \<le> get_size (stack c)" "stoi r = Throw e"
  shows "arith_handler txt f (srv, c) =
    (Throw (if is_Invalid_argument e then conversion_error else e), (srv, c))"
  using assms by (simp add: arith_handler_def pop_operands_def run_simps pop_operand_run)

lemma arith_left_bad:
  assumes "stack c = r # l # rest" "2 \<le> get_size (stack c)" "stoi r = Ret i" "stoi l = Throw e"
  shows "arith_handler txt f (srv, c) =
    (if is_Invalid_argument e then (Throw conversion_error, (srv, c\<lparr>stack := to_string i # l # rest\<rparr>))
     else (Throw e, (srv, c\<lparr>stack := l # rest\<rparr>)))"
  using assms by (simp add: arith_handler_def pop_operands_def run_simps pop_operand_run)

lemma arith_operands:
  assumes "stack c = r # l # rest" "2 \<le> get_size (stack c)" "stoi r = Ret i" "stoi l = Ret j"
  shows "arith_handler txt f (srv, c) =
    (case f j i of
       Ret v \<Rightarrow> (Ret (), (srv, answer ok_line (c\<lparr>stack := to_string v # rest\<rparr>)))
     | Throw e \<Rightarrow> (Throw e, (srv, c\<lparr>stack := rest\<rparr>))
     | Fault u \<Rightarrow> (Fault u, (srv, c\<lparr>stack := rest\<rparr>))
     | Block \<Rightarrow> (Block, (srv, c\<lparr>stack := rest\<rparr>)))"
  using assms
  by (simp add: arith_handler_def pop_operands_def run_simps pop_operand_run
      split: outcome.splits)

section \<open>Transactions\<close>

lemma handle_begin_run:
  "handle_begin (srv, c) =
     (if in_transaction c
      then (Throw (FailedTransaction ''Nested transactions are not supported.''), (srv, c))
      else (Ret (), (srv, answer ok_line (c\<lparr>in_transaction := True\<rparr>))))"
  by (simp add: handle_begin_def run_simps)

lemma handle_commit_run:
  assumes "owns_all (locked_tables c) (srv, c)"
  shows "handle_commit (srv, c) =
     (if \<not> in_transaction c
      then (Throw (FailedTransaction ''Transaction is not ongoing.''), (srv, c))
      else (Ret (), (release_all commit_changes (locked_tables c) srv,
                     answer ok_line (c\<lparr>locked_tables := [], in_transaction := False\<rparr>))))"
  using release_all_run [OF assms, of commit_changes]
  by (simp add: handle_commit_def run_simps table_frame)

lemma handle_create_run:
  assumes "m_args msg = [name]" "s_mutex srv = None"
  shows "handle_create msg (srv, c) =
     (if find_table name srv \<noteq> None
      then (Throw (OperationException ''A table with this name already exists.''),
            (srv\<lparr>mutex_is_locked := False\<rparr>, c))
      else (Ret (), (snd (create_table name (srv\<lparr>mutex_is_locked := False\<rparr>)), answer ok_line c)))"
  using assms
  by (simp add: handle_create_def run_simps get_arg_def vec_at_def server_lock_free server_unlock_owned
      find_table_map_of create_table_run)

lemma handle_create_busy:
  assumes "s_mutex srv = Some u" "u \<noteq> me c"
  shows "handle_create msg (srv, c) = (Block, (srv, c))"
  using assms by (simp add: handle_create_def run_simps server_lock_def mutex_lock_def)

section \<open>\<open>SET\<close> and \<open>GET\<close>\<close>

abbreviation table_missing :: exn where
  "table_missing \<equiv> OperationException ''Could not find table.''"

abbreviation key_missing :: exn where
  "key_missing \<equiv> OperationException ''Could not find key in specified table.''"

abbreviation table_busy :: exn where
  "table_busy \<equiv> FailedTransaction ''Could not gain access to table.''"

lemma acquire_held:
  "p \<in> set (locked_tables c) \<Longrightarrow> acquire_in_transaction p (srv, c) = (Ret (), (srv, c))"
  by (simp add: acquire_in_transaction_def run_simps)

lemma acquire_free:
  assumes "p < length (heap srv)" "p \<notin> set (locked_tables c)" "t_mutex (heap srv ! p) = None"
  shows "acquire_in_transaction p (srv, c) =
    (Ret (), (at_table p (t_mutex_update (\<lambda>_. Some (me c))) srv, c\<lparr>locked_tables := locked_tables c @ [p]\<rparr>))"
  using assms by (simp add: acquire_in_transaction_def run_simps trylock_table_free)

lemma acquire_busy:
  assumes "p < length (heap srv)" "p \<notin> set (locked_tables c)" "t_mutex (heap srv ! p) = Some u"
  shows "acquire_in_transaction p (srv, c) = (Throw table_busy, (srv, c))"
  using assms by (simp add: acquire_in_transaction_def run_simps trylock_table_busy)

lemma set_table_value_run:
  assumes "m_args msg = [name, key]" "stack c = v # vs" "p < length (heap srv)"
  shows "set_table_value msg p (srv, c) = (Ret (), (at_table p (table_set key v) srv, c\<lparr>stack := vs\<rparr>))"
  using assms
  by (simp add: set_table_value_def run_simps get_arg_def vec_at_def get_top_def modify_table_run)

lemma get_table_value_present:
  assumes "m_args msg = [name, key]" "p < length (heap srv)" "table_get key (heap srv ! p) = Ret v"
  shows "get_table_value msg p (srv, c) = (Ret (), (srv, c\<lparr>stack := v # stack c\<rparr>))"
proof -
  have "has_key key (heap srv ! p)"
    using assms(3) ts.present_iff [of key "heap srv ! p"] ts.read_absent [of "heap srv ! p" key]
    by fastforce
  with assms show ?thesis
    by (simp add: get_table_value_def run_simps get_arg_def vec_at_def read_table_run)
qed

lemma get_table_value_absent:
  assumes "m_args msg = [name, key]" "p < length (heap srv)" "\<not> has_key key (heap srv ! p)"
    and "t_mutex (heap srv ! p) = Some (me c)"
  shows "get_table_value msg p (srv, c) =
    (Throw key_missing, (at_table p (t_mutex_update (\<lambda>_. None)) srv, c))"
  using assms
  by (simp add: get_table_value_def run_simps get_arg_def vec_at_def read_table_run unlock_table_owned)

lemma handle_set_empty:
  "get_size (stack c) < 1 \<Longrightarrow> handle_set msg (srv, c) = (Throw (OperationException ''No value on stack.''), (srv, c))"
  by (simp add: handle_set_def run_simps)

text \<open>Both requests look the table up before anything else happens.\<close>

lemma handle_set_table:
  assumes "m_args msg = [name, key]" "stack c = v # vs" "1 \<le> get_size (stack c)"
  shows "handle_set msg (srv, c) =
    (case find_table name srv of
       None \<Rightarrow> (Throw table_missing, (srv, c))
     | Some p \<Rightarrow>
         seq_cmd
           (if \<not> in_transaction c
            then seq_cmd (lock_table p) (seq_cmd (set_table_value msg p)
                 (seq_cmd (modify_table p commit_changes) (unlock_table p)))
            else seq_cmd (acquire_in_transaction p) (set_table_value msg p)) write_ok (srv, c))"
  using assms
  by (simp add: handle_set_def run_simps get_arg_def vec_at_def split: option.splits)

lemma handle_get_table:
  assumes "m_args msg = [name, key]"
  shows "handle_get msg (srv, c) =
    (case find_table name srv of
       None \<Rightarrow> (Throw table_missing, (srv, c))
     | Some p \<Rightarrow>
         seq_cmd
           (if \<not> in_transaction c
            then seq_cmd (lock_table p)
                (seq_cmd
                  (try_catch (get_table_value msg p)
                    (\<lambda>ex. if is_OperationException ex
                          then Some (seq_cmd (unlock_table p) (throw (OperationException (what ex))))
                          else None))
                 (unlock_table p))
            else seq_cmd (acquire_in_transaction p) (rethrow_operation (get_table_value msg p)))
           write_ok (srv, c))"
  using assms by (simp add: handle_get_def run_simps get_arg_def vec_at_def split: option.splits)

lemma locked_then_set:
  "t_mutex t = None \<Longrightarrow>
     (commit_changes (table_set k v (t\<lparr>t_mutex := m\<rparr>)))\<lparr>t_mutex := None\<rparr> = commit_changes (table_set k v t)"
  by (cases t) (simp add: commit_changes_def table_set_def)

lemma handle_set_now:
  assumes msg: "m_args msg = [name, key]" and st: "stack c = v # vs" "1 \<le> get_size (stack c)"
    and p: "find_table name srv = Some p" "p < length (heap srv)"
    and tx: "\<not> in_transaction c" and free: "t_mutex (heap srv ! p) = None"
  shows "handle_set msg (srv, c) =
    (Ret (), (at_table p (\<lambda>t. commit_changes (table_set key v t)) srv, answer ok_line (c\<lparr>stack := vs\<rparr>)))"
proof -
  let ?s1 = "at_table p (t_mutex_update (\<lambda>_. Some (me c))) srv"
  let ?c = "c\<lparr>stack := vs\<rparr>"
  have 1: "set_table_value msg p (?s1, c) = (Ret (), (at_table p (table_set key v) ?s1, ?c))"
    by (rule set_table_value_run [OF msg st(1)]) (simp add: p)
  have "unlock_table p (at_table p commit_changes (at_table p (table_set key v) ?s1), ?c) =
    (Ret (), (at_table p (\<lambda>t. commit_changes (table_set key v t)) srv, ?c))"
    using p free by (simp add: unlock_table_owned table_frame at_table_twice)
      (simp add: at_table_def locked_then_set)
  then show ?thesis
    using p tx free 1 handle_set_table [OF msg st(1,2), of srv]
    by (simp add: run_simps lock_table_free modify_table_run)
qed

lemma handle_set_wait:
  assumes "m_args msg = [name, key]" "stack c = v # vs" "1 \<le> get_size (stack c)"
    and "find_table name srv = Some p" "p < length (heap srv)"
    and "\<not> in_transaction c" "t_mutex (heap srv ! p) = Some u" "u \<noteq> me c"
  shows "handle_set msg (srv, c) = (Block, (srv, c))"
  using assms by (simp add: handle_set_table run_simps lock_table_busy)

lemma handle_set_held:
  assumes "m_args msg = [name, key]" "stack c = v # vs" "1 \<le> get_size (stack c)"
    and "find_table name srv = Some p" "p < length (heap srv)"
    and "in_transaction c" "p \<in> set (locked_tables c)"
  shows "handle_set msg (srv, c) =
    (Ret (), (at_table p (table_set key v) srv, answer ok_line (c\<lparr>stack := vs\<rparr>)))"
  using assms by (simp add: handle_set_table run_simps acquire_held set_table_value_run)

lemma handle_set_acquire:
  assumes "m_args msg = [name, key]" "stack c = v # vs" "1 \<le> get_size (stack c)"
    and "find_table name srv = Some p" "p < length (heap srv)"
    and "in_transaction c" "p \<notin> set (locked_tables c)" "t_mutex (heap srv ! p) = None"
  shows "handle_set msg (srv, c) =
    (Ret (), (at_table p (\<lambda>t. table_set key v (t\<lparr>t_mutex := Some (me c)\<rparr>)) srv,
       answer ok_line (c\<lparr>locked_tables := locked_tables c @ [p], stack := vs\<rparr>)))"
  using assms
  by (simp add: handle_set_table run_simps acquire_free set_table_value_run at_table_twice)

lemma handle_set_refused:
  assumes "m_args msg = [name, key]" "stack c = v # vs" "1 \<le> get_size (stack c)"
    and "find_table name srv = Some p" "p < length (heap srv)"
    and "in_transaction c" "p \<notin> set (locked_tables c)" "t_mutex (heap srv ! p) = Some u"
  shows "handle_set msg (srv, c) = (Throw table_busy, (srv, c))"
  using assms by (simp add: handle_set_table run_simps acquire_busy)

lemma table_get_mutex [simp]: "table_get key (t\<lparr>t_mutex := m\<rparr>) = table_get key t"
  by (simp add: table_get_def)

lemma has_key_mutex [simp]: "has_key key (t\<lparr>t_mutex := m\<rparr>) = has_key key t"
  by (simp add: has_key_def)

lemma handle_get_now:
  assumes msg: "m_args msg = [name, key]"
    and p: "find_table name srv = Some p" "p < length (heap srv)"
    and tx: "\<not> in_transaction c" and free: "t_mutex (heap srv ! p) = None"
    and v: "table_get key (heap srv ! p) = Ret v"
  shows "handle_get msg (srv, c) = (Ret (), (srv, answer ok_line (c\<lparr>stack := v # stack c\<rparr>)))"
proof -
  let ?s1 = "at_table p (t_mutex_update (\<lambda>_. Some (me c))) srv"
  let ?c = "c\<lparr>stack := v # stack c\<rparr>"
  have "table_get key (heap ?s1 ! p) = Ret v"
    using v p by simp
  then have 1: "get_table_value msg p (?s1, c) = (Ret (), (?s1, ?c))"
    by (intro get_table_value_present [OF msg]) (simp_all add: p)
  have "unlock_table p (?s1, ?c) = (Ret (), (srv, ?c))"
    using p free by (simp add: unlock_table_owned at_table_twice at_table_same)
  then show ?thesis
    using p tx free 1 handle_get_table [OF msg, of srv]
    by (simp add: run_simps lock_table_free)
qed

lemma handle_get_wait:
  assumes "m_args msg = [name, key]" "find_table name srv = Some p" "p < length (heap srv)"
    and "\<not> in_transaction c" "t_mutex (heap srv ! p) = Some u" "u \<noteq> me c"
  shows "handle_get msg (srv, c) = (Block, (srv, c))"
  using assms by (simp add: handle_get_table run_simps lock_table_busy)

lemma handle_get_held:
  assumes "m_args msg = [name, key]" "find_table name srv = Some p" "p < length (heap srv)"
    and "in_transaction c" "p \<in> set (locked_tables c)" "table_get key (heap srv ! p) = Ret v"
  shows "handle_get msg (srv, c) = (Ret (), (srv, answer ok_line (c\<lparr>stack := v # stack c\<rparr>)))"
  using assms
  by (simp add: handle_get_table run_simps acquire_held get_table_value_present rethrow_operation_def)

lemma handle_get_acquire:
  assumes "m_args msg = [name, key]" "find_table name srv = Some p" "p < length (heap srv)"
    and "in_transaction c" "p \<notin> set (locked_tables c)" "t_mutex (heap srv ! p) = None"
    and "table_get key (heap srv ! p) = Ret v"
  shows "handle_get msg (srv, c) =
    (Ret (), (at_table p (t_mutex_update (\<lambda>_. Some (me c))) srv,
       answer ok_line (c\<lparr>locked_tables := locked_tables c @ [p], stack := v # stack c\<rparr>)))"
  using assms
  by (simp add: handle_get_table run_simps acquire_free get_table_value_present rethrow_operation_def)

lemma handle_get_refused:
  assumes "m_args msg = [name, key]" "find_table name srv = Some p" "p < length (heap srv)"
    and "in_transaction c" "p \<notin> set (locked_tables c)" "t_mutex (heap srv ! p) = Some u"
  shows "handle_get msg (srv, c) = (Throw table_busy, (srv, c))"
  using assms by (simp add: handle_get_table run_simps acquire_busy)

subsection \<open>\<open>GET\<close> of a key that is not there\<close>

text \<open>
  Outside a transaction the table is unlocked in \<open>get_table_value\<close> and again in the
  \<open>catch\<close> of \<open>handle_get\<close>. In a transaction it is unlocked there, stays
  in \<open>locked_tables\<close>, and is unlocked again when the transaction is failed.
\<close>

lemma handle_get_absent_now:
  assumes msg: "m_args msg = [name, key]"
    and p: "find_table name srv = Some p" "p < length (heap srv)"
    and tx: "\<not> in_transaction c" and free: "t_mutex (heap srv ! p) = None"
    and absent: "\<not> has_key key (heap srv ! p)"
  shows "\<exists>w. handle_get msg (srv, c) = (Fault Mutex_not_owned, w)"
proof -
  let ?s1 = "at_table p (t_mutex_update (\<lambda>_. Some (me c))) srv"
  let ?s2 = "at_table p (t_mutex_update (\<lambda>_. None)) ?s1"
  have 1: "get_table_value msg p (?s1, c) = (Throw key_missing, (?s2, c))"
    using p absent by (intro get_table_value_absent [OF msg]) simp_all
  have "unlock_table p (?s2, c) = (Fault Mutex_not_owned, (?s2, c))"
    using p by (intro unlock_table_not_owned) simp_all
  then show ?thesis
    using p tx free 1 handle_get_table [OF msg, of srv]
    by (simp add: run_simps lock_table_free)
qed

lemma handle_get_absent_tx:
  assumes msg: "m_args msg = [name, key]"
    and p: "find_table name srv = Some p" "p < length (heap srv)"
    and tx: "in_transaction c" and ok: "conn_ok (srv, c)"
    and free: "t_mutex (heap srv ! p) \<in> {None, Some (me c)}"
    and absent: "\<not> has_key key (heap srv ! p)"
  shows "\<exists>ps. p \<in> set ps \<and> set ps \<subseteq> {..<length (heap srv)} \<and> handle_get msg (srv, c) =
    (Throw key_missing, (at_table p (t_mutex_update (\<lambda>_. None)) srv, c\<lparr>locked_tables := ps\<rparr>))"
proof (cases "t_mutex (heap srv ! p) = None")
  case True
  let ?s1 = "at_table p (t_mutex_update (\<lambda>_. Some (me c))) srv"
  let ?c = "c\<lparr>locked_tables := locked_tables c @ [p]\<rparr>"
  have "p \<notin> set (locked_tables c)"
    using conn_ok_held [OF ok p(2)] True by simp
  moreover have "get_table_value msg p (?s1, ?c) =
      (Throw key_missing, (at_table p (t_mutex_update (\<lambda>_. None)) ?s1, ?c))"
    using p absent by (intro get_table_value_absent [OF msg]) simp_all
  ultimately have "handle_get msg (srv, c) =
      (Throw key_missing, (at_table p (t_mutex_update (\<lambda>_. None)) srv, ?c))"
    using p tx True
    by (simp add: handle_get_table [OF msg] run_simps acquire_free rethrow_operation_def at_table_twice)
  with p ok show ?thesis
    by (intro exI [of _ "locked_tables c @ [p]"]) (auto simp: conn_ok_def set_owned_tables)
next
  case False
  then have held: "p \<in> set (locked_tables c)" "t_mutex (heap srv ! p) = Some (me c)"
    using free conn_ok_held [OF ok p(2)] by auto
  then have "get_table_value msg p (srv, c) =
      (Throw key_missing, (at_table p (t_mutex_update (\<lambda>_. None)) srv, c))"
    using p absent by (intro get_table_value_absent [OF msg]) simp_all
  with p tx held ok show ?thesis
    by (intro exI [of _ "locked_tables c"])
      (auto simp: handle_get_table [OF msg] run_simps acquire_held rethrow_operation_def
        conn_ok_def set_owned_tables)
qed

text \<open>Failing a transaction that lists a table whose mutex the thread does not own.\<close>

lemma release_not_owned:
  assumes "p \<in> set ps" "set ps \<subseteq> {..<length (heap srv)}" "t_mutex (heap srv ! p) \<noteq> Some (me c)"
    and "\<And>t. t_mutex (f t) = t_mutex t"
  shows "\<exists>w. for_each (\<lambda>p. seq_cmd (modify_table p f) (unlock_table p)) ps (srv, c) =
    (Fault Mutex_not_owned, w)"
  using assms(1-3)
proof (induction ps arbitrary: srv)
  case Nil
  then show ?case by simp
next
  case (Cons q ps)
  let ?body = "\<lambda>p. seq_cmd (modify_table p f) (unlock_table p)"
  have q: "q < length (heap srv)" using Cons.prems by simp
  show ?case
  proof (cases "t_mutex (heap srv ! q) = Some (me c)")
    case True
    let ?srv = "at_table q (\<lambda>t. (f t)\<lparr>t_mutex := None\<rparr>) srv"
    have "p \<in> set ps" "t_mutex (heap ?srv ! p) \<noteq> Some (me c)"
      using True Cons.prems q by auto
    then have "\<exists>w. for_each ?body ps (?srv, c) = (Fault Mutex_not_owned, w)"
      using Cons.prems by (intro Cons.IH) simp_all
    moreover have "?body q (srv, c) = (Ret (), (?srv, c))"
      using q True by (simp add: run_simps modify_table_run unlock_table_owned assms(4) at_table_twice)
    ultimately show ?thesis
      by (simp only: for_each.simps seq_cmd_run [of "seq_cmd m k" for m k] continue_with.simps)
  next
    case False
    then show ?thesis
      using q by (simp add: run_simps modify_table_run unlock_table_not_owned assms(4))
  qed
qed

lemma get_absent_response:
  assumes msg: "m_message_type msg = GET" "m_args msg = [name, key]"
    and ok: "conn_ok (srv, c)" and p: "find_table name srv = Some p"
    and free: "t_mutex (heap srv ! p) \<in> {None, Some (me c)}"
    and absent: "\<not> has_key key (heap srv ! p)"
  shows "\<exists>w. call_response_function msg (srv, c) = (Fault Mutex_not_owned, w)"
proof -
  have pl: "p < length (heap srv)"
    using conn_ok_server [OF ok] p find_table_valid by blast
  have d: "dispatch msg = handle_get msg"
    using msg by (simp add: dispatch_def get_message_type_def)
  show ?thesis
  proof (cases "in_transaction c")
    case True
    obtain ps where ps: "p \<in> set ps" "set ps \<subseteq> {..<length (heap srv)}"
      and run: "handle_get msg (srv, c) =
        (Throw key_missing, (at_table p (t_mutex_update (\<lambda>_. None)) srv, c\<lparr>locked_tables := ps\<rparr>))"
      using handle_get_absent_tx [OF msg(2) p pl True ok free absent] by blast
    let ?srv = "at_table p (t_mutex_update (\<lambda>_. None)) srv"
    have "\<exists>w. for_each (\<lambda>p. seq_cmd (modify_table p rollback_changes) (unlock_table p)) ps
        (?srv, c\<lparr>locked_tables := ps\<rparr>) = (Fault Mutex_not_owned, w)"
      using ps pl by (intro release_not_owned [of p]) (simp_all add: table_frame)
    then show ?thesis
      using True
      by (auto simp: call_response_function_def run_simps d run manage_exception_def fail_transaction_def)
  next
    case False
    then have "t_mutex (heap srv ! p) = None"
      using free conn_ok_idle [OF ok False pl] by auto
    then obtain w where "handle_get msg (srv, c) = (Fault Mutex_not_owned, w)"
      using handle_get_absent_now [OF msg(2) p pl False _ absent] by blast
    then show ?thesis
      by (simp add: call_response_function_def run_simps d)
  qed
qed

end
