(* ===== verification/Request_Invariants.thy ===== *)
theory Request_Invariants
  imports Request_Handlers
begin

text \<open>
  What every request keeps: the connection stays in order (\<open>conn_ok\<close>), the thread
  touches no table that another thread holds (\<open>guar\<close>), and a request that is
  answered gets exactly one line. A request that has to wait for a mutex changes nothing
  before it waits.
\<close>

section \<open>Sizes\<close>

lemma get_size_1: "1 \<le> get_size s \<Longrightarrow> \<exists>v vs. s = v # vs"
  using get_size_small [of s] by (cases s) auto

lemma get_size_2: "2 \<le> get_size s \<Longrightarrow> \<exists>v w vs. s = v # w # vs"
  using get_size_small [of s] by (cases s; cases "tl s") auto

section \<open>Tables in order\<close>

lemma umap_assign_values:
  "list_all P (map snd m) \<Longrightarrow> P v \<Longrightarrow> list_all P (map snd (umap_assign m k v))"
  by (induction m) (auto simp: umap_assign_def)

lemma umap_assign_all_values:
  "list_all P (map snd m) \<Longrightarrow> list_all P (map snd ps) \<Longrightarrow>
     list_all P (map snd (fold (\<lambda>(k, v) m. umap_assign m k v) ps m))"
  by (induction ps arbitrary: m) (auto simp: umap_assign_values)

lemma committed_values: "table_ok t \<Longrightarrow> committed t k = Some v \<Longrightarrow> value_ok v"
  by (auto simp: table_ok_def committed_def list_all_iff dest!: map_of_SomeD)

lemma proposed_values: "table_ok t \<Longrightarrow> proposed t k = Some v \<Longrightarrow> value_ok v"
  by (auto simp: table_ok_def proposed_def list_all_iff dest!: map_of_SomeD)

lemma table_get_values: "table_ok t \<Longrightarrow> table_get k t = Ret v \<Longrightarrow> value_ok v"
  using committed_values [of t k] proposed_values [of t k]
  by (auto simp: table_get_def umap_contains_def umap_at_def committed_def proposed_def
      split: if_splits option.splits)

lemma table_ok_new: "table_ok (Table_new name)"
  by (simp add: table_ok_def table_wf_new committed_new) (simp add: Table_new_def)

lemma table_ok_lock: "table_ok t \<Longrightarrow> table_ok (t\<lparr>t_mutex := Some u\<rparr>)"
  by (simp add: table_ok_def table_wf_def committed_def proposed_def)

lemma table_ok_set:
  "table_ok t \<Longrightarrow> value_ok v \<Longrightarrow> t_mutex t \<noteq> None \<Longrightarrow> table_ok (table_set k v t)"
  by (auto simp: table_ok_def ts.wf_put table_frame) (simp_all add: table_set_def umap_assign_values)

lemma commit_settled:
  assumes "table_wf t"
  shows "proposed ((commit_changes t)\<lparr>t_mutex := m\<rparr>) \<subseteq>\<^sub>m committed ((commit_changes t)\<lparr>t_mutex := m\<rparr>)"
  using ts.commit_settles [OF assms] by (simp add: committed_def proposed_def)

lemma table_ok_commit: "table_ok t \<Longrightarrow> table_ok ((commit_changes t)\<lparr>t_mutex := m\<rparr>)"
  using commit_settled [of t None] ts.wf_commit [of t]
  by (auto simp: table_ok_def table_wf_def commit_changes_def umap_assign_all_values)

lemma table_ok_rollback: "table_ok t \<Longrightarrow> table_ok ((rollback_changes t)\<lparr>t_mutex := m\<rparr>)"
  by (simp add: table_ok_def table_wf_def rollback_changes_def proposed_def um.wf_empty)

lemma table_ok_set_commit:
  assumes "table_ok t" "value_ok v" "t_mutex t = None"
  shows "table_ok (commit_changes (table_set k v t))"
proof -
  have "table_ok (table_set k v (t\<lparr>t_mutex := Some 0\<rparr>))"
    using assms by (intro table_ok_set table_ok_lock) simp_all
  from table_ok_commit [OF this, of None] show ?thesis
    using assms(3) by (simp add: locked_then_set)
qed

section \<open>The guarantee to the other threads\<close>

text \<open>
  \<open>guar t srv srv'\<close>: thread \<open>t\<close> may have turned \<open>srv\<close> into
  \<open>srv'\<close>. Tables are never removed or renamed, a table held by another thread is
  not changed, and no lock is taken or released in another thread's name.
\<close>

definition guar :: "thread_id \<Rightarrow> Server \<Rightarrow> Server \<Rightarrow> bool" where
  "guar t srv srv' \<longleftrightarrow>
     length (heap srv) \<le> length (heap srv') \<and>
     (\<forall>name p. find_table name srv = Some p \<longrightarrow> find_table name srv' = Some p) \<and>
     (\<forall>p u. p < length (heap srv) \<and> u \<noteq> t \<and> t_mutex (heap srv ! p) = Some u \<longrightarrow>
        heap srv' ! p = heap srv ! p) \<and>
     (\<forall>p u. p < length (heap srv') \<and> u \<noteq> t \<and> t_mutex (heap srv' ! p) = Some u \<longrightarrow>
        p < length (heap srv) \<and> t_mutex (heap srv ! p) = Some u)"

lemma guar_refl: "guar t srv srv"
  by (simp add: guar_def)

lemma guar_tables: "guar t srv srv' \<Longrightarrow> length (heap srv) \<le> length (heap srv')"
  by (simp add: guar_def)

lemma guar_find: "guar t srv srv' \<Longrightarrow> find_table name srv = Some p \<Longrightarrow> find_table name srv' = Some p"
  by (simp add: guar_def)

lemma guar_held:
  "guar t srv srv' \<Longrightarrow> p < length (heap srv) \<Longrightarrow> u \<noteq> t \<Longrightarrow> t_mutex (heap srv ! p) = Some u \<Longrightarrow>
     heap srv' ! p = heap srv ! p"
  unfolding guar_def by blast

lemma guar_holder:
  "guar t srv srv' \<Longrightarrow> p < length (heap srv') \<Longrightarrow> u \<noteq> t \<Longrightarrow> t_mutex (heap srv' ! p) = Some u \<Longrightarrow>
     p < length (heap srv) \<and> t_mutex (heap srv ! p) = Some u"
  unfolding guar_def by blast

lemma guar_trans:
  assumes ab: "guar t a b" and bc: "guar t b c"
  shows "guar t a c"
proof -
  have "heap c ! p = heap a ! p"
    if p: "p < length (heap a)" "u \<noteq> t" "t_mutex (heap a ! p) = Some u" for p u
  proof -
    have b: "heap b ! p = heap a ! p" "p < length (heap b)"
      using guar_held [OF ab p] guar_tables [OF ab] p(1) by auto
    then have "heap c ! p = heap b ! p"
      using guar_held [OF bc _ p(2), of p] p(3) by simp
    with b show ?thesis by simp
  qed
  moreover have "p < length (heap a) \<and> t_mutex (heap a ! p) = Some u"
    if "p < length (heap c)" "u \<noteq> t" "t_mutex (heap c ! p) = Some u" for p u
    using guar_holder [OF ab _ that(2)] guar_holder [OF bc that] by blast
  moreover have "length (heap a) \<le> length (heap c)"
    using guar_tables [OF ab] guar_tables [OF bc] by simp
  ultimately show ?thesis
    using guar_find [OF ab] guar_find [OF bc] unfolding guar_def by blast
qed

lemma guar_owned:
  assumes g: "guar t srv srv'" and u: "u \<noteq> t"
  shows "owned_tables u srv' = owned_tables u srv"
proof -
  have "p < length (heap srv) \<and> t_mutex (heap srv ! p) = Some u \<longleftrightarrow>
      p < length (heap srv') \<and> t_mutex (heap srv' ! p) = Some u" for p
    using guar_held [OF g _ u, of p] guar_holder [OF g _ u, of p] guar_tables [OF g] by auto
  then have "set (owned_tables u srv) = set (owned_tables u srv')"
    by (simp add: set_owned_tables)
  moreover have "sorted (owned_tables u s) \<and> distinct (owned_tables u s)" for s
    by (simp add: owned_tables_def sorted_wrt_filter)
  ultimately show ?thesis
    by (metis sorted_distinct_set_unique)
qed

lemma guar_at_table:
  assumes "p < length (heap srv)" "t_mutex (heap srv ! p) \<in> {None, Some t}"
    and "t_mutex (f (heap srv ! p)) \<in> {None, Some t}"
  shows "guar t srv (at_table p f srv)"
  using assms by (auto simp: guar_def)

lemma guar_release:
  assumes "owns_all ps (srv, c)" "me c = t"
  shows "guar t srv (release_all f ps srv)"
proof -
  have "distinct ps" "set ps \<subseteq> {..<length (heap srv)}"
    using assms by (auto simp: owns_all_def)
  then have "heap (release_all f ps srv) ! q =
      (if q \<in> set ps then (f (heap srv ! q))\<lparr>t_mutex := None\<rparr> else heap srv ! q)" for q
    by (rule release_all_nth)
  with assms show ?thesis
    by (auto simp: guar_def owns_all_def)
qed

lemma guar_create:
  assumes "find_table name srv = None"
  shows "guar t srv (snd (create_table name srv))"
  using assms
  by (auto simp: guar_def create_table_run find_table_map_of um.lookup_assign nth_append less_Suc_eq
      split: if_splits)

lemma guar_flag: "guar t srv (srv\<lparr>mutex_is_locked := b\<rparr>)"
  by (simp add: guar_def find_table_map_of)

section \<open>Connections stay in order\<close>

lemma conn_okI:
  assumes "server_wf srv" "s_mutex srv = None" "distinct (locked_tables c)"
    and "\<And>p. p \<in> set (locked_tables c) \<longleftrightarrow> p < length (heap srv) \<and> t_mutex (heap srv ! p) = Some (me c)"
    and "\<not> in_transaction c \<Longrightarrow> locked_tables c = []"
    and "list_all table_ok (heap srv)" "list_all value_ok (stack c)"
  shows "conn_ok (srv, c)"
proof -
  have "set (locked_tables c) = set (owned_tables (me c) srv)"
    unfolding set_owned_tables using assms(4) by blast
  with assms show ?thesis by (simp add: conn_ok_def)
qed

lemma conn_okD:
  assumes "conn_ok (srv, c)"
  shows "server_wf srv" "s_mutex srv = None" "distinct (locked_tables c)"
    and "p \<in> set (locked_tables c) \<longleftrightarrow> p < length (heap srv) \<and> t_mutex (heap srv ! p) = Some (me c)"
    and "\<not> in_transaction c \<Longrightarrow> locked_tables c = []"
    and "list_all table_ok (heap srv)" "list_all value_ok (stack c)"
    and "p < length (heap srv) \<Longrightarrow> table_ok (heap srv ! p)"
  using assms by (simp_all add: conn_ok_def set_owned_tables list_all_length)

lemma conn_ok_conn:
  assumes "conn_ok (srv, c)" "me c' = me c" "locked_tables c' = locked_tables c"
    and "in_transaction c \<Longrightarrow> in_transaction c'" "list_all value_ok (stack c')"
  shows "conn_ok (srv, c')"
  using conn_okD [OF assms(1)] assms(2-) by (intro conn_okI) auto

lemma conn_ok_answer: "conn_ok (srv, c) \<Longrightarrow> conn_ok (srv, answer l c)"
  using conn_okD(7) [of srv c] by (auto elim: conn_ok_conn)

lemma conn_ok_flag: "conn_ok (srv, c) \<Longrightarrow> conn_ok (srv\<lparr>mutex_is_locked := b\<rparr>, c)"
  by (simp add: conn_ok_def server_wf_def owned_tables_def)

lemma server_wf_at_table:
  assumes "server_wf srv" "p < length (heap srv)" "table_ok (f (heap srv ! p))"
    and "m_name (f (heap srv ! p)) = m_name (heap srv ! p)"
  shows "server_wf (at_table p f srv)"
  using heap_update_wf [OF assms(1,2), of "f (heap srv ! p)"] assms(3,4)
  by (simp add: at_table_def table_ok_def)

lemma tables_ok_at_table:
  assumes "list_all table_ok (heap srv)" "p < length (heap srv)" "table_ok (f (heap srv ! p))"
  shows "list_all table_ok (heap (at_table p f srv))"
  using assms by (simp add: list_all_length)

lemma conn_ok_at_table:
  assumes "conn_ok (srv, c)" "p < length (heap srv)" "table_ok (f (heap srv ! p))"
    and "m_name (f (heap srv ! p)) = m_name (heap srv ! p)"
    and "t_mutex (f (heap srv ! p)) = t_mutex (heap srv ! p)"
  shows "conn_ok (at_table p f srv, c)"
  using conn_okD [OF assms(1)] assms(2-)
  by (intro conn_okI server_wf_at_table tables_ok_at_table) auto

lemma conn_ok_acquire:
  assumes "conn_ok (srv, c)" "in_transaction c" "p < length (heap srv)" "t_mutex (heap srv ! p) = None"
    and "table_ok (f (heap srv ! p))" "m_name (f (heap srv ! p)) = m_name (heap srv ! p)"
    and "t_mutex (f (heap srv ! p)) = Some (me c)"
  shows "conn_ok (at_table p f srv, c\<lparr>locked_tables := locked_tables c @ [p]\<rparr>)"
  using conn_okD [OF assms(1)] assms(2-)
  by (intro conn_okI server_wf_at_table tables_ok_at_table) auto

lemma conn_ok_release:
  assumes ok: "conn_ok (srv, c)"
    and f: "\<And>t. m_name (f t) = m_name t" "\<And>t. table_ok t \<Longrightarrow> table_ok ((f t)\<lparr>t_mutex := None\<rparr>)"
  shows "conn_ok (release_all f (locked_tables c) srv, c\<lparr>locked_tables := [], in_transaction := False\<rparr>)"
proof -
  let ?srv = "release_all f (locked_tables c) srv"
  note D = conn_okD [OF ok]
  have nth: "heap ?srv ! q =
      (if q \<in> set (locked_tables c) then (f (heap srv ! q))\<lparr>t_mutex := None\<rparr> else heap srv ! q)" for q
    by (rule release_all_nth [OF D(3)]) (use D(4) in blast)
  have tables: "list_all table_ok (heap ?srv)"
    using D(8) f(2) by (simp add: list_all_length nth)
  have names: "m_name (heap ?srv ! q) = m_name (heap srv ! q)" for q
    by (simp add: nth f(1))
  have "list_all table_wf (heap ?srv)"
    using tables by (rule list.pred_mono_strong) (simp add: table_ok_def)
  then have "server_wf ?srv"
    using D(1) by (simp add: server_wf_def names)
  moreover have "q < length (heap ?srv) \<Longrightarrow> t_mutex (heap ?srv ! q) \<noteq> Some (me c)" for q
    using D(4) [of q] by (simp add: nth)
  ultimately show ?thesis
    using D tables by (intro conn_okI) auto
qed

lemma conn_ok_aborted: "conn_ok w \<Longrightarrow> conn_ok (aborted w)"
  by (cases w) (simp add: aborted_def conn_ok_release table_frame table_ok_rollback)

lemma conn_ok_create:
  assumes ok: "conn_ok (srv, c)" and new: "find_table name srv = None"
  shows "conn_ok (snd (create_table name srv), c)"
proof -
  let ?srv = "snd (create_table name srv)"
  note D = conn_okD [OF ok]
  have "server_wf ?srv"
    using create_table_wf [OF D(1) new, of "fst (create_table name srv)" ?srv] by simp
  moreover have "heap ?srv = heap srv @ [Table_new name]" "s_mutex ?srv = s_mutex srv"
    by (simp_all add: create_table_run)
  ultimately show ?thesis
    using D by (intro conn_okI) (auto simp: nth_append table_ok_new less_Suc_eq)
qed

section \<open>The contract of a handler\<close>

text \<open>The parts of the connection that no request changes.\<close>

definition same_io :: "ClientConnection \<Rightarrow> ClientConnection \<Rightarrow> bool" where
  "same_io c c' \<longleftrightarrow>
     me c' = me c \<and> m_client_fd c' = m_client_fd c \<and> m_fdbuf c' = m_fdbuf c \<and>
     incoming c' = incoming c \<and> first_valid_message c' = first_valid_message c \<and>
     client_msg c' = client_msg c \<and> fd_closed c' = fd_closed c"

definition step_ok :: "world \<Rightarrow> world \<Rightarrow> bool" where
  "step_ok w w' \<longleftrightarrow>
     conn_ok w' \<and> guar (me (snd w)) (fst w) (fst w') \<and> same_io (snd w) (snd w')"

text \<open>
  A handler that returns has sent one line; one that raises has sent none and raises
  something that \<open>call_response_function\<close> answers, or the range error of
  \<open>std::stoi\<close>; one that waits has done nothing yet.
\<close>

definition handler_ok :: "world \<Rightarrow> unit res \<times> world \<Rightarrow> bool" where
  "handler_ok w out \<longleftrightarrow>
     (case out of
        (Ret u, w') \<Rightarrow> step_ok w w' \<and> (\<exists>l. written (snd w') = written (snd w) @ [l])
      | (Throw e, w') \<Rightarrow> step_ok w w' \<and> written (snd w') = written (snd w) \<and>
          (e = Out_of_range ''stoi'' \<or>
           is_runtime_error e \<and> \<not> is_InvalidMessage e \<and> length (what e) \<le> 1000)
      | (Fault u, w') \<Rightarrow> u = Signed_overflow \<or> u = Division_trap
      | (Block, w') \<Rightarrow> w' = w)"

lemma handler_ok_ret:
  assumes "conn_ok (srv', c')" "guar (me c) srv srv'" "same_io c c'" "written c' = written c"
  shows "handler_ok (srv, c) (Ret (), (srv', answer l c'))"
  using assms by (simp add: handler_ok_def step_ok_def conn_ok_answer) (simp add: same_io_def answer_def)

lemma handler_ok_throw:
  assumes "conn_ok (srv, c)" "is_runtime_error e" "\<not> is_InvalidMessage e" "length (what e) \<le> 1000"
  shows "handler_ok (srv, c) (Throw e, (srv, c))"
  using assms by (simp add: handler_ok_def step_ok_def guar_refl same_io_def)

lemma handler_ok_block: "handler_ok w (Block, w)"
  by (simp add: handler_ok_def)

lemma conn_ok_stack:
  "conn_ok (srv, c) \<Longrightarrow> list_all value_ok vs \<Longrightarrow> conn_ok (srv, c\<lparr>stack := vs\<rparr>)"
  by (rule conn_ok_conn) simp_all

lemma handler_ok_stack:
  assumes "conn_ok (srv, c)" "list_all value_ok vs"
  shows "handler_ok (srv, c) (Ret (), (srv, answer l (c\<lparr>stack := vs\<rparr>)))"
  using assms by (intro handler_ok_ret conn_ok_stack) (simp_all add: guar_refl same_io_def)

subsection \<open>Stack requests\<close>

lemma handle_push_ok:
  assumes "conn_ok (srv, c)" "m_args msg = [v]" "value_ok v"
  shows "handler_ok (srv, c) (handle_push msg (srv, c))"
  using assms conn_okD(7) [OF assms(1)] by (simp add: handle_push_run handler_ok_stack)

lemma handle_pop_ok: "conn_ok (srv, c) \<Longrightarrow> handler_ok (srv, c) (handle_pop (srv, c))"
  using conn_okD(7) [of srv c]
  by (auto simp: handle_pop_run split: list.splits intro!: handler_ok_stack handler_ok_throw)

lemma handle_top_ok:
  assumes "conn_ok (srv, c)"
  shows "handler_ok (srv, c) (handle_top (srv, c))"
proof (cases "stack c")
  case Nil
  with assms show ?thesis by (simp add: handle_top_run handler_ok_throw)
next
  case (Cons v vs)
  then have "length v \<le> 1018"
    using conn_okD(7) [OF assms] by (simp add: value_ok_def)
  with Cons assms show ?thesis
    by (simp add: handle_top_run handler_ok_ret guar_refl same_io_def)
qed

lemma value_ok_to_string: "in_int i \<Longrightarrow> value_ok (to_string i)"
  using to_string_length [of i] by (simp add: value_ok_def to_string_nonempty to_string_word)

text \<open>What the functions behind the arithmetic requests can give.\<close>

lemma arith_fun_result:
  assumes "arith_fun t = Some (txt, f)" "in_int i" "in_int j"
  shows "(\<exists>v. f i j = Ret v \<and> in_int v) \<or> f i j = Fault Signed_overflow \<or> f i j = Fault Division_trap"
proof -
  have "f = cxx_div \<or> (\<exists>g. f = (\<lambda>l r. int_result (g l r)))"
    using assms(1) by (cases t) auto
  then show ?thesis
  proof
    assume f: "f = cxx_div"
    then show ?thesis
      using cxx_div_range [OF _ assms(2), of j] by (auto simp: cxx_div_def)
  next
    assume "\<exists>g. f = (\<lambda>l r. int_result (g l r))"
    then obtain g where "f i j = int_result (g i j)" by metis
    then show ?thesis by (simp add: int_result_def)
  qed
qed

lemma arith_text:
  "arith_fun t = Some (txt, f) \<Longrightarrow> length txt \<le> 1000"
  by (cases t) auto

lemma conversion_error_class:
  "is_runtime_error conversion_error" "\<not> is_InvalidMessage conversion_error"
  "length (what conversion_error) \<le> 1000"
  by (simp_all add: conversion_error_def)

lemma stoi_ThrowD:
  "stoi s = Throw e \<Longrightarrow> e = Invalid_argument ''stoi'' \<or> e = Out_of_range ''stoi''"
  using stoi_cases [of s] by auto

lemma handler_ok_raise_stack:
  assumes "conn_ok (srv, c)" "list_all value_ok vs" "e = conversion_error \<or> e = Out_of_range ''stoi''"
  shows "handler_ok (srv, c) (Throw e, (srv, c\<lparr>stack := vs\<rparr>))"
  using assms conn_ok_stack [OF assms(1,2)]
  by (auto simp: handler_ok_def step_ok_def guar_refl same_io_def conversion_error_class)

lemma arith_handler_ok:
  assumes ok: "conn_ok (srv, c)" and f: "arith_fun t = Some (txt, f)"
  shows "handler_ok (srv, c) (arith_handler txt f (srv, c))"
proof (cases "2 \<le> get_size (stack c)")
  case False
  then show ?thesis
    using ok arith_text [OF f] by (simp add: arith_short handler_ok_throw)
next
  case True
  obtain r l rest where st: "stack c = r # l # rest"
    using get_size_2 [OF True] by blast
  have vals: "list_all value_ok (r # l # rest)"
    using conn_okD(7) [OF ok] st by simp
  note raise = handler_ok_raise_stack [OF ok]
  show ?thesis
  proof (cases "stoi r")
    case (Throw e)
    then have "arith_handler txt f (srv, c) =
        (Throw (if is_Invalid_argument e then conversion_error else e), (srv, c\<lparr>stack := stack c\<rparr>))"
      using st True by (simp add: arith_right_bad)
    then show ?thesis
      using raise [of "stack c"] stoi_ThrowD [OF Throw] vals st by auto
  next
    case (Ret i)
    show ?thesis
    proof (cases "stoi l")
      case (Throw e)
      then show ?thesis
        using stoi_ThrowD [OF Throw] vals value_ok_to_string [OF stoi_range [OF Ret]]
        by (auto simp: arith_left_bad [OF st True Ret] intro!: raise)
    next
      case (Ret j)
      then have "in_int j" "in_int i"
        using \<open>stoi r = Ret i\<close> stoi_range by blast+
      from arith_fun_result [OF f this] Ret show ?thesis
        using vals value_ok_to_string
        by (auto simp: arith_operands [OF st True \<open>stoi r = Ret i\<close>] handler_ok_def [of _ "(Fault u, w)" for u w]
            intro!: handler_ok_stack [OF ok])
    qed (use stoi_cases [of l] in auto)
  qed (use stoi_cases [of r] in auto)
qed

subsection \<open>Transactions and tables\<close>

lemma handle_begin_ok:
  assumes "conn_ok (srv, c)"
  shows "handler_ok (srv, c) (handle_begin (srv, c))"
proof (cases "in_transaction c")
  case True
  with assms show ?thesis by (simp add: handle_begin_run handler_ok_throw)
next
  case False
  have "conn_ok (srv, c\<lparr>in_transaction := True\<rparr>)"
    using assms by (rule conn_ok_conn) (use conn_okD(7) [OF assms] in simp_all)
  with False show ?thesis
    by (simp add: handle_begin_run handler_ok_ret guar_refl same_io_def)
qed

lemma handle_commit_ok:
  assumes "conn_ok (srv, c)"
  shows "handler_ok (srv, c) (handle_commit (srv, c))"
proof (cases "in_transaction c")
  case False
  with assms show ?thesis
    by (simp add: handle_commit_run [OF conn_ok_owns] handler_ok_throw)
next
  case True
  have "conn_ok (release_all commit_changes (locked_tables c) srv,
      c\<lparr>locked_tables := [], in_transaction := False\<rparr>)"
    by (rule conn_ok_release [OF assms]) (simp_all add: table_frame table_ok_commit)
  with True show ?thesis
    by (simp add: handle_commit_run [OF conn_ok_owns [OF assms]] handler_ok_ret
        guar_release [OF conn_ok_owns [OF assms]] same_io_def)
qed

lemma handle_create_ok:
  assumes ok: "conn_ok (srv, c)" and msg: "m_args msg = [name]"
  shows "handler_ok (srv, c) (handle_create msg (srv, c))"
proof (cases "find_table name srv")
  case None
  let ?srv = "srv\<lparr>mutex_is_locked := False\<rparr>"
  have none: "find_table name ?srv = None"
    using None by (simp add: find_table_map_of)
  have "guar (me c) srv (snd (create_table name ?srv))"
    by (rule guar_trans [OF guar_flag guar_create [OF none]])
  moreover have "conn_ok (snd (create_table name ?srv), c)"
    by (rule conn_ok_create [OF conn_ok_flag [OF ok] none])
  ultimately show ?thesis
    using None by (simp add: handle_create_run [OF msg conn_okD(2) [OF ok]] handler_ok_ret same_io_def)
next
  case (Some p)
  then show ?thesis
    using conn_ok_flag [OF ok, of False]
    by (simp add: handle_create_run [OF msg conn_okD(2) [OF ok]] handler_ok_def step_ok_def guar_flag
        same_io_def)
qed

lemma handle_bye_ok:
  assumes "conn_ok (srv, c)"
  shows "handler_ok (srv, c) (handle_bye (srv, c))"
proof -
  have "conn_ok (srv, c\<lparr>loop_in_progress := False\<rparr>)"
    using assms by (rule conn_ok_conn) (use conn_okD(7) [OF assms] in simp_all)
  then show ?thesis
    by (simp add: handle_bye_def run_simps handler_ok_ret guar_refl same_io_def)
qed

text \<open>The table of a request is free, held by this thread, or held by another one.\<close>

lemma table_cases [consumes 2, case_names free mine other]:
  assumes "conn_ok (srv, c)" "p < length (heap srv)"
  obtains (free) "t_mutex (heap srv ! p) = None" "p \<notin> set (locked_tables c)"
  | (mine) "t_mutex (heap srv ! p) = Some (me c)" "p \<in> set (locked_tables c)" "in_transaction c"
  | (other) u where "t_mutex (heap srv ! p) = Some u" "u \<noteq> me c" "p \<notin> set (locked_tables c)"
proof (cases "t_mutex (heap srv ! p)")
  case None
  then show ?thesis using that(1) conn_ok_held [OF assms] by simp
next
  case (Some u)
  show ?thesis
  proof (cases "u = me c")
    case True
    then have "p \<in> set (locked_tables c)"
      using Some conn_ok_held [OF assms] by simp
    moreover from this have "in_transaction c"
      using conn_ok_unlocked [OF assms(1)] by fastforce
    ultimately show ?thesis
      using that(2) True Some by simp
  next
    case False
    then show ?thesis using that(3) Some conn_ok_held [OF assms] by simp
  qed
qed

lemma handle_set_ok:
  assumes ok: "conn_ok (srv, c)" and msg: "m_args msg = [name, key]"
  shows "handler_ok (srv, c) (handle_set msg (srv, c))"
proof (cases "1 \<le> get_size (stack c)")
  case False
  then show ?thesis by (simp add: handle_set_empty handler_ok_throw [OF ok])
next
  case size: True
  obtain v vs where st: "stack c = v # vs" using get_size_1 [OF size] by blast
  have vals: "value_ok v" "list_all value_ok vs" using conn_okD(7) [OF ok] st by simp_all
  note s = msg st size
  show ?thesis
  proof (cases "find_table name srv")
    case None
    then show ?thesis by (simp add: handle_set_table [OF s] handler_ok_throw [OF ok])
  next
    case p: (Some p)
    have pl: "p < length (heap srv)" using p conn_okD(1) [OF ok] find_table_valid by blast
    have t: "table_ok (heap srv ! p)" using conn_okD(8) [OF ok pl] .
    from ok pl show ?thesis
    proof (cases rule: table_cases)
      case free
      show ?thesis
      proof (cases "in_transaction c")
        case tx: True
        have "conn_ok (at_table p (\<lambda>t. table_set key v (t\<lparr>t_mutex := Some (me c)\<rparr>)) srv,
            c\<lparr>locked_tables := locked_tables c @ [p]\<rparr>)"
          using t vals
          by (intro conn_ok_acquire [OF ok tx pl free(1)] table_ok_set table_ok_lock)
            (simp_all add: table_frame)
        from conn_ok_stack [OF this vals(2)] show ?thesis
          using pl free vals
          by (auto simp: handle_set_acquire [OF s p pl tx free(2,1)] same_io_def table_frame
              intro!: handler_ok_ret guar_at_table)
      next
        case tx: False
        have "conn_ok (at_table p (\<lambda>t. commit_changes (table_set key v t)) srv, c)"
          using t vals free(1)
          by (intro conn_ok_at_table [OF ok pl] table_ok_set_commit) (simp_all add: table_frame)
        from conn_ok_stack [OF this vals(2)] show ?thesis
          using pl free
          by (auto simp: handle_set_now [OF s p pl tx free(1)] same_io_def table_frame
              intro!: handler_ok_ret guar_at_table)
      qed
    next
      case mine
      have "conn_ok (at_table p (table_set key v) srv, c)"
        using t vals mine
        by (intro conn_ok_at_table [OF ok pl] table_ok_set) (simp_all add: table_frame)
      from conn_ok_stack [OF this vals(2)] show ?thesis
        using pl mine
        by (auto simp: handle_set_held [OF s p pl mine(3,2)] same_io_def table_frame
            intro!: handler_ok_ret guar_at_table)
    next
      case (other u)
      then show ?thesis
        by (cases "in_transaction c")
          (simp_all add: handle_set_refused [OF s p pl] handle_set_wait [OF s p pl] handler_ok_throw [OF ok]
            handler_ok_block)
    qed
  qed
qed

text \<open>
  The one case that \<open>GET\<close> does not survive: the table is free or already held, and
  does not have the key.
\<close>

definition get_breaks :: "Message \<Rightarrow> world \<Rightarrow> bool" where
  "get_breaks msg w \<longleftrightarrow>
     m_message_type msg = GET \<and>
     (case find_table (m_args msg ! 0) (fst w) of
        None \<Rightarrow> False
      | Some p \<Rightarrow> t_mutex (heap (fst w) ! p) \<in> {None, Some (me (snd w))} \<and>
                  \<not> has_key (m_args msg ! 1) (heap (fst w) ! p))"

lemma handle_get_ok:
  assumes ok: "conn_ok (srv, c)" and msg: "m_args msg = [name, key]" "m_message_type msg = GET"
    and nb: "\<not> get_breaks msg (srv, c)"
  shows "handler_ok (srv, c) (handle_get msg (srv, c))"
proof (cases "find_table name srv")
  case None
  then show ?thesis by (simp add: handle_get_table [OF msg(1)] handler_ok_throw [OF ok])
next
  case p: (Some p)
  have pl: "p < length (heap srv)" using p conn_okD(1) [OF ok] find_table_valid by blast
  have t: "table_ok (heap srv ! p)" using conn_okD(8) [OF ok pl] .
  have val: "\<exists>v. table_get key (heap srv ! p) = Ret v \<and> list_all value_ok (v # stack c)"
    if "t_mutex (heap srv ! p) \<in> {None, Some (me c)}"
  proof -
    have "has_key key (heap srv ! p)" using nb p that msg by (auto simp: get_breaks_def)
    then obtain v where "table_get key (heap srv ! p) = Ret v" using ts.present_read by blast
    with table_get_values [OF t] conn_okD(7) [OF ok] show ?thesis by auto
  qed
  from ok pl show ?thesis
  proof (cases rule: table_cases)
    case free
    obtain v where v: "table_get key (heap srv ! p) = Ret v" "list_all value_ok (v # stack c)"
      using val free by auto
    show ?thesis
    proof (cases "in_transaction c")
      case tx: True
      have "conn_ok (at_table p (t_mutex_update (\<lambda>_. Some (me c))) srv,
          c\<lparr>locked_tables := locked_tables c @ [p]\<rparr>)"
        using t by (intro conn_ok_acquire [OF ok tx pl free(1)] table_ok_lock) simp_all
      from conn_ok_stack [OF this v(2)] show ?thesis
        using pl free
        by (auto simp: handle_get_acquire [OF msg(1) p pl tx free(2,1) v(1)] same_io_def
            intro!: handler_ok_ret guar_at_table)
    next
      case False
      then show ?thesis
        by (simp add: handle_get_now [OF msg(1) p pl _ free(1) v(1)] handler_ok_stack [OF ok v(2)])
    qed
  next
    case mine
    obtain v where v: "table_get key (heap srv ! p) = Ret v" "list_all value_ok (v # stack c)"
      using val mine by auto
    then show ?thesis
      by (simp add: handle_get_held [OF msg(1) p pl mine(3,2) v(1)] handler_ok_stack [OF ok v(2)])
  next
    case (other u)
    then show ?thesis
      by (cases "in_transaction c")
        (simp_all add: handle_get_refused [OF msg(1) p pl] handle_get_wait [OF msg(1) p pl]
          handler_ok_throw [OF ok] handler_ok_block)
  qed
qed

section \<open>The contract of a request\<close>

text \<open>A request as \<open>decode\<close> delivers it: in order with the protocol, a pushed value a short word.\<close>

definition request_ok :: "Message \<Rightarrow> bool" where
  "request_ok msg \<longleftrightarrow>
     protocol_ok msg \<and> (m_message_type msg = PUSH \<longrightarrow> list_all value_ok (m_args msg))"

lemma request_args:
  assumes "request_ok msg"
  shows "m_message_type msg \<in> {CREATE, PUSH} \<Longrightarrow> \<exists>a. m_args msg = [a]"
    and "m_message_type msg \<in> {SET, GET} \<Longrightarrow> \<exists>a b. m_args msg = [a, b]"
    and "m_message_type msg = PUSH \<Longrightarrow> m_args msg = [a] \<Longrightarrow> value_ok a"
  using assms
  by (auto simp: request_ok_def protocol_ok_def length_Suc_conv numeral_2_eq_2)

lemma dispatch_ok:
  assumes ok: "conn_ok (srv, c)" and msg: "request_ok msg" and nb: "\<not> get_breaks msg (srv, c)"
  shows "handler_ok (srv, c) (dispatch msg (srv, c))"
proof -
  note args = request_args [OF msg]
  have other: "handler_ok (srv, c)
      (throw (OperationException ''Please only enter standardized requests.'') (srv, c))"
    by (simp add: run_simps handler_ok_throw [OF ok])
  note d = dispatch_def get_message_type_def
  show ?thesis
  proof (cases "arith_fun (m_message_type msg)")
    case (Some tf)
    then show ?thesis
      using dispatch_arith [of msg "fst tf" "snd tf"]
        arith_handler_ok [OF ok, of "m_message_type msg" "fst tf" "snd tf"] by simp
  next
    case None
    show ?thesis
    proof (cases "m_message_type msg")
      case CREATE
      then show ?thesis using args(1) handle_create_ok [OF ok] by (auto simp: d)
    next
      case PUSH
      then show ?thesis using args(1,3) handle_push_ok [OF ok] by (auto simp: d)
    next
      case SET
      then show ?thesis using args(2) handle_set_ok [OF ok] by (auto simp: d)
    next
      case GET
      then show ?thesis using args(2) handle_get_ok [OF ok _ GET nb] by (auto simp: d)
    qed (use None ok other in \<open>simp_all add: d handle_begin_ok handle_commit_ok handle_pop_ok
        handle_top_ok handle_bye_ok\<close>)
  qed
qed

definition response_ok :: "world \<Rightarrow> unit res \<times> world \<Rightarrow> bool" where
  "response_ok w out \<longleftrightarrow>
     (case out of
        (Ret u, w') \<Rightarrow> step_ok w w' \<and> (\<exists>l. written (snd w') = written (snd w) @ [l])
      | (Throw e, w') \<Rightarrow> e = Out_of_range ''stoi''
      | (Fault u, w') \<Rightarrow> u = Signed_overflow \<or> u = Division_trap
      | (Block, w') \<Rightarrow> w' = w)"

lemma same_io_trans: "same_io a b \<Longrightarrow> same_io b c \<Longrightarrow> same_io a c"
  by (simp add: same_io_def)

lemma step_ok_aborted:
  assumes "step_ok (srv, c) (srv', c')"
  shows "step_ok (srv, c) (fst (aborted (srv', c')), answer l (snd (aborted (srv', c'))))"
proof -
  have ok: "conn_ok (srv', c')" and g: "guar (me c) srv srv'" and io: "same_io c c'"
    using assms by (simp_all add: step_ok_def)
  have "conn_ok (fst (aborted (srv', c')), snd (aborted (srv', c')))"
    using conn_ok_aborted [OF ok] by simp
  then have "conn_ok (fst (aborted (srv', c')), answer l (snd (aborted (srv', c'))))"
    by (rule conn_ok_answer)
  moreover have "guar (me c) srv (fst (aborted (srv', c')))"
    using guar_trans [OF g] guar_release [OF conn_ok_owns [OF ok], of "me c" rollback_changes] io
    by (simp add: aborted_def same_io_def)
  moreover have "same_io c (answer l (snd (aborted (srv', c'))))"
    by (rule same_io_trans [OF io]) (simp add: same_io_def aborted_def answer_def)
  ultimately show ?thesis by (simp add: step_ok_def)
qed

lemma response_ok:
  assumes ok: "conn_ok (srv, c)" and msg: "request_ok msg" and nb: "\<not> get_breaks msg (srv, c)"
  shows "response_ok (srv, c) (call_response_function msg (srv, c))"
proof -
  obtain r srv' c' where run: "dispatch msg (srv, c) = (r, (srv', c'))"
    by (metis prod.exhaust)
  have h: "handler_ok (srv, c) (r, (srv', c'))"
    using dispatch_ok [OF assms] run by simp
  show ?thesis
  proof (cases r)
    case (Throw e)
    show ?thesis
    proof (cases "e = Out_of_range ''stoi''")
      case True
      then show ?thesis
        using run Throw by (simp add: call_response_escapes response_ok_def)
    next
      case False
      with h Throw have e: "is_runtime_error e" "\<not> is_InvalidMessage e" "length (what e) \<le> 1000"
        and st: "step_ok (srv, c) (srv', c')" "written c' = written c"
        by (auto simp: handler_ok_def)
      have "call_response_function msg (srv, c) = failed_with (what e) (srv', c')"
        using call_response_failed [of msg "(srv, c)" e srv' c'] run Throw e st
        by (simp add: step_ok_def)
      moreover have "written (snd (aborted (srv', c'))) = written c'"
        by (simp add: aborted_def)
      ultimately show ?thesis
        using step_ok_aborted [OF st(1)] st(2)
        by (simp add: failed_with_def response_ok_def split_beta)
    qed
  qed (use h run in \<open>simp_all add: call_response_done response_ok_def handler_ok_def\<close>)
qed

lemma get_breaks_faults:
  assumes ok: "conn_ok (srv, c)" and msg: "request_ok msg" and b: "get_breaks msg (srv, c)"
  shows "\<exists>w. call_response_function msg (srv, c) = (Fault Mutex_not_owned, w)"
proof -
  have t: "m_message_type msg = GET" using b by (simp add: get_breaks_def)
  then obtain name key where args: "m_args msg = [name, key]"
    using request_args(2) [OF msg] by blast
  obtain p where "find_table name srv = Some p" "t_mutex (heap srv ! p) \<in> {None, Some (me c)}"
    "\<not> has_key key (heap srv ! p)"
    using b args by (auto simp: get_breaks_def split: option.splits)
  then show ?thesis by (rule get_absent_response [OF t args ok])
qed

section \<open>New connections\<close>

text \<open>A server all of whose tables are in order and whose own mutex is free.\<close>

definition server_ok :: "Server \<Rightarrow> bool" where
  "server_ok srv \<longleftrightarrow> server_wf srv \<and> s_mutex srv = None \<and> list_all table_ok (heap srv)"

lemma conn_ok_server_ok: "conn_ok (srv, c) \<Longrightarrow> server_ok srv"
  by (simp add: conn_ok_def server_ok_def)

lemma server_ok_new: "server_ok (Server_new g)"
  using server_wf_new [of g] by (simp add: server_ok_def) (simp add: Server_new_def mutex_init_def)

lemma ClientConnection_new_fields [simp]:
  "me (ClientConnection_new t fd g inp) = t" "locked_tables (ClientConnection_new t fd g inp) = []"
  "in_transaction (ClientConnection_new t fd g inp) = False" "stack (ClientConnection_new t fd g inp) = []"
  "written (ClientConnection_new t fd g inp) = []" "loop_in_progress (ClientConnection_new t fd g inp)"
  "first_valid_message (ClientConnection_new t fd g inp)" "incoming (ClientConnection_new t fd g inp) = inp"
  "m_fdbuf (ClientConnection_new t fd g inp) = rio_readinitb fd g"
  by (simp_all add: ClientConnection_new_def ValueStack_new_def)

lemma conn_ok_new:
  assumes "server_ok srv" "\<And>p. p < length (heap srv) \<Longrightarrow> t_mutex (heap srv ! p) \<noteq> Some t"
  shows "conn_ok (srv, ClientConnection_new t fd g inp)"
  using assms by (intro conn_okI) (auto simp: server_ok_def)

section \<open>An example\<close>

text \<open>A server with one table, and a client that has logged in.\<close>

definition example_server :: Server where
  "example_server = snd (create_table ''fruit'' (Server_new False))"

definition example_conn :: ClientConnection where
  "example_conn = (ClientConnection_new 1 4 example_rio [])\<lparr>first_valid_message := False\<rparr>"

lemma example_ok: "conn_ok (example_server, example_conn)"
proof -
  have "conn_ok (Server_new False, ClientConnection_new 1 4 example_rio [])"
    by (rule conn_ok_new [OF server_ok_new]) (simp add: Server_new_def)
  then have "conn_ok (example_server, ClientConnection_new 1 4 example_rio [])"
    unfolding example_server_def by (rule conn_ok_create) (simp add: Server_new_def find_table_map_of)
  then show ?thesis
    unfolding example_conn_def by (rule conn_ok_conn) simp_all
qed

lemma example_fields [simp]:
  "in_transaction example_conn = False" "stack example_conn = []" "written example_conn = []"
  "me example_conn = 1" "locked_tables example_conn = []"
  by (simp_all add: example_conn_def)

lemma example_find [simp]: "find_table ''fruit'' example_server = Some 0"
  by (simp add: example_server_def create_table_run find_table_map_of um.lookup_assign Server_new_def)

lemma example_heap [simp]: "heap example_server = [Table_new ''fruit'']"
  by (simp add: example_server_def create_table_run Server_new_def)

end
