(* ===== verification/Requests.thy ===== *)
theory Requests
  imports Request_Invariants
begin

text \<open>
  The properties of single requests and of the sequences of requests that make up a
  transaction, stated on \<open>call_response_function\<close>.
\<close>

section \<open>Running several requests\<close>

definition serve_all :: "Message list \<Rightarrow> (world, unit) xcmd" where
  "serve_all msgs = for_each call_response_function msgs"

lemma serve_all_snoc:
  "serve_all ms w = (Ret (), w') \<Longrightarrow> serve_all (ms @ ks) w = serve_all ks w'"
  by (simp add: serve_all_def for_each_append seq_cmd_run)

lemma serve_all_cons:
  "call_response_function m w = (Ret (), w') \<Longrightarrow> serve_all (m # ms) w = serve_all ms w'"
  by (simp add: serve_all_def seq_cmd_run)

lemma serve_all_nil [simp]: "serve_all [] w = (Ret (), w)"
  by (simp add: serve_all_def run_simps)

text \<open>The requests by which a client writes values to tables, and what it writes to one of them.\<close>

definition write_requests :: "(string \<times> string \<times> string) list \<Rightarrow> Message list" where
  "write_requests ws = concat (map (\<lambda>(t, k, v). [Message_new PUSH [v], Message_new SET [t, k]]) ws)"

definition writes_to :: "string \<Rightarrow> (string \<times> string \<times> string) list \<Rightarrow> (string \<times> string) list" where
  "writes_to t ws = map snd (filter (\<lambda>w. fst w = t) ws)"

lemma write_requests_snoc:
  "write_requests (ws @ [(t, k, v)]) = write_requests ws @ [Message_new PUSH [v], Message_new SET [t, k]]"
  by (simp add: write_requests_def)

lemma push_response:
  "call_response_function (Message_new PUSH [v]) (srv, c) =
     (Ret (), (srv, answer ok_line (c\<lparr>stack := v # stack c\<rparr>)))"
  by (rule call_response_done)
    (simp_all add: dispatch_def get_message_type_def Message_new_def handle_push_run)

section \<open>Inside a transaction\<close>

text \<open>
  The state of a transaction that has written \<open>ws\<close> so far: nothing is committed,
  every table written to is locked by this thread, and its proposals are the old ones
  overridden by the writes. \<open>tables\<close> are the names whose tables were free at the start.
\<close>

definition in_progress :: "(string \<times> string \<times> string) list \<Rightarrow> world \<Rightarrow> world \<Rightarrow> bool" where
  "in_progress ws w0 w \<longleftrightarrow>
     conn_ok w \<and> in_transaction (snd w) \<and> me (snd w) = me (snd w0) \<and> stack (snd w) = stack (snd w0) \<and>
     written (snd w) = written (snd w0) @ replicate (2 * length ws) ok_line \<and>
     length (heap (fst w)) = length (heap (fst w0)) \<and>
     (\<forall>name. find_table name (fst w) = find_table name (fst w0)) \<and>
     (\<forall>name p. find_table name (fst w0) = Some p \<longrightarrow>
        committed (heap (fst w) ! p) = committed (heap (fst w0) ! p) \<and>
        proposed (heap (fst w) ! p) = proposed (heap (fst w0) ! p) ++ map_of (rev (writes_to name ws)) \<and>
        (writes_to name ws = [] \<longrightarrow> heap (fst w) ! p = heap (fst w0) ! p) \<and>
        (writes_to name ws \<noteq> [] \<longrightarrow> t_mutex (heap (fst w) ! p) = Some (me (snd w0))))"

lemma set_commutes_mutex:
  "committed (table_set k v (t\<lparr>t_mutex := m\<rparr>)) = committed t"
  "proposed (table_set k v (t\<lparr>t_mutex := m\<rparr>)) = (proposed t)(k \<mapsto> v)"
  "t_mutex (table_set k v (t\<lparr>t_mutex := m\<rparr>)) = m"
  by (simp_all add: table_set_def committed_def proposed_def um.lookup_assign)

text \<open>A \<open>SET\<close> in a transaction on a table that is free or held by the thread itself.\<close>

lemma set_in_transaction:
  assumes ok: "conn_ok (srv, c)" and tx: "in_transaction c" and st: "stack c = v # vs"
    and size: "1 \<le> get_size (stack c)" and p: "find_table name srv = Some p"
    and free: "t_mutex (heap srv ! p) \<in> {None, Some (me c)}"
  obtains srv' ps where
    "call_response_function (Message_new SET [name, key]) (srv, c) =
       (Ret (), (srv', answer ok_line (c\<lparr>stack := vs, locked_tables := ps\<rparr>)))"
    "srv' = at_table p (\<lambda>t. table_set key v (t\<lparr>t_mutex := Some (me c)\<rparr>)) srv"
    "conn_ok (srv', answer ok_line (c\<lparr>stack := vs, locked_tables := ps\<rparr>))"
proof -
  let ?m = "Message_new SET [name, key]"
  have args: "m_args ?m = [name, key]" by (simp add: Message_new_def)
  have pl: "p < length (heap srv)" using p conn_okD(1) [OF ok] find_table_valid by blast
  have d: "dispatch ?m = handle_set ?m"
    by (simp add: dispatch_def get_message_type_def Message_new_def)
  note s = args st size p pl tx
  have "\<exists>ps. handle_set ?m (srv, c) =
      (Ret (), (at_table p (\<lambda>t. table_set key v (t\<lparr>t_mutex := Some (me c)\<rparr>)) srv,
        answer ok_line (c\<lparr>stack := vs, locked_tables := ps\<rparr>)))"
  proof (cases "t_mutex (heap srv ! p) = None")
    case True
    then have "p \<notin> set (locked_tables c)" using conn_ok_held [OF ok pl] by simp
    then show ?thesis
      using handle_set_acquire [OF s _ True]
      by (intro exI [of _ "locked_tables c @ [p]"]) (simp add: answer_def)
  next
    case False
    then have held: "t_mutex (heap srv ! p) = Some (me c)" using free by auto
    then have "p \<in> set (locked_tables c)" using conn_ok_held [OF ok pl] by simp
    moreover have "(heap srv ! p)\<lparr>t_mutex := Some (me c)\<rparr> = heap srv ! p"
      using held by (cases "heap srv ! p") simp
    ultimately show ?thesis
      using handle_set_held [OF s, of] by (intro exI [of _ "locked_tables c"])
        (simp add: at_table_def)
  qed
  then obtain ps where run: "handle_set ?m (srv, c) =
      (Ret (), (at_table p (\<lambda>t. table_set key v (t\<lparr>t_mutex := Some (me c)\<rparr>)) srv,
        answer ok_line (c\<lparr>stack := vs, locked_tables := ps\<rparr>)))" by blast
  with handle_set_ok [OF ok args] call_response_done [of ?m, unfolded d, OF run] that
  show thesis by (simp add: handler_ok_def step_ok_def)
qed

lemma in_progress_start:
  "conn_ok w \<Longrightarrow> in_transaction (snd w) \<Longrightarrow> in_progress [] w w"
  by (simp add: in_progress_def writes_to_def)

lemma in_progressD:
  assumes "in_progress ws w0 (srv, c)"
  shows "conn_ok (srv, c)" "in_transaction c" "me c = me (snd w0)" "stack c = stack (snd w0)"
    and "written c = written (snd w0) @ replicate (2 * length ws) ok_line"
    and "length (heap srv) = length (heap (fst w0))"
    and "find_table name srv = find_table name (fst w0)"
    and "find_table name (fst w0) = Some p \<Longrightarrow> committed (heap srv ! p) = committed (heap (fst w0) ! p)"
    and "find_table name (fst w0) = Some p \<Longrightarrow> proposed (heap srv ! p) =
           proposed (heap (fst w0) ! p) ++ map_of (rev (writes_to name ws))"
    and "find_table name (fst w0) = Some p \<Longrightarrow> writes_to name ws = [] \<Longrightarrow> heap srv ! p = heap (fst w0) ! p"
    and "find_table name (fst w0) = Some p \<Longrightarrow> writes_to name ws \<noteq> [] \<Longrightarrow>
           t_mutex (heap srv ! p) = Some (me (snd w0))"
  using assms unfolding in_progress_def by auto

text \<open>A table that the transaction may use: it exists, and is free or held by this thread.\<close>

definition usable :: "world \<Rightarrow> string \<Rightarrow> bool" where
  "usable w name \<longleftrightarrow>
     (case find_table name (fst w) of
        None \<Rightarrow> False
      | Some p \<Rightarrow> t_mutex (heap (fst w) ! p) = None \<or> t_mutex (heap (fst w) ! p) = Some (me (snd w)))"

lemma in_progress_write:
  assumes inp: "in_progress ws w0 (srv, c)" and u: "usable w0 name"
    and v: "value_ok v" and size: "length (stack (snd w0)) < 2147483647"
  shows "\<exists>w. serve_all [Message_new PUSH [v], Message_new SET [name, key]] (srv, c) = (Ret (), w) \<and>
    in_progress (ws @ [(name, key, v)]) w0 w"
proof -
  note D = in_progressD [OF inp]
  let ?c1 = "answer ok_line (c\<lparr>stack := v # stack c\<rparr>)"
  have ok1: "conn_ok (srv, ?c1)"
    using conn_ok_stack [OF D(1), of "v # stack c"] conn_okD(7) [OF D(1)] v
    by (simp add: conn_ok_answer)
  obtain p where p0: "find_table name (fst w0) = Some p"
    and m0: "t_mutex (heap (fst w0) ! p) = None \<or> t_mutex (heap (fst w0) ! p) = Some (me (snd w0))"
    using u by (auto simp: usable_def split: option.splits)
  have p: "find_table name srv = Some p" using p0 D(7) by simp
  have pl: "p < length (heap srv)" using p conn_okD(1) [OF D(1)] find_table_valid by blast
  have free: "t_mutex (heap srv ! p) \<in> {None, Some (me ?c1)}"
    using m0 D(3) D(10,11) [OF p0] by (cases "writes_to name ws = []") auto
  have size1: "1 \<le> get_size (stack ?c1)"
    using size D(4) get_size_small [of "stack ?c1"] by simp
  let ?f = "\<lambda>t. table_set key v (t\<lparr>t_mutex := Some (me c)\<rparr>)"
  let ?c2 = "\<lambda>ps. answer ok_line (?c1\<lparr>stack := stack c, locked_tables := ps\<rparr>)"
  obtain ps where run: "call_response_function (Message_new SET [name, key]) (srv, ?c1) =
      (Ret (), (at_table p ?f srv, ?c2 ps))"
    and ok2: "conn_ok (at_table p ?f srv, ?c2 ps)"
    using set_in_transaction [OF ok1 _ _ size1 p free, of v "stack c" key] D(2) by auto
  have other: "q \<noteq> p" if "find_table n (fst w0) = Some q" "n \<noteq> name" for n q
    using find_table_inj [OF conn_okD(1) [OF D(1)], of n q name] that p D(7) by auto
  have w: "writes_to n (ws @ [(name, key, v)]) = writes_to n ws @ (if n = name then [(key, v)] else [])" for n
    by (simp add: writes_to_def)
  have "in_progress (ws @ [(name, key, v)]) w0 (at_table p ?f srv, ?c2 ps)"
    unfolding in_progress_def
  proof (intro conjI allI impI; (elim conjE)?)
    fix n q assume q: "find_table n (fst w0) = Some q"
    show "committed (heap (fst (at_table p ?f srv, ?c2 ps)) ! q) = committed (heap (fst w0) ! q)"
      using D(8) [OF q] pl by (auto simp: set_commutes_mutex)
    show "proposed (heap (fst (at_table p ?f srv, ?c2 ps)) ! q) =
        proposed (heap (fst w0) ! q) ++ map_of (rev (writes_to n (ws @ [(name, key, v)])))"
      using D(9) [OF q] pl q p0 other [OF q] by (auto simp: set_commutes_mutex w)
    show "heap (fst (at_table p ?f srv, ?c2 ps)) ! q = heap (fst w0) ! q"
      if "writes_to n (ws @ [(name, key, v)]) = []"
      using that D(10) [OF q] pl other [OF q] by (simp add: w split: if_splits)
    show "t_mutex (heap (fst (at_table p ?f srv, ?c2 ps)) ! q) = Some (me (snd w0))"
      if "writes_to n (ws @ [(name, key, v)]) \<noteq> []"
      using that D(11) [OF q] D(3) pl q p0 other [OF q]
      by (cases "n = name") (simp_all add: w set_commutes_mutex)
  qed (use ok2 D in \<open>simp_all add: replicate_append_same [symmetric]\<close>)
  then show ?thesis
    using run by (auto simp: serve_all_cons [OF push_response] serve_all_cons)
qed

definition writes_ok :: "world \<Rightarrow> (string \<times> string \<times> string) list \<Rightarrow> bool" where
  "writes_ok w ws \<longleftrightarrow> list_all (\<lambda>(t, k, v). usable w t \<and> value_ok v) ws"

lemma in_progress_writes:
  assumes "conn_ok w0" "in_transaction (snd w0)" "writes_ok w0 ws"
    and "length (stack (snd w0)) < 2147483647"
  shows "\<exists>w. serve_all (write_requests ws) w0 = (Ret (), w) \<and> in_progress ws w0 w"
  using assms(3)
proof (induction ws rule: rev_induct)
  case Nil
  then show ?case using assms(1,2) by (simp add: write_requests_def in_progress_start)
next
  case (snoc x ws)
  obtain t k v where x: "x = (t, k, v)" using prod_cases3 by blast
  have ok: "usable w0 t" "value_ok v" "writes_ok w0 ws"
    using snoc.prems by (simp_all add: writes_ok_def x)
  then obtain srv c where run: "serve_all (write_requests ws) w0 = (Ret (), (srv, c))"
    and inp: "in_progress ws w0 (srv, c)"
    using snoc.IH by fastforce
  from in_progress_write [OF inp ok(1,2) assms(4)] obtain w where
    "serve_all [Message_new PUSH [v], Message_new SET [t, k]] (srv, c) = (Ret (), w)"
    "in_progress (ws @ [x]) w0 w"
    unfolding x by blast
  then show ?case
    using serve_all_snoc [OF run] by (auto simp: x write_requests_snoc)
qed

text \<open>The state a client is in after \<open>BEGIN\<close>.\<close>

lemma begin_response:
  assumes "\<not> in_transaction c"
  shows "call_response_function (Message_new BEGIN []) (srv, c) =
    (Ret (), (srv, answer ok_line (c\<lparr>in_transaction := True\<rparr>)))"
  using assms
  by (intro call_response_done)
    (simp_all add: dispatch_def get_message_type_def Message_new_def handle_begin_run)

lemma commit_response:
  assumes "conn_ok (srv, c)" "in_transaction c"
  shows "call_response_function (Message_new COMMIT []) (srv, c) =
    (Ret (), (release_all commit_changes (locked_tables c) srv,
       answer ok_line (c\<lparr>locked_tables := [], in_transaction := False\<rparr>)))"
  using assms
  by (intro call_response_done)
    (simp_all add: dispatch_def get_message_type_def Message_new_def handle_commit_run [OF conn_ok_owns])

lemma transaction_runs:
  assumes ok: "conn_ok (srv, c)" and tx: "\<not> in_transaction c" and ws: "writes_ok (srv, c) ws"
    and size: "length (stack c) < 2147483647"
  obtains srv1 c1 where
    "serve_all (Message_new BEGIN [] # write_requests ws) (srv, c) = (Ret (), (srv1, c1))"
    "in_progress ws (srv, answer ok_line (c\<lparr>in_transaction := True\<rparr>)) (srv1, c1)"
proof -
  let ?c = "answer ok_line (c\<lparr>in_transaction := True\<rparr>)"
  have "conn_ok (srv, ?c)"
    using ok by (rule conn_ok_conn) (use conn_okD(7) [OF ok] in simp_all)
  moreover have "usable (srv, ?c) = usable (srv, c)"
    by (simp add: usable_def fun_eq_iff split: option.splits)
  then have "writes_ok (srv, ?c) ws"
    using ws by (simp add: writes_ok_def)
  ultimately obtain w where "serve_all (write_requests ws) (srv, ?c) = (Ret (), w)"
    "in_progress ws (srv, ?c) w"
    using in_progress_writes [of "(srv, ?c)" ws] size by auto
  then show thesis
    using that serve_all_cons [OF begin_response [OF tx]] by (cases w) auto
qed

lemma release_locked_nth:
  assumes "conn_ok (srv, c)"
  shows "heap (release_all f (locked_tables c) srv) ! q =
    (if q \<in> set (locked_tables c) then (f (heap srv ! q))\<lparr>t_mutex := None\<rparr> else heap srv ! q)"
  by (rule release_all_nth [OF conn_okD(3) [OF assms]]) (use conn_okD(4) [OF assms] in blast)

text \<open>
  What releasing with \<open>commit_changes\<close> or \<open>rollback_changes\<close> does to the
  tables after a series of writes that began with no table held.
\<close>

lemma transaction_end:
  assumes inp: "in_progress ws (srv, c0) (srv1, c1)" and ok: "conn_ok (srv, c)" "me c0 = me c"
    and tx: "\<not> in_transaction c" and ws: "writes_ok (srv, c) ws" and p: "find_table name srv = Some p"
  shows "committed (heap (release_all commit_changes (locked_tables c1) srv1) ! p) =
           committed (heap srv ! p) ++ map_of (rev (writes_to name ws))"
    and "committed (heap (release_all rollback_changes (locked_tables c1) srv1) ! p) =
           committed (heap srv ! p)"
    and "t_mutex (heap (release_all commit_changes (locked_tables c1) srv1) ! p) = t_mutex (heap srv ! p)"
    and "t_mutex (heap (release_all rollback_changes (locked_tables c1) srv1) ! p) = t_mutex (heap srv ! p)"
proof -
  note D = in_progressD [OF inp]
  have p0: "find_table name (fst (srv, c0)) = Some p" using p by simp
  have pl: "p < length (heap srv)" using p conn_okD(1) [OF ok(1)] find_table_valid by blast
  have idle: "t_mutex (heap srv ! p) \<noteq> Some (me c)" by (rule conn_ok_idle [OF ok(1) tx pl])
  have nth: "heap (release_all f (locked_tables c1) srv1) ! p =
      (if t_mutex (heap srv1 ! p) = Some (me c) then (f (heap srv1 ! p))\<lparr>t_mutex := None\<rparr>
       else heap srv1 ! p)" for f
    using conn_ok_held [OF D(1), of p] D(3,6) pl ok(2) by (simp add: release_locked_nth [OF D(1)])
  have "committed (heap (release_all commit_changes (locked_tables c1) srv1) ! p) =
           committed (heap srv ! p) ++ map_of (rev (writes_to name ws)) \<and>
        committed (heap (release_all rollback_changes (locked_tables c1) srv1) ! p) =
           committed (heap srv ! p) \<and>
        t_mutex (heap (release_all commit_changes (locked_tables c1) srv1) ! p) = t_mutex (heap srv ! p) \<and>
        t_mutex (heap (release_all rollback_changes (locked_tables c1) srv1) ! p) = t_mutex (heap srv ! p)"
  proof (cases "writes_to name ws = []")
    case True
    then show ?thesis using D(10) [OF p0] idle by (simp add: nth)
  next
    case False
    then have "usable (srv, c) name"
      using ws by (auto simp: writes_to_def writes_ok_def list_all_iff filter_empty_conv)
    then have free: "t_mutex (heap srv ! p) = None"
      using p idle by (simp add: usable_def)
    have sub: "proposed (heap srv ! p) \<subseteq>\<^sub>m committed (heap srv ! p)"
      using conn_okD(8) [OF ok(1) pl] free by (simp add: table_ok_def)
    have wf: "table_wf (heap srv1 ! p)"
      using conn_okD(8) [OF D(1)] D(6) pl by (simp add: table_ok_def)
    have upd: "committed (t\<lparr>t_mutex := None\<rparr>) = committed t" for t :: Table
      by (simp add: committed_def)
    have "committed (heap srv ! p) ++ (proposed (heap srv ! p) ++ m) = committed (heap srv ! p) ++ m" for m
      by (metis map_add_assoc map_add_subsumed2 [OF sub])
    then show ?thesis
      using D(11) [OF p0 False] D(8,9) [OF p0] ok(2) free wf
      by (simp add: nth upd ts.base_commit ts.base_rollback)
  qed
  then show "committed (heap (release_all commit_changes (locked_tables c1) srv1) ! p) =
           committed (heap srv ! p) ++ map_of (rev (writes_to name ws))"
    and "committed (heap (release_all rollback_changes (locked_tables c1) srv1) ! p) =
           committed (heap srv ! p)"
    and "t_mutex (heap (release_all commit_changes (locked_tables c1) srv1) ! p) = t_mutex (heap srv ! p)"
    and "t_mutex (heap (release_all rollback_changes (locked_tables c1) srv1) ! p) = t_mutex (heap srv ! p)"
    by simp_all
qed

section \<open>Arithmetic\<close>

definition ok_with :: "ValueStack \<Rightarrow> world \<Rightarrow> unit res \<times> world" where
  "ok_with vs w = (Ret (), (fst w, answer ok_line ((snd w)\<lparr>stack := vs\<rparr>)))"

lemma arith_response:
  assumes "stack c = a # b # rest" "stoi a = Ret r" "stoi b = Ret l" "2 \<le> get_size (stack c)"
  shows "call_response_function (Message_new ADD []) (srv, c) =
      (case int_result (l + r) of Ret v \<Rightarrow> ok_with (to_string v # rest) (srv, c)
         | Fault u \<Rightarrow> (Fault u, (srv, c\<lparr>stack := rest\<rparr>)))"
    and "call_response_function (Message_new SUB []) (srv, c) =
      (case int_result (l - r) of Ret v \<Rightarrow> ok_with (to_string v # rest) (srv, c)
         | Fault u \<Rightarrow> (Fault u, (srv, c\<lparr>stack := rest\<rparr>)))"
    and "call_response_function (Message_new MUL []) (srv, c) =
      (case int_result (l * r) of Ret v \<Rightarrow> ok_with (to_string v # rest) (srv, c)
         | Fault u \<Rightarrow> (Fault u, (srv, c\<lparr>stack := rest\<rparr>)))"
    and "call_response_function (Message_new DIV []) (srv, c) =
      (case cxx_div l r of Ret v \<Rightarrow> ok_with (to_string v # rest) (srv, c)
         | Fault u \<Rightarrow> (Fault u, (srv, c\<lparr>stack := rest\<rparr>)))"
  using assms
  by (auto simp: call_response_function_def run_simps dispatch_def get_message_type_def Message_new_def
      arith_handlers arith_operands ok_with_def int_result_def cxx_div_def)

section \<open>Properties\<close>

text \<open>
  C1. Commit is atomic and complete. A client that is outside a transaction sends
  \<open>BEGIN\<close>, then a \<open>PUSH\<close> and a \<open>SET\<close> per write to tables that
  exist and are free, then \<open>COMMIT\<close>: every request is answered \<open>OK\<close>, the
  client's stack is as before, its locks are given back, and every table of the server
  has exactly its former committed values overridden by the last value written to each
  key.
\<close>

theorem transaction_commits:
  assumes "conn_ok (srv, c)" "\<not> in_transaction c" "writes_ok (srv, c) ws"
    and "length (stack c) < 2147483647"
  shows "\<exists>srv' c'.
    serve_all (Message_new BEGIN [] # write_requests ws @ [Message_new COMMIT []]) (srv, c) =
      (Ret (), (srv', c')) \<and>
    conn_ok (srv', c') \<and> \<not> in_transaction c' \<and> stack c' = stack c \<and>
    written c' = written c @ replicate (2 * length ws + 2) ok_line \<and>
    (\<forall>name p. find_table name srv = Some p \<longrightarrow>
       find_table name srv' = Some p \<and>
       t_mutex (heap srv' ! p) = t_mutex (heap srv ! p) \<and>
       committed (heap srv' ! p) = committed (heap srv ! p) ++ map_of (rev (writes_to name ws)))"
proof -
  let ?c0 = "answer ok_line (c\<lparr>in_transaction := True\<rparr>)"
  obtain srv1 c1 where run: "serve_all (Message_new BEGIN [] # write_requests ws) (srv, c) = (Ret (), (srv1, c1))"
    and inp: "in_progress ws (srv, ?c0) (srv1, c1)"
    using assms by (rule transaction_runs)
  note D = in_progressD [OF inp]
  let ?srv = "release_all commit_changes (locked_tables c1) srv1"
  let ?c = "answer ok_line (c1\<lparr>locked_tables := [], in_transaction := False\<rparr>)"
  have "serve_all (Message_new BEGIN [] # write_requests ws @ [Message_new COMMIT []]) (srv, c) =
      (Ret (), (?srv, ?c))"
    using serve_all_snoc [OF run, of "[Message_new COMMIT []]"]
    by (simp add: serve_all_cons [OF commit_response [OF D(1,2)]])
  moreover have "conn_ok (?srv, ?c)"
    by (intro conn_ok_answer conn_ok_release [OF D(1)]) (simp_all add: table_frame table_ok_commit)
  moreover have "written ?c = written c @ replicate (2 * length ws + 2) ok_line"
    using D(5) by (simp add: replicate_append_same)
  ultimately show ?thesis
    using D(4,7) transaction_end(1,3) [OF inp assms(1) _ assms(2,3)]
    by (intro exI [of _ ?srv] exI [of _ ?c]) simp
qed

theorem transaction_commits_witness:
  "\<exists>srv' c'.
    serve_all (Message_new BEGIN [] #
        write_requests [(''fruit'', ''apples'', ''1''), (''fruit'', ''apples'', ''2'')] @
        [Message_new COMMIT []]) (example_server, example_conn) = (Ret (), (srv', c')) \<and>
    committed (heap srv' ! 0) ''apples'' = Some ''2''"
proof -
  let ?ws = "[(''fruit'', ''apples'', ''1''), (''fruit'', ''apples'', ''2'')]"
  have "writes_ok (example_server, example_conn) ?ws"
    by (simp add: writes_ok_def usable_def value_ok_def word_char_def isspace_def)
  from transaction_commits [OF example_ok _ this] obtain srv' c' where
    run: "serve_all (Message_new BEGIN [] # write_requests ?ws @ [Message_new COMMIT []])
        (example_server, example_conn) = (Ret (), (srv', c'))"
    and tab: "\<forall>name p. find_table name example_server = Some p \<longrightarrow>
       find_table name srv' = Some p \<and>
       t_mutex (heap srv' ! p) = t_mutex (heap example_server ! p) \<and>
       committed (heap srv' ! p) = committed (heap example_server ! p) ++ map_of (rev (writes_to name ?ws))"
    by auto
  have "committed (heap srv' ! 0) ''apples'' = Some ''2''"
    using tab [rule_format, of "''fruit''" 0] by (simp add: writes_to_def)
  with run show ?thesis by blast
qed

text \<open>
  C17. Every request ends in one of the ways it should, or in one of four known ones. A
  request that is served leaves the connection in order and is answered by exactly one
  line; one that waits for a mutex has changed nothing. It does not end otherwise except
  in undefined behaviour (a double unlock, signed overflow, a division trap) or by the
  range error of \<open>std::stoi\<close>, which nobody catches. The double unlock is exactly
  the \<open>GET\<close> of a missing key.
\<close>

theorem request_outcomes:
  assumes "conn_ok (srv, c)" "request_ok msg"
    and "call_response_function msg (srv, c) = (r, (srv', c'))"
  shows "(r = Ret () \<longrightarrow> conn_ok (srv', c') \<and> (\<exists>l. written c' = written c @ [l])) \<and>
         (r = Block \<longrightarrow> srv' = srv \<and> c' = c) \<and>
         (\<forall>e. r = Throw e \<longrightarrow> e = Out_of_range ''stoi'') \<and>
         (\<forall>u. r = Fault u \<longrightarrow> u \<in> {Mutex_not_owned, Signed_overflow, Division_trap}) \<and>
         (r = Fault Mutex_not_owned \<longleftrightarrow> get_breaks msg (srv, c))"
proof (cases "get_breaks msg (srv, c)")
  case True
  then show ?thesis using get_breaks_faults [OF assms(1,2)] assms(3) by auto
next
  case False
  from response_ok [OF assms(1,2) False] show ?thesis
    unfolding assms(3) using False
    by (cases r) (auto simp: response_ok_def step_ok_def)
qed

theorem request_outcomes_witness:
  "\<exists>srv' c'. call_response_function (Message_new CREATE [''people'']) (example_server, example_conn) =
      (Ret (), (srv', c')) \<and> conn_ok (srv', c')"
proof -
  let ?m = "Message_new CREATE [''people'']"
  have req: "request_ok ?m"
    by code_simp
  obtain r srv' c' where run: "call_response_function ?m (example_server, example_conn) = (r, (srv', c'))"
    by (metis prod.exhaust)
  moreover have "fst (call_response_function ?m (example_server, example_conn)) = Ret ()"
    by code_simp
  ultimately show ?thesis
    using request_outcomes [OF example_ok req run] by simp
qed

text \<open>
  Requests of one client do not disturb another. Whatever request a thread serves,
  and however it ends short of undefined behaviour or a range error, a table that another
  thread holds is left as it is, no lock of another thread appears or goes away, and every
  table keeps its name.
\<close>

theorem request_isolation:
  assumes "conn_ok (srv, c)" "request_ok msg"
    and "call_response_function msg (srv, c) = (r, (srv', c'))" "r = Ret () \<or> r = Block"
    and "u \<noteq> me c"
  shows "(\<forall>p < length (heap srv). t_mutex (heap srv ! p) = Some u \<longrightarrow> heap srv' ! p = heap srv ! p) \<and>
         owned_tables u srv' = owned_tables u srv \<and>
         (\<forall>name p. find_table name srv = Some p \<longrightarrow> find_table name srv' = Some p)"
proof -
  have "\<not> get_breaks msg (srv, c)"
    using get_breaks_faults [OF assms(1,2)] assms(3,4) by auto
  from response_ok [OF assms(1,2) this] have g: "guar (me c) srv srv'"
    unfolding assms(3) using assms(4) by (auto simp: response_ok_def step_ok_def guar_refl)
  show ?thesis
    using guar_owned [OF g assms(5)] guar_held [OF g _ assms(5)] guar_find [OF g] by blast
qed

theorem request_isolation_witness:
  "\<exists>srv' c'. call_response_function (Message_new CREATE [''people'']) (example_server, example_conn) =
      (Ret (), (srv', c')) \<and> owned_tables 2 srv' = owned_tables 2 example_server"
proof -
  let ?m = "Message_new CREATE [''people'']"
  have req: "request_ok ?m" by code_simp
  obtain r srv' c' where run: "call_response_function ?m (example_server, example_conn) = (r, (srv', c'))"
    by (metis prod.exhaust)
  have "fst (call_response_function ?m (example_server, example_conn)) = Ret ()"
    by code_simp
  then have r: "r = Ret ()" using run by simp
  have "(2 :: nat) \<noteq> me example_conn" by simp
  from request_isolation [OF example_ok req run _ this] r run show ?thesis by auto
qed

text \<open>
  C24. Arithmetic on numbers. With two numbers on the stack, an arithmetic request replaces
  them by the printed result (the deeper operand is the left one, and division truncates
  towards zero) and answers \<open>OK\<close>; a sum, difference or product that does not fit an
  \<open>int\<close> is undefined behaviour, and so is a division by zero or of the least
  \<open>int\<close> by -1.
\<close>

theorem arithmetic_requests:
  assumes "stack c = a # b # rest" "stoi a = Ret r" "stoi b = Ret l" "2 \<le> get_size (stack c)"
  shows "call_response_function (Message_new ADD []) (srv, c) =
           (if in_int (l + r) then ok_with (to_string (l + r) # rest) (srv, c)
            else (Fault Signed_overflow, (srv, c\<lparr>stack := rest\<rparr>))) \<and>
         call_response_function (Message_new SUB []) (srv, c) =
           (if in_int (l - r) then ok_with (to_string (l - r) # rest) (srv, c)
            else (Fault Signed_overflow, (srv, c\<lparr>stack := rest\<rparr>))) \<and>
         call_response_function (Message_new MUL []) (srv, c) =
           (if in_int (l * r) then ok_with (to_string (l * r) # rest) (srv, c)
            else (Fault Signed_overflow, (srv, c\<lparr>stack := rest\<rparr>))) \<and>
         call_response_function (Message_new DIV []) (srv, c) =
           (if r = 0 \<or> l = INT_MIN \<and> r = -1 then (Fault Division_trap, (srv, c\<lparr>stack := rest\<rparr>))
            else ok_with (to_string (l sdiv r) # rest) (srv, c))"
  by (auto simp: arith_response [OF assms] int_result_def cxx_div_def)

theorem arithmetic_requests_witness:
  "call_response_function (Message_new DIV []) (example_server, example_conn\<lparr>stack := [''2'', ''-7'']\<rparr>) =
     ok_with [to_string (- 3)] (example_server, example_conn\<lparr>stack := [''2'', ''-7'']\<rparr>)"
proof -
  have "stack (example_conn\<lparr>stack := [''2'', ''-7'']\<rparr>) = [''2'', ''-7'']" by simp
  moreover have "stoi ''2'' = Ret 2" "stoi ''-7'' = Ret (- 7)" "(- 7 :: int) sdiv 2 = - 3" by code_simp+
  moreover have "2 \<le> get_size [''2'', ''-7'']" by code_simp
  ultimately show ?thesis
    using arithmetic_requests [of "example_conn\<lparr>stack := [''2'', ''-7'']\<rparr>" "''2''" "''-7''" "[]" 2 "- 7"]
    by simp
qed

text \<open>
  C25. Arithmetic on something that is not a number is refused: with two values on the stack
  of which one is not a number, every arithmetic request is answered \<open>FAILED\<close>, an open
  transaction is given up, and no value is lost. But when it is the deeper value, the upper
  one is put back as the number it was read as: \<open>+5\<close> and \<open>5abc\<close> come back as
  \<open>5\<close>.
\<close>

theorem arithmetic_not_a_number:
  assumes "conn_ok (srv, c)" "t \<in> {ADD, SUB, MUL, DIV}" "stack c = a # b # rest" "2 \<le> get_size (stack c)"
  shows "(stoi a = Throw (Invalid_argument ''stoi'') \<longrightarrow>
            call_response_function (Message_new t []) (srv, c) =
              failed_with ''Value on stack could not be converted to an integer.'' (srv, c)) \<and>
         (stoi a = Ret i \<and> stoi b = Throw (Invalid_argument ''stoi'') \<longrightarrow>
            call_response_function (Message_new t []) (srv, c) =
              failed_with ''Value on stack could not be converted to an integer.''
                (srv, c\<lparr>stack := to_string i # b # rest\<rparr>))"
proof -
  obtain x f where "arith_fun t = Some (x, f)" using assms(2) by fastforce
  then have d: "dispatch (Message_new t []) = arith_handler x f"
    by (intro dispatch_arith) (simp add: Message_new_def)
  have vals: "list_all value_ok (to_string j # b # rest)" if "stoi a = Ret j" for j
    using conn_okD(7) [OF assms(1)] assms(3) value_ok_to_string [OF stoi_range [OF that]] by simp
  have fail: "call_response_function (Message_new t []) (srv, c) = failed_with (what conversion_error) (srv, c')"
    if "arith_handler x f (srv, c) = (Throw conversion_error, (srv, c'))" "conn_ok (srv, c')" for c'
    using call_response_failed [of "Message_new t []" "(srv, c)" conversion_error srv c'] that
    by (simp add: d conversion_error_class)
  show ?thesis
    using fail [of c] fail [of "c\<lparr>stack := to_string i # b # rest\<rparr>"] assms(1)
      conn_ok_stack [OF assms(1) vals] arith_right_bad [OF assms(3,4)] arith_left_bad [OF assms(3,4)]
    by (simp add: conversion_error_def)
qed

theorem arithmetic_not_a_number_witness:
  "call_response_function (Message_new ADD []) (example_server, example_conn\<lparr>stack := [''+5'', ''x'']\<rparr>) =
     failed_with ''Value on stack could not be converted to an integer.''
       (example_server, example_conn\<lparr>stack := [''5'', ''x'']\<rparr>)"
proof -
  let ?c = "example_conn\<lparr>stack := [''+5'', ''x'']\<rparr>"
  have "conn_ok (example_server, ?c)"
    by (rule conn_ok_stack [OF example_ok]) (simp add: value_ok_def word_char_def isspace_def)
  moreover have "stoi ''+5'' = Ret 5" "stoi ''x'' = Throw (Invalid_argument ''stoi'')" "to_string 5 = ''5''"
    by code_simp+
  moreover have "2 \<le> get_size [''+5'', ''x'']" by code_simp
  ultimately show ?thesis
    using arithmetic_not_a_number [of example_server ?c ADD "''+5''" "''x''" "[]" 5] by simp
qed

text \<open>
  C21. \<open>SET\<close> in full. Outside a transaction the value on top of the stack is committed
  under the key at once, or the thread waits for the table; inside one the table is locked
  for the thread (or held already) and the value is proposed, or the transaction fails when
  another thread holds the table. Missing values and tables are refused.
\<close>

theorem set_request:
  assumes "conn_ok (srv, c)"
  shows "call_response_function (Message_new SET [name, key]) (srv, c) =
    (if get_size (stack c) < 1 then failed_with ''No value on stack.'' (srv, c)
     else case find_table name srv of
       None \<Rightarrow> failed_with ''Could not find table.'' (srv, c)
     | Some p \<Rightarrow>
         (case t_mutex (heap srv ! p) of
            None \<Rightarrow>
              if in_transaction c
              then (Ret (), (at_table p (\<lambda>t. table_set key (hd (stack c)) (t\<lparr>t_mutex := Some (me c)\<rparr>)) srv,
                      answer ok_line (c\<lparr>locked_tables := locked_tables c @ [p], stack := tl (stack c)\<rparr>)))
              else (Ret (), (at_table p (\<lambda>t. commit_changes (table_set key (hd (stack c)) t)) srv,
                      answer ok_line (c\<lparr>stack := tl (stack c)\<rparr>)))
          | Some u \<Rightarrow>
              if u = me c
              then (Ret (), (at_table p (table_set key (hd (stack c))) srv,
                      answer ok_line (c\<lparr>stack := tl (stack c)\<rparr>)))
              else if in_transaction c then failed_with ''Could not gain access to table.'' (srv, c)
              else (Block, (srv, c))))"
proof -
  let ?m = "Message_new SET [name, key]"
  have args: "m_args ?m = [name, key]" by (simp add: Message_new_def)
  have d: "dispatch ?m = handle_set ?m"
    by (simp add: dispatch_def get_message_type_def Message_new_def)
  note fail = call_response_failed [of ?m "(srv, c)", OF _ _ _ _ assms, unfolded d]
  note fine = call_response_done [of ?m "(srv, c)", unfolded d]
  show ?thesis
  proof (cases "1 \<le> get_size (stack c)")
    case False
    then show ?thesis by (simp add: fail [OF handle_set_empty])
  next
    case size: True
    obtain v vs where st: "stack c = v # vs" using get_size_1 [OF size] by blast
    note s = args st size
    show ?thesis
    proof (cases "find_table name srv")
      case None
      then show ?thesis using size fail [of table_missing] by (simp add: handle_set_table [OF s])
    next
      case p: (Some p)
      have pl: "p < length (heap srv)" using p conn_okD(1) [OF assms] find_table_valid by blast
      from assms pl show ?thesis
      proof (cases rule: table_cases)
        case free
        then show ?thesis
          using size p st
          by (cases "in_transaction c")
            (simp_all add: fine [OF handle_set_acquire [OF s p pl]] fine [OF handle_set_now [OF s p pl]])
      next
        case mine
        then show ?thesis
          using size p st by (simp add: fine [OF handle_set_held [OF s p pl]])
      next
        case (other u)
        then show ?thesis
          using size p st
          by (cases "in_transaction c")
            (simp_all add: fail [OF handle_set_refused [OF s p pl]] fine [OF handle_set_wait [OF s p pl]])
      qed
    qed
  qed
qed

theorem set_request_witness:
  "call_response_function (Message_new SET [''fruit'', ''pears'']) (example_server, example_conn) =
     failed_with ''No value on stack.'' (example_server, example_conn)"
proof -
  have "get_size (stack example_conn) < 1" by code_simp
  with set_request [OF example_ok] show ?thesis by simp
qed

text \<open>
  C22. \<open>GET\<close> in full. The value of a key that the table has is pushed under the same
  locking rules as for \<open>SET\<close>: at once, or after waiting, outside a transaction; with
  the table locked for the thread inside one; a missing table, and in a transaction a table
  that another thread holds, are refused. When the key is missing and the table is free or held by the thread
  itself, the request is undefined behaviour: the mutex is released in \<open>get_table_value\<close> and once more by its callers.
\<close>

theorem get_request:
  assumes "conn_ok (srv, c)"
  shows "let out = call_response_function (Message_new GET [name, key]) (srv, c) in
    case find_table name srv of
      None \<Rightarrow> out = failed_with ''Could not find table.'' (srv, c)
    | Some p \<Rightarrow>
        if t_mutex (heap srv ! p) \<notin> {None, Some (me c)}
        then out = (if in_transaction c then failed_with ''Could not gain access to table.'' (srv, c) else (Block, (srv, c)))
        else if has_key key (heap srv ! p)
        then (\<exists>v. table_get key (heap srv ! p) = Ret v \<and>
          out = (if in_transaction c \<and> t_mutex (heap srv ! p) = None
                 then ok_with (v # stack c) (at_table p (t_mutex_update (\<lambda>_. Some (me c))) srv,
                        c\<lparr>locked_tables := locked_tables c @ [p]\<rparr>)
                 else ok_with (v # stack c) (srv, c)))
        else fst out = Fault Mutex_not_owned"
proof -
  let ?m = "Message_new GET [name, key]"
  have args: "m_args ?m = [name, key]" by (simp add: Message_new_def)
  have d: "dispatch ?m = handle_get ?m"
    by (simp add: dispatch_def get_message_type_def Message_new_def)
  note fail = call_response_failed [of ?m "(srv, c)", OF _ _ _ _ assms(1), unfolded d]
  note fine = call_response_done [of ?m "(srv, c)", unfolded d]
  show ?thesis
  proof (cases "find_table name srv")
    case None
    then show ?thesis using fail [of table_missing] by (simp add: handle_get_table [OF args])
  next
    case p: (Some p)
    have pl: "p < length (heap srv)" using p conn_okD(1) [OF assms(1)] find_table_valid by blast
    have absent: "fst (call_response_function ?m (srv, c)) = Fault Mutex_not_owned"
      if "t_mutex (heap srv ! p) \<in> {None, Some (me c)}" "\<not> has_key key (heap srv ! p)"
      using get_absent_response [OF _ args assms(1) p that] by (auto simp: Message_new_def)
    have present: "\<exists>v. table_get key (heap srv ! p) = Ret v" if "has_key key (heap srv ! p)"
      using that ts.present_read by blast
    from assms(1) pl show ?thesis
    proof (cases rule: table_cases)
      case free
      then show ?thesis
        using p absent present fine [OF handle_get_acquire [OF args p pl _ free(2,1)]] fine [OF handle_get_now [OF args p pl _ free(1)]]
        by (cases "in_transaction c"; cases "has_key key (heap srv ! p)") (auto simp: ok_with_def)
    next
      case mine
      then show ?thesis
        using p absent present fine [OF handle_get_held [OF args p pl mine(3,2)]]
        by (cases "has_key key (heap srv ! p)") (auto simp: ok_with_def)
    next
      case (other u)
      then show ?thesis
        using p by (cases "in_transaction c")
          (simp_all add: fail [OF handle_get_refused [OF args p pl]] fine [OF handle_get_wait [OF args p pl]])
    qed
  qed
qed

theorem get_request_witness:
  "call_response_function (Message_new GET [''fruit'', ''apples''])
     (at_table 0 (\<lambda>t. commit_changes (table_set ''apples'' ''7'' t)) example_server, example_conn) =
   ok_with [''7''] (at_table 0 (\<lambda>t. commit_changes (table_set ''apples'' ''7'' t)) example_server, example_conn)"
proof -
  let ?srv = "at_table 0 (\<lambda>t. commit_changes (table_set ''apples'' ''7'' t)) example_server"
  have "conn_ok (?srv, example_conn)"
    by (intro conn_ok_at_table [OF example_ok] table_ok_set_commit)
      (simp_all add: table_frame table_ok_new value_ok_def word_char_def isspace_def)
  moreover have "find_table ''fruit'' ?srv = Some 0" "t_mutex (heap ?srv ! 0) = None"
    "has_key ''apples'' (heap ?srv ! 0)" "table_get ''apples'' (heap ?srv ! 0) = Ret ''7''"
    by code_simp+
  ultimately show ?thesis using get_request [of ?srv example_conn "''fruit''" "''apples''"] by (simp add: Let_def)
qed

text \<open>
  C26. What was set can be read back: on a free table, outside a transaction, \<open>PUSH v\<close>,
  \<open>SET t k\<close> and \<open>GET t k\<close> are answered \<open>OK\<close> three times and leave
  \<open>v\<close> on the stack that was there before, with the table free again.
\<close>

theorem set_get_roundtrip:
  assumes "conn_ok (srv, c)" "\<not> in_transaction c" "find_table name srv = Some p"
    and "t_mutex (heap srv ! p) = None" "value_ok v" "length (stack c) < 2147483647"
  shows "\<exists>srv' c'. serve_all [Message_new PUSH [v], Message_new SET [name, key], Message_new GET [name, key]]
      (srv, c) = (Ret (), (srv', c')) \<and>
    stack c' = v # stack c \<and> written c' = written c @ [ok_line, ok_line, ok_line] \<and>
    t_mutex (heap srv' ! p) = None \<and> committed (heap srv' ! p) = (committed (heap srv ! p))(key \<mapsto> v)"
proof -
  have pl: "p < length (heap srv)" using assms(1,3) conn_okD(1) find_table_valid by blast
  have t: "table_ok (heap srv ! p)" by (rule conn_okD(8) [OF assms(1) pl])
  let ?c1 = "answer ok_line (c\<lparr>stack := v # stack c\<rparr>)"
  let ?srv = "at_table p (\<lambda>t. commit_changes (table_set key v t)) srv"
  let ?c2 = "answer ok_line (?c1\<lparr>stack := stack c\<rparr>)"
  let ?t = "commit_changes (table_set key v (heap srv ! p))"
  have args: "m_args (Message_new f [name, key]) = [name, key]" for f by (simp add: Message_new_def)
  have d: "dispatch (Message_new SET [name, key]) = handle_set (Message_new SET [name, key])"
    "dispatch (Message_new GET [name, key]) = handle_get (Message_new GET [name, key])"
    by (simp_all add: dispatch_def get_message_type_def Message_new_def)
  have "1 \<le> get_size (stack ?c1)" using assms(6) get_size_small [of "stack ?c1"] by simp
  then have "handle_set (Message_new SET [name, key]) (srv, ?c1) = (Ret (), (?srv, ?c2))"
    using assms(2-4) pl by (intro handle_set_now [OF args]) simp_all
  then have set: "call_response_function (Message_new SET [name, key]) (srv, ?c1) = (Ret (), (?srv, ?c2))"
    by (intro call_response_done) (simp_all add: d)
  have com: "committed ?t = (committed (heap srv ! p))(key \<mapsto> v)"
  proof -
    have "committed (heap srv ! p) ++ proposed (heap srv ! p) = committed (heap srv ! p)"
      using t assms(4) by (intro map_add_subsumed2) (simp add: table_ok_def)
    then show ?thesis
      using t by (simp add: ts.base_commit ts.wf_put ts.base_put ts.pending_put table_ok_def)
  qed
  then have "(proposed ?t ++ committed ?t) key = Some v" by simp
  then have "table_get key ?t = Ret v" by (rule ts.read_present)
  then have "handle_get (Message_new GET [name, key]) (?srv, ?c2) =
      (Ret (), (?srv, answer ok_line (?c2\<lparr>stack := v # stack ?c2\<rparr>)))"
    using assms(2-4) pl by (intro handle_get_now [OF args, where p = p]) (simp_all add: table_frame)
  then have get: "call_response_function (Message_new GET [name, key]) (?srv, ?c2) =
      (Ret (), (?srv, answer ok_line (?c2\<lparr>stack := v # stack ?c2\<rparr>)))"
    by (intro call_response_done) (simp_all add: d)
  show ?thesis
    using pl com assms(4)
    by (simp add: serve_all_cons [OF push_response] serve_all_cons [OF set] serve_all_cons [OF get] table_frame)
qed

theorem set_get_roundtrip_witness:
  "\<exists>srv' c'. serve_all [Message_new PUSH [''7''], Message_new SET [''fruit'', ''kiwis''],
      Message_new GET [''fruit'', ''kiwis'']] (example_server, example_conn) = (Ret (), (srv', c')) \<and>
    stack c' = [''7'']"
proof -
  have "value_ok ''7''" by code_simp
  then show ?thesis
    using set_get_roundtrip [OF example_ok, of "''fruit''" 0 "''7''" "''kiwis''"] by auto
qed

end
