(* ===== verification/Chat.thy ===== *)
theory Chat
  imports Requests
begin

text \<open>
  The life of a connection: \<open>chat_with_client\<close> reads a line, decodes it, serves it
  and goes on until the client leaves, then \<open>client_worker\<close> destroys the
  connection. The lemmas show that what \<open>decode\<close> accepts is fit for the request
  handlers, that the loop keeps the connection in order and uses up its input, hence ends,
  and what is left when it has ended.
\<close>

section \<open>Decoded requests are in order\<close>

lemma extract_word_rest_space:
  assumes "extract_word s = (w, c # rest)"
  shows "isspace c"
proof -
  have "dropWhile (\<lambda>c. \<not> isspace c) (dropWhile isspace s) = c # rest"
    using assms by (simp add: extract_word_def Let_def)
  then show ?thesis by (metis (no_types, lifting) dropWhile_eq_Cons_conv)
qed

lemma extract_word_split:
  assumes "extract_word s = (w, rest)"
  shows "\<exists>ws. s = ws @ w @ rest"
proof -
  have "dropWhile isspace s = w @ rest"
    using assms by (auto simp: extract_word_def Let_def)
  then show ?thesis by (metis takeWhile_dropWhile_id)
qed

lemma text_words_space: "isspace c \<Longrightarrow> text_words (c # s) = text_words s"
  by (subst (1 2) text_words.simps) (simp add: extract_word_space)

lemma c_str_no_nul: "nul \<notin> set (c_str s)"
  by (auto simp: c_str_def dest: set_takeWhileD)

text \<open>The argument of a line: a space before it and the newline after it are not part of it.\<close>

lemma text_words_of_line:
  assumes e: "extract_word s = (w, ss)" and last: "last s = newline" and v: "v \<in> set (text_words (getline_str ss))"
  shows "length v + length w + 2 \<le> length s"
proof -
  obtain ws where s: "s = ws @ w @ ss" using extract_word_split [OF e] by blast
  have ne: "getline_str ss \<noteq> []"
    using v by (auto simp: text_words.simps [of "[]"] extract_word_def)
  then obtain c rest where ss: "ss = c # rest" and c: "c \<noteq> newline"
    by (cases ss) (auto simp: getline_str_def split: if_splits)
  have "last ss = newline" using last s ss by simp
  then have "newline \<in> set rest" using c ss by (metis last_ConsL last_ConsR last_in_set)
  then have "length (getline_str rest) < length rest"
    unfolding getline_str_def
    by (metis (mono_tags, lifting) length_takeWhile_le nat_less_le set_takeWhileD takeWhile_eq_all_conv
        takeWhile_eq_take take_all_iff linorder_not_less)
  moreover have "getline_str ss = c # getline_str rest" using c by (simp add: ss getline_str_def)
  then have "v \<in> set (text_words (getline_str rest))"
    using v extract_word_rest_space e ss by (simp add: text_words_space)
  then have "length v \<le> length (getline_str rest)" using text_words_members by blast
  ultimately show ?thesis by (simp add: s ss)
qed

lemma getline_str_set: "set (getline_str s) \<subseteq> set s"
  by (auto simp: getline_str_def dest: set_takeWhileD)

lemma decode_word_args:
  assumes d: "decode s m0 = (Ret (), m)" and t: "m_message_type m \<notin> {FAILED, ERROR}"
    and nul: "nul \<notin> set s" and v: "v \<in> set (m_args m)"
  shows "v \<noteq> [] \<and> list_all word_char v \<and> length v + 3 \<le> length s \<and>
    (\<forall>name. type_name (m_message_type m) = Ret name \<longrightarrow> length v + length name + 2 \<le> length s)"
proof -
  obtain w ss where e: "extract_word s = (w, ss)" and l: "last s = newline" "s \<noteq> []" "length s \<le> MAX_ENCODED_LEN"
    and n: "type_name (m_message_type m) = Ret w"
    and f: "decode_fields (m_message_type m) (getline_str ss) = (Ret (), m)"
    using d by (rule decode_RetE)
  have len: "length (getline_str ss) < 2147483648"
    using extract_word_rest_le [OF e] getline_str_length [of ss] l(3) by (simp add: MAX_ENCODED_LEN_def)
  have "m_args m = text_words (getline_str ss)"
    using f decode_fields_words [OF _ _ len, of "m_message_type m"] t
    by (auto simp: Let_def split: if_splits dest: arg_cong [of _ _ m_args])
  then have v': "v \<in> set (text_words (getline_str ss))" using v by simp
  from text_words_members [OF this] have v2: "v \<noteq> []" "list_all (\<lambda>c. \<not> isspace c) v" "set v \<subseteq> set (getline_str ss)"
    by auto
  have "set v \<subseteq> set s"
    using v2(3) getline_str_set extract_word_parts(2) [OF e] by blast
  then have "list_all word_char v"
    using v2(2) nul by (auto simp: list_all_iff word_char_def)
  moreover have "1 \<le> length w" using type_name_word [OF n] by (cases w) auto
  ultimately show ?thesis
    using v2(1) text_words_of_line [OF e l(1) v'] n by simp
qed

lemma decode_request_ok:
  assumes d: "decode (c_str buf) m0 = (Ret (), m)"
  shows "request_ok m"
proof -
  obtain w ss where e: "extract_word (c_str buf) = (w, ss)" and len: "length (c_str buf) \<le> MAX_ENCODED_LEN"
    and f: "decode_fields (m_message_type m) (getline_str ss) = (Ret (), m)"
    using d by (rule decode_RetE)
  have "length (getline_str ss) < 2147483648"
    using extract_word_rest_le [OF e] getline_str_length [of ss] len by (simp add: MAX_ENCODED_LEN_def)
  then have "protocol_ok m" using decode_fields_protocol [OF f] by simp
  moreover have "value_ok v" if "m_message_type m = PUSH" "v \<in> set (m_args m)" for v
    using decode_word_args [OF d _ c_str_no_nul that(2)] that(1) len
    by (auto simp: value_ok_def MAX_ENCODED_LEN_def)
  ultimately show ?thesis by (auto simp: request_ok_def list_all_iff)
qed

section \<open>What serving a request leaves alone\<close>

text \<open>No handler touches the read buffer or the kernel's side of the socket.\<close>

definition io_is :: "rio_t \<Rightarrow> read_event list \<Rightarrow> world \<Rightarrow> bool" where
  "io_is b i w \<longleftrightarrow> m_fdbuf (snd w) = b \<and> incoming (snd w) = i"

lemma keeps_case_prod [keeps_intros]: "(\<And>a b. keeps P (f a b)) \<Longrightarrow> keeps P (case x of (a, b) \<Rightarrow> f a b)"
  by (cases x) simp

lemma keeps_case_option [keeps_intros]:
  "keeps P m \<Longrightarrow> (\<And>a. keeps P (f a)) \<Longrightarrow> keeps P (case x of None \<Rightarrow> m | Some a \<Rightarrow> f a)"
  by (cases x) simp_all

lemma keeps_try_if:
  assumes "keeps P m" "\<And>e. keeps P (k e)"
  shows "keeps P (try_catch m (\<lambda>e. if b e then Some (k e) else None))"
  using assms by (intro keeps_try) (auto split: if_splits)

lemma keeps_on_server [keeps_intros]: "keeps (io_is b i) (on_server m)"
  by (auto simp: keeps_def on_server_def io_is_def split: prod.splits outcome.splits)

lemma keeps_ask [keeps_intros]: "keeps P (ask f)"
  by (simp add: ask_def keeps_gets)

lemma keeps_change [keeps_intros]:
  assumes "\<And>c. m_fdbuf (f c) = m_fdbuf c \<and> incoming (f c) = incoming c"
  shows "keeps (io_is b i) (change f)"
  using assms unfolding change_def by (intro keeps_modify) (auto simp: io_is_def)

lemma keeps_stack_pop [keeps_intros]: "keeps (io_is b i) stack_pop"
proof (rule keepsI)
  fix w r w' assume "io_is b i w" "stack_pop w = (r, w')"
  then show "io_is b i w'"
    by (cases w) (auto simp: stack_pop_run io_is_def split: list.splits)
qed

lemma keeps_conn_primitives [keeps_intros]:
  "keeps (io_is b i) stack_get_top" "keeps (io_is b i) (stack_push v)" "keeps (io_is b i) (send msg)"
  "keeps (io_is b i) (lock_table p)" "keeps (io_is b i) (unlock_table p)"
  "keeps (io_is b i) (trylock_table p)" "keeps (io_is b i) (modify_table p f)" "keeps (io_is b i) (table_cmd p g)"
  unfolding stack_get_top_def stack_push_def send_def rio_write_def lock_table_def unlock_table_def
    trylock_table_def modify_table_def table_cmd_def
  by (intro keeps_intros; simp)+

lemma keeps_transactions [keeps_intros]:
  "keeps (io_is b i) write_ok" "keeps (io_is b i) fail_transaction" "keeps (io_is b i) (manage_exception ex rec)"
  "keeps (io_is b i) (acquire_in_transaction p)" "keeps (io_is b i) pop_operand"
  unfolding write_ok_def fail_transaction_def manage_exception_def acquire_in_transaction_def Let_def pop_operand_def
  by (intro keeps_intros; simp)+

lemma keeps_tables [keeps_intros]:
  "keeps (io_is b i) (get_table_value msg p)" "keeps (io_is b i) (set_table_value msg p)"
  "keeps (io_is b i) m \<Longrightarrow> keeps (io_is b i) (rethrow_operation m)" "keeps (io_is b i) (pop_operands t)"
  unfolding get_table_value_def set_table_value_def rethrow_operation_def pop_operands_def
  by (intro keeps_intros keeps_try_if; simp)+

lemma keeps_handlers [keeps_intros]:
  "keeps (io_is b i) (handle_create msg)" "keeps (io_is b i) handle_begin" "keeps (io_is b i) handle_commit"
  "keeps (io_is b i) handle_pop" "keeps (io_is b i) handle_top" "keeps (io_is b i) (arith_handler t f)"
  "keeps (io_is b i) handle_bye" "keeps (io_is b i) (handle_push msg)" "keeps (io_is b i) (handle_set msg)"
  "keeps (io_is b i) (handle_get msg)" "keeps (io_is b i) (handle_login ptr)"
  unfolding handle_create_def handle_begin_def handle_commit_def handle_pop_def handle_top_def arith_handler_def
    handle_bye_def handle_push_def handle_set_def handle_get_def handle_login_def
  by (intro keeps_intros keeps_try_if; simp)+

lemma keeps_dispatch [keeps_intros]: "keeps (io_is b i) (dispatch msg)"
  unfolding dispatch_def arith_handlers
  by (cases "get_message_type msg") (simp_all add: keeps_intros)

lemma keeps_call_response [keeps_intros]: "keeps (io_is b i) (call_response_function msg)"
  unfolding call_response_function_def
  by (intro keeps_try keeps_dispatch) (auto split: if_splits intro!: keeps_intros)

lemma keeps_serve_request [keeps_intros]: "keeps (io_is b i) serve_request"
  unfolding serve_request_def by (intro keeps_intros keeps_try_if; simp)

section \<open>The loop uses up its input\<close>

text \<open>A bound on how often the connection can still read something.\<close>

fun event_weight :: "read_event \<Rightarrow> nat" where
  "event_weight (Bytes bs) = Suc (length bs)"
| "event_weight e = 1"

definition avail :: "rio_t \<times> read_event list \<Rightarrow> nat" where
  "avail s = nat (rio_cnt (fst s)) + (\<Sum>e\<leftarrow>snd s. event_weight e)"

lemma sys_read_avail:
  assumes "sys_read n inp = (r, inp')"
  shows "(\<Sum>e\<leftarrow>inp'. event_weight e) + (case r of Got bs \<Rightarrow> length bs | _ \<Rightarrow> 0) \<le> (\<Sum>e\<leftarrow>inp. event_weight e)"
  using assms by (cases "(n, inp)" rule: sys_read.cases) (auto split: if_splits)

lemma rio_refill_avail:
  assumes "rio_refill rp inp = (r, rp', inp')"
  shows "avail (rp', inp') \<le> avail (rp, inp)"
  using assms
proof (induction rp inp rule: rio_refill.induct)
  case (1 rp inp)
  obtain res inp1 where s: "sys_read RIO_BUFSIZE inp = (res, inp1)" by fastforce
  note w = sys_read_avail [OF s]
  show ?case
  proof (cases "rio_cnt rp \<le> 0")
    case False
    with "1.prems" show ?thesis by (simp add: rio_refill.simps [of rp])
  next
    case True
    show ?thesis
    proof (cases res)
      case (Got bs)
      show ?thesis
      proof (cases "bs = []")
        case True
        with "1.prems" \<open>rio_cnt rp \<le> 0\<close> s Got w show ?thesis
          by (auto simp: rio_refill.simps [of rp] avail_def)
      next
        case False
        let ?rp = "rp\<lparr>rio_cnt := int (length bs), rio_bufptr := 0, rio_buf := bs @ drop (length bs) (rio_buf rp)\<rparr>"
        have "rio_refill ?rp inp1 = (r, rp', inp')"
          using "1.prems" \<open>rio_cnt rp \<le> 0\<close> s Got False by (simp add: rio_refill.simps [of rp])
        then have "avail (rp', inp') \<le> avail (?rp, inp1)"
          using "1.IH"(1) [OF \<open>rio_cnt rp \<le> 0\<close> s [symmetric] Got] False by simp
        also have "\<dots> \<le> avail (rp, inp)" using w Got by (simp add: avail_def)
        finally show ?thesis .
      qed
    next
      case Got_eintr
      have "rio_refill (rp\<lparr>rio_cnt := -1\<rparr>) inp1 = (r, rp', inp')"
        using "1.prems" True s Got_eintr by (simp add: rio_refill.simps [of rp])
      then have "avail (rp', inp') \<le> avail (rp\<lparr>rio_cnt := -1\<rparr>, inp1)"
        using "1.IH"(2) [OF True s [symmetric] Got_eintr] by simp
      also have "\<dots> \<le> avail (rp, inp)" using w Got_eintr by (simp add: avail_def)
      finally show ?thesis .
    next
      case Got_error
      with "1.prems" True s w show ?thesis by (auto simp: rio_refill.simps [of rp] avail_def)
    qed
  qed
qed

lemma rio_refill_returns: "rio_refill rp inp = (Some x, rp', inp') \<Longrightarrow> x \<le> 0"
proof (induction rp inp rule: rio_refill.induct)
  case (1 rp inp)
  from "1.prems" show ?case
    by (subst (asm) rio_refill.simps)
      (auto split: if_splits prod.splits read_result.splits dest: "1.IH")
qed

lemma rio_read_avail:
  assumes "rio_read 1 rp inp = (rc, c, rp', inp')"
  shows "avail (rp', inp') \<le> avail (rp, inp)" "rc = 1 \<Longrightarrow> avail (rp', inp') < avail (rp, inp)"
proof -
  obtain r rp1 inp1 where f: "rio_refill rp inp = (r, rp1, inp1)" by (metis prod_cases3)
  note le = rio_refill_avail [OF f]
  have "avail (rp', inp') \<le> avail (rp, inp) \<and> (rc = 1 \<longrightarrow> avail (rp', inp') < avail (rp, inp))"
  proof (cases r)
    case None
    have "0 < rio_cnt rp1" using rio_refill_cnt f None by blast
    then show ?thesis
      using assms f None le by (auto simp: rio_read_def Let_def avail_def split: if_splits)
  next
    case (Some x)
    have "x \<le> 0" using rio_refill_returns f Some by blast
    then show ?thesis using assms f Some le by (auto simp: rio_read_def)
  qed
  then show "avail (rp', inp') \<le> avail (rp, inp)" "rc = 1 \<Longrightarrow> avail (rp', inp') < avail (rp, inp)" by auto
qed

lemma readline_loop_avail:
  assumes "readline_loop maxlen n stored rp inp = (k, buf, rp', inp')"
  shows "avail (rp', inp') \<le> avail (rp, inp)" "n = 1 \<Longrightarrow> 0 < k \<Longrightarrow> avail (rp', inp') < avail (rp, inp)"
proof -
  have "avail (rp', inp') \<le> avail (rp, inp) \<and> (n = 1 \<and> 0 < k \<longrightarrow> avail (rp', inp') < avail (rp, inp))"
    using assms
  proof (induction maxlen n stored rp inp rule: readline_loop.induct)
    case (1 maxlen n stored rp inp)
    obtain rc c rp1 inp1 where r: "rio_read 1 rp inp = (rc, c, rp1, inp1)" by (metis prod_cases4)
    note a = rio_read_avail [OF r]
    show ?case
    proof (cases "n < maxlen \<and> rc = 1 \<and> c \<noteq> [newline]")
      case True
      then have "readline_loop maxlen (n + 1) (stored @ c) rp1 inp1 = (k, buf, rp', inp')"
        using "1.prems" r by (subst (asm) readline_loop.simps) simp
      then have "avail (rp', inp') \<le> avail (rp1, inp1)"
        using "1.IH" [OF _ r [symmetric]] True by simp
      with a True show ?thesis by linarith
    next
      case False
      with "1.prems" a r show ?thesis
        by (subst (asm) readline_loop.simps) (auto split: if_splits)
    qed
  qed
  then show "avail (rp', inp') \<le> avail (rp, inp)" "n = 1 \<Longrightarrow> 0 < k \<Longrightarrow> avail (rp', inp') < avail (rp, inp)" by auto
qed

text \<open>One iteration either stops the loop or takes something off the input.\<close>

abbreviation chat_avail :: "world \<Rightarrow> nat" where
  "chat_avail w \<equiv> avail (m_fdbuf (snd w), incoming (snd w))"

lemma read_request_run:
  assumes "rio_readlineb sizeof_rio_t (m_fdbuf c) (incoming c) = (n, buf, fdbuf, inp)"
  shows "read_request (srv, c) =
    (if MAX_ENCODED_LEN < length buf then Fault Buffer_overrun else Ret (n, buf),
     (srv, c\<lparr>m_fdbuf := fdbuf, incoming := inp\<rparr>))"
  using assms by (simp add: read_request_def)

lemma keeps_decode_request [keeps_intros]: "keeps (io_is b i) (decode_request buf)"
  by (auto simp: keeps_def decode_request_def io_is_def split: prod.splits outcome.splits)

lemma keeps_handle_line [keeps_intros]: "keeps (io_is b i) (handle_line buf)"
  unfolding handle_line_def by (intro keeps_intros keeps_try_if; simp)

lemma chat_iteration_avail:
  assumes "chat_iteration (srv, c) = (Ret (), (srv', c'))"
  shows "\<not> loop_in_progress c' \<or> chat_avail (srv', c') < chat_avail (srv, c)"
proof -
  obtain n buf fdbuf inp where r: "rio_readlineb sizeof_rio_t (m_fdbuf c) (incoming c) = (n, buf, fdbuf, inp)"
    by (metis prod_cases4)
  let ?c = "c\<lparr>m_fdbuf := fdbuf, incoming := inp\<rparr>"
  show ?thesis
  proof (cases "n \<le> 0")
    case True
    with assms show ?thesis
      by (auto simp: chat_iteration_def run_simps read_request_run [OF r] split: if_splits)
  next
    case False
    then have "handle_line buf (srv, ?c) = (Ret (), (srv', c'))"
      using assms by (simp add: chat_iteration_def run_simps read_request_run [OF r] split: if_splits)
    then have "io_is fdbuf inp (srv', c')"
      using keepsD [OF keeps_handle_line, of fdbuf inp "(srv, ?c)" buf] by (simp add: io_is_def)
    moreover have "avail (fdbuf, inp) < avail (m_fdbuf c, incoming c)"
      using readline_loop_avail(2) [OF r [unfolded rio_readlineb_def]] False by simp
    ultimately show ?thesis by (simp add: io_is_def)
  qed
qed

lemma chat_loop_ends: "chat_avail w < k \<Longrightarrow> \<exists>out. chat_loop (Suc k) w = Some out"
proof (induction k arbitrary: w)
  case 0
  then show ?case by simp
next
  case (Suc k)
  obtain r w' where it: "chat_iteration w = (r, w')" by (rule prod.exhaust)
  show ?case
  proof (cases "loop_in_progress (snd w) \<and> r = Ret ()")
    case True
    then have "\<not> loop_in_progress (snd w') \<or> chat_avail w' < k"
      using chat_iteration_avail [of "fst w" "snd w" "fst w'" "snd w'"] it Suc.prems by auto
    then show ?thesis
      using True it Suc.IH [of w'] by (auto simp del: chat_loop.simps simp: chat_loop.simps(2) [of _ w'] chat_loop.simps(2) [of "Suc k" w])
  next
    case False
    then show ?thesis using it by (cases r) auto
  qed
qed

section \<open>Lines and the connection's order\<close>

lemma decode_fields_Throw:
  assumes "decode_fields t text = (Throw e, m)" "length text < 2147483648"
  shows "is_InvalidMessage e \<and> length (what e) \<le> 1000"
proof (cases "t = FAILED \<or> t = ERROR")
  case True
  then show ?thesis
    using assms(1) decode_fields_unquoted [OF True] decode_fields_quoted [OF True, of "text"]
    by (cases "quote \<in> set text") auto
next
  case False
  then show ?thesis
    using assms decode_fields_words [of t "text"] by (auto simp: Let_def split: if_splits)
qed

lemma decode_Throw:
  assumes "decode s m0 = (Throw e, m)"
  shows "is_InvalidMessage e \<and> length (what e) \<le> 1000"
proof -
  obtain w ss where e: "extract_word s = (w, ss)" by fastforce
  show ?thesis
  proof (cases "length s \<le> MAX_ENCODED_LEN \<and> s \<noteq> [] \<and> last s = newline")
    case False
    then show ?thesis using assms by (auto simp: decode_result split: if_splits)
  next
    case True
    have len: "length (getline_str ss) < 2147483648"
      using extract_word_rest_le [OF e] getline_str_length [of ss] True by (simp add: MAX_ENCODED_LEN_def)
    show ?thesis
      using assms True e decode_type_cases [of w] decode_fields_Throw [OF _ len]
      by (auto simp: decode_result split: outcome.splits)
  qed
qed

lemma decode_no_block: "fst (decode s m0) \<noteq> Block"
proof (cases "length s \<le> MAX_ENCODED_LEN \<and> s \<noteq> [] \<and> last s = newline")
  case False
  then show ?thesis by (auto simp: decode_result)
next
  case True
  obtain w ss where e: "extract_word s = (w, ss)" by fastforce
  have "length (getline_str ss) < 2147483648"
    using extract_word_rest_le [OF e] getline_str_length [of ss] True by (simp add: MAX_ENCODED_LEN_def)
  then have "fst (decode_fields t (getline_str ss)) \<noteq> Block" for t
    using decode_fields_outcome [of "getline_str ss" t] by auto
  with True e decode_type_cases [of w] show ?thesis
    by (auto simp: decode_result split: outcome.splits)
qed

text \<open>The result of handling a line, by how its decoding went.\<close>

lemma handle_line_invalid:
  assumes "decode (c_str buf) (client_msg c) = (Throw e, m)" "conn_ok (srv, c)"
  shows "handle_line buf (srv, c) =
    (case aborted (srv, c\<lparr>client_msg := m\<rparr>) of (srv', c') \<Rightarrow> (Ret (), (srv', answer (error_line (what e)) c')))"
proof -
  let ?c = "c\<lparr>client_msg := m\<rparr>"
  have ok: "conn_ok (srv, ?c)"
    using assms(2) by (rule conn_ok_conn) (use conn_okD(7) [OF assms(2)] in simp_all)
  show ?thesis
    using assms(1) decode_Throw [OF assms(1)] manage_exception_run(2) [OF conn_ok_owns [OF ok] conn_ok_unlocked [OF ok]]
    by (simp add: handle_line_def decode_request_def run_simps split_beta)
qed

lemma handle_line_fault:
  assumes "decode (c_str buf) (client_msg c) = (Fault u, m)"
  shows "handle_line buf (srv, c) = (Fault u, (srv, c\<lparr>client_msg := m\<rparr>))"
  using assms by (simp add: handle_line_def decode_request_def run_simps)

lemma handle_line_login:
  assumes "decode (c_str buf) (client_msg c) = (Ret (), m)" "m_message_type m = LOGIN"
  shows "handle_line buf (srv, c) =
    (Ret (), (srv, answer ok_line (c\<lparr>client_msg := m, first_valid_message := False\<rparr>)))"
  using assms
  by (simp add: handle_line_def decode_request_def run_simps serve_request_def handle_login_def
      get_message_type_def answer_def)

lemma handle_line_not_logged_in:
  assumes "decode (c_str buf) (client_msg c) = (Ret (), m)" "m_message_type m \<noteq> LOGIN" "first_valid_message c"
  shows "handle_line buf (srv, c) =
    (Ret (), (srv, answer (error_line ''Please log in first.'')
      (c\<lparr>client_msg := m, loop_in_progress := False\<rparr>)))"
  using assms send_error_run [of "''Please log in first.''"]
  by (simp add: handle_line_def decode_request_def run_simps serve_request_def get_message_type_def answer_def)

lemma handle_line_request:
  assumes "decode (c_str buf) (client_msg c) = (Ret (), m)" "m_message_type m \<noteq> LOGIN" "\<not> first_valid_message c"
  shows "handle_line buf (srv, c) = call_response_function m (srv, c\<lparr>client_msg := m\<rparr>)"
proof -
  obtain r w where "call_response_function m (srv, c\<lparr>client_msg := m\<rparr>) = (r, w)" by (rule prod.exhaust)
  then show ?thesis
    using assms
    by (simp add: handle_line_def decode_request_def run_simps serve_request_def get_message_type_def)
qed

text \<open>Progress of a thread: order is kept, and other threads' tables are.\<close>

definition progress :: "world \<Rightarrow> world \<Rightarrow> bool" where
  "progress w w' \<longleftrightarrow> conn_ok w' \<and> guar (me (snd w)) (fst w) (fst w') \<and> me (snd w') = me (snd w)"

lemma progress_refl: "conn_ok w \<Longrightarrow> progress w w"
  by (simp add: progress_def guar_refl)

lemma progress_trans: "progress a b \<Longrightarrow> progress b c \<Longrightarrow> progress a c"
  unfolding progress_def by (metis guar_trans)

lemma progress_conn:
  assumes "conn_ok (srv, c)" "me c' = me c" "locked_tables c' = locked_tables c"
    and "in_transaction c' = in_transaction c" "stack c' = stack c"
  shows "progress (srv, c) (srv, c')"
  using conn_ok_conn [OF assms(1-3)] assms(4,5) conn_okD(7) [OF assms(1)]
  by (simp add: progress_def guar_refl assms(2))

lemma progress_aborted:
  assumes "conn_ok (srv, c)"
  shows "progress (srv, c) (fst (aborted (srv, c)), answer l (snd (aborted (srv, c))))"
  using step_ok_aborted [of srv c srv c l] assms
  by (simp add: step_ok_def progress_def guar_refl same_io_def)

lemma handle_line_ok:
  assumes ok: "conn_ok (srv, c)" and run: "handle_line buf (srv, c) = (Ret (), (srv', c'))"
  shows "progress (srv, c) (srv', c') \<and> (\<exists>l. written c' = written c @ [l])"
proof -
  obtain d m where d: "decode (c_str buf) (client_msg c) = (d, m)" by fastforce
  let ?c = "c\<lparr>client_msg := m\<rparr>"
  have p: "progress (srv, c) (srv, ?c)" by (rule progress_conn [OF ok]) simp_all
  then have ok': "conn_ok (srv, ?c)" by (simp add: progress_def)
  show ?thesis
  proof (cases d)
    case (Throw e)
    have "srv' = fst (aborted (srv, ?c))" "c' = answer (error_line (what e)) (snd (aborted (srv, ?c)))"
      using run handle_line_invalid [OF d [unfolded Throw] ok] by (simp_all add: split_beta)
    then show ?thesis
      using progress_trans [OF p progress_aborted [OF ok']] by (simp add: aborted_def)
  next
    case (Fault u)
    then show ?thesis using run d by (simp add: handle_line_fault)
  next
    case Block
    then show ?thesis using run d by (simp add: handle_line_def decode_request_def run_simps)
  next
    case (Ret u)
    then have d': "decode (c_str buf) (client_msg c) = (Ret (), m)" using d by simp
    consider "m_message_type m = LOGIN" | "m_message_type m \<noteq> LOGIN" "first_valid_message c"
      | "m_message_type m \<noteq> LOGIN" "\<not> first_valid_message c" by blast
    then show ?thesis
    proof cases
      case 3
      have "\<not> get_breaks m (srv, ?c)"
        using get_breaks_faults [OF ok' decode_request_ok [OF d']] run 3 d' by (auto simp: handle_line_request)
      from response_ok [OF ok' decode_request_ok [OF d'] this] run 3 d'
      have "step_ok (srv, ?c) (srv', c') \<and> (\<exists>l. written c' = written ?c @ [l])"
        by (simp add: handle_line_request response_ok_def)
      then show ?thesis by (simp add: step_ok_def progress_def same_io_def)
    qed (use run d' ok in \<open>auto simp: handle_line_login handle_line_not_logged_in intro!: progress_conn\<close>)
  qed
qed

lemma chat_iteration_ok:
  assumes ok: "conn_ok (srv, c)" and run: "chat_iteration (srv, c) = (Ret (), w')"
  shows "progress (srv, c) w'"
proof -
  obtain n buf fdbuf inp where r: "rio_readlineb sizeof_rio_t (m_fdbuf c) (incoming c) = (n, buf, fdbuf, inp)"
    by (metis prod_cases4)
  let ?c = "c\<lparr>m_fdbuf := fdbuf, incoming := inp\<rparr>"
  have p: "progress (srv, c) (srv, ?c)" by (rule progress_conn [OF ok]) simp_all
  then have ok': "conn_ok (srv, ?c)" by (simp add: progress_def)
  show ?thesis
  proof (cases "n \<le> 0")
    case True
    then have "w' = (srv, ?c\<lparr>loop_in_progress := False\<rparr>)"
      using run by (simp add: chat_iteration_def run_simps read_request_run [OF r] split: if_splits)
    then show ?thesis by (auto intro!: progress_conn [OF ok])
  next
    case False
    then have "handle_line buf (srv, ?c) = (Ret (), (fst w', snd w'))"
      using run by (simp add: chat_iteration_def run_simps read_request_run [OF r] split: if_splits)
    from handle_line_ok [OF ok' this] progress_trans [OF p] show ?thesis by simp
  qed
qed

text \<open>An iteration that finds a whole line handles that line.\<close>

lemma chat_iteration_reads:
  assumes "rio_ok (m_fdbuf c, incoming c)" "remaining (m_fdbuf c, incoming c) = l @ newline # rest"
    and "newline \<notin> set l" "length l + 2 \<le> 1024"
  obtains rp inp where
    "chat_iteration (srv, c) = handle_line (l @ [newline, nul]) (srv, c\<lparr>m_fdbuf := rp, incoming := inp\<rparr>)"
    "rio_ok (rp, inp)" "remaining (rp, inp) = rest"
proof -
  have "sizeof_rio_t = Suc 8207" by (simp add: sizeof_rio_t_def RIO_BUFSIZE_def)
  then obtain rp inp where r: "rio_readlineb sizeof_rio_t (m_fdbuf c) (incoming c) =
      (int (length l) + 1, l @ [newline, nul], rp, inp)" "rio_ok (rp, inp)" "remaining (rp, inp) = rest"
    using rio_readlineb_line [OF assms(1), of 8207] line_upto_line [OF assms(3), of 8207 rest] assms(2,4) by auto
  have "chat_iteration (srv, c) = handle_line (l @ [newline, nul]) (srv, c\<lparr>m_fdbuf := rp, incoming := inp\<rparr>)"
    using assms(4) by (simp add: chat_iteration_def run_simps read_request_run [OF r(1)] MAX_ENCODED_LEN_def)
  with r that show thesis by blast
qed

lemma chat_loop_ok:
  "conn_ok w \<Longrightarrow> chat_loop fuel w = Some (Ret (), w') \<Longrightarrow> progress w w'"
proof (induction fuel arbitrary: w)
  case 0
  then show ?case by simp
next
  case (Suc fuel)
  obtain r w1 where it: "chat_iteration w = (r, w1)" by (rule prod.exhaust)
  show ?case
  proof (cases "loop_in_progress (snd w)")
    case True
    then have r: "r = Ret ()" and rest: "chat_loop fuel w1 = Some (Ret (), w')"
      using Suc.prems(2) it by (cases r; simp)+
    have "progress w w1" using chat_iteration_ok [of "fst w" "snd w" w1] Suc.prems(1) it r by simp
    moreover from this have "conn_ok w1" by (simp add: progress_def)
    then have "progress w1 w'" using Suc.IH rest by blast
    ultimately show ?thesis by (rule progress_trans)
  next
    case False
    then show ?thesis using Suc.prems progress_refl by simp
  qed
qed

section \<open>Properties of connections\<close>

text \<open>
  C18. The service of a client ends. Whatever the client sends, in whatever pieces, with
  whatever interruptions and errors of \<open>read\<close>, and whatever state the server is in,
  the loop of \<open>chat_with_client\<close> and the worker thread get to a result (a return, an
  exception, undefined behaviour, or a wait for a mutex) within a number of iterations that
  the size of the input bounds: every iteration takes a byte off the input or leaves the loop.
\<close>

theorem client_worker_terminates:
  "\<exists>out. client_worker (avail (m_fdbuf c, incoming c) + 2) (srv, c) = Some out"
proof -
  obtain out where "chat_loop (avail (m_fdbuf c, incoming c) + 2) (srv, c) = Some out"
    using chat_loop_ends [of "(srv, c)" "Suc (avail (m_fdbuf c, incoming c))"] by auto
  then show ?thesis unfolding client_worker_def chat_with_client_def
    by (simp del: chat_loop.simps) (metis prod_cases3)
qed

text \<open>
  C19. A thread leaves nothing locked. When the worker of a client returns, from a server in
  order, the server is in order, the thread owns no table any more, the descriptor has been
  closed, and tables held by other threads are as they were.
\<close>

theorem client_worker_releases:
  assumes "server_ok srv" "owned_tables t srv = []"
    and "client_worker fuel (srv, ClientConnection_new t fd g inp) = Some (Ret (), (srv', c'))"
  shows "server_ok srv' \<and> owned_tables t srv' = [] \<and> fd_closed c' \<and>
    (\<forall>p u. p < length (heap srv) \<and> u \<noteq> t \<and> t_mutex (heap srv ! p) = Some u \<longrightarrow> heap srv' ! p = heap srv ! p)"
proof -
  let ?w = "(srv, ClientConnection_new t fd g inp)"
  have "p < length (heap srv) \<Longrightarrow> t_mutex (heap srv ! p) \<noteq> Some t" for p
    using set_owned_tables [of t srv] assms(2) by auto
  then have ok: "conn_ok ?w" using assms(1) by (intro conn_ok_new)
  obtain r w1 where l: "chat_loop fuel ?w = Some (r, w1)"
    using assms(3) by (auto simp: client_worker_def chat_with_client_def)
  obtain srv1 c1 where w1: "w1 = (srv1, c1)" by fastforce
  have r: "r = Ret ()"
    using assms(3) l by (cases r) (auto simp: client_worker_def chat_with_client_def)
  have p1: "progress ?w (srv1, c1)" using chat_loop_ok [OF ok] l r w1 by simp
  let ?c2 = "c1\<lparr>fd_closed := True\<rparr>"
  have p2: "progress (srv1, c1) (srv1, ?c2)"
    using p1 by (intro progress_conn) (simp_all add: progress_def)
  then have ok2: "conn_ok (srv1, ?c2)" by (simp add: progress_def)
  have "ClientConnection_destroy (srv1, ?c2) = (Ret (), aborted (srv1, ?c2))"
    using fail_transaction_run [OF conn_ok_owns [OF ok2]] aborted_idle [of ?c2] conn_ok_unlocked [OF ok2]
    by (simp add: ClientConnection_destroy_def run_simps)
  then have a: "(srv', c') = aborted (srv1, ?c2)"
    using assms(3) l r w1 by (simp add: client_worker_def chat_with_client_def close_fd_def run_simps)
  have "progress ?w (fst (aborted (srv1, ?c2)), answer [] (snd (aborted (srv1, ?c2))))"
    by (rule progress_trans [OF p1 progress_trans [OF p2 progress_aborted [OF ok2]]])
  then have g: "guar t srv srv'" and ok': "conn_ok (srv', answer [] c')"
    using a [symmetric] by (simp_all add: progress_def)
  have c': "locked_tables c' = []" "me c' = t" "fd_closed c'"
    using a p1 by (simp_all add: aborted_def progress_def)
  then have "set (owned_tables t srv') = {}" using conn_okD(4) [OF ok'] by (simp add: set_owned_tables)
  then show ?thesis
    using c' conn_ok_server_ok [OF ok'] guar_held [OF g] by auto
qed

theorem client_worker_releases_witness:
  "\<exists>srv' c'. client_worker 3 (example_server, ClientConnection_new 1 4 example_rio [Interrupted]) =
      Some (Ret (), (srv', c')) \<and> owned_tables 1 srv' = [] \<and> fd_closed c'"
proof -
  let ?w = "(example_server, ClientConnection_new 1 4 example_rio [Interrupted])"
  have run: "map_option fst (client_worker 3 ?w) = Some (Ret ())" by code_simp
  then obtain srv' c' where w: "client_worker 3 ?w = Some (Ret (), (srv', c'))" by auto
  have "owned_tables 1 example_server = []" by code_simp
  from client_worker_releases [OF conn_ok_server_ok [OF example_ok] this w] w show ?thesis by blast
qed

text \<open>
  Every line gets one answer. A line that the loop handles without undefined behaviour
  or an escaping exception is answered by exactly one message, keeps the connection in
  order and leaves other threads' tables alone.
\<close>

theorem line_answered:
  assumes "conn_ok (srv, c)" "handle_line buf (srv, c) = (Ret (), (srv', c'))"
  shows "conn_ok (srv', c') \<and> length (written c') = Suc (length (written c)) \<and> me c' = me c \<and>
    (\<forall>u. u \<noteq> me c \<longrightarrow> owned_tables u srv' = owned_tables u srv)"
proof -
  have p: "progress (srv, c) (srv', c')" "\<exists>l. written c' = written c @ [l]"
    using handle_line_ok [OF assms] by blast+
  then have g: "guar (me c) srv srv'" by (simp add: progress_def)
  with p guar_owned show ?thesis by (auto simp: progress_def)
qed

theorem line_answered_witness:
  "\<exists>srv' c'. handle_line (''PUSH 3'' @ [newline, nul]) (example_server, example_conn) = (Ret (), (srv', c')) \<and>
     length (written c') = 1"
proof -
  have "fst (handle_line (''PUSH 3'' @ [newline, nul]) (example_server, example_conn)) = Ret ()" by code_simp
  then obtain srv' c' where w: "handle_line (''PUSH 3'' @ [newline, nul]) (example_server, example_conn) = (Ret (), (srv', c'))"
    by (metis fst_conv prod.exhaust)
  from line_answered [OF example_ok this] w show ?thesis by simp
qed

text \<open>
  C38. The login rule. Until a \<open>LOGIN\<close> was accepted, any other decoded message is
  answered by an \<open>ERROR\<close> and ends the loop; afterwards it is dispatched. A
  \<open>LOGIN\<close> is always answered \<open>OK\<close>, also from a client that is logged in
  already: the test for a second login looks at the pointer, not at the flag behind it.
\<close>

theorem login_rule:
  assumes "decode (c_str buf) (client_msg c) = (Ret (), m)"
  shows "(m_message_type m = LOGIN \<longrightarrow>
            handle_line buf (srv, c) =
              (Ret (), (srv, answer ok_line (c\<lparr>client_msg := m, first_valid_message := False\<rparr>)))) \<and>
         (m_message_type m \<noteq> LOGIN \<and> first_valid_message c \<longrightarrow>
            handle_line buf (srv, c) =
              (Ret (), (srv, answer (error_line ''Please log in first.'')
                 (c\<lparr>client_msg := m, loop_in_progress := False\<rparr>)))) \<and>
         (m_message_type m \<noteq> LOGIN \<and> \<not> first_valid_message c \<longrightarrow>
            handle_line buf (srv, c) = call_response_function m (srv, c\<lparr>client_msg := m\<rparr>))"
  using handle_line_login [OF assms] handle_line_not_logged_in [OF assms] handle_line_request [OF assms] by blast

theorem login_rule_witness:
  "handle_line (''LOGIN ann'' @ [newline, nul]) (example_server, example_conn) =
     (Ret (), (example_server, answer ok_line
       (example_conn\<lparr>client_msg := Message_new LOGIN [''ann''], first_valid_message := False\<rparr>)))"
proof -
  have "decode (c_str (''LOGIN ann'' @ [newline, nul])) (client_msg example_conn) =
      (Ret (), Message_new LOGIN [''ann''])" by code_simp
  from login_rule [OF this] show ?thesis by (simp add: Message_new_def)
qed

text \<open>
  A line that does not decode is answered by an \<open>ERROR\<close> with the reason, gives up
  an open transaction, and does not end the loop: the connection goes on.
\<close>

theorem malformed_line:
  assumes "conn_ok (srv, c)" "decode (c_str buf) (client_msg c) = (Throw e, m)"
  shows "\<exists>text srv' c'. e = InvalidMessage text \<and>
    handle_line buf (srv, c) = (Ret (), (srv', answer (error_line text) c')) \<and>
    (srv', c') = aborted (srv, c\<lparr>client_msg := m\<rparr>) \<and>
    loop_in_progress c' = loop_in_progress c \<and> owned_tables (me c) srv' = []"
proof -
  let ?c = "c\<lparr>client_msg := m\<rparr>"
  obtain t where e: "e = InvalidMessage t"
    using decode_Throw [OF assms(2)] is_InvalidMessageE by blast
  obtain srv' c' where a: "aborted (srv, ?c) = (srv', c')" by fastforce
  have "conn_ok (srv, ?c)"
    using assms(1) by (rule conn_ok_conn) (use conn_okD(7) [OF assms(1)] in simp_all)
  then have ok: "conn_ok (srv', c')" using conn_ok_aborted a by fastforce
  have "locked_tables c' = []" "me c' = me c" "loop_in_progress c' = loop_in_progress c"
    using a by (auto simp: aborted_def)
  moreover from this have "set (owned_tables (me c) srv') = {}"
    using conn_okD(4) [OF ok] by (simp add: set_owned_tables)
  ultimately show ?thesis
    using handle_line_invalid [OF assms(2,1)] a e by auto
qed

theorem malformed_line_witness:
  "\<exists>text srv' c'. handle_line (''FROB x'' @ [newline, nul]) (example_server, example_conn) =
      (Ret (), (srv', answer (error_line text) c'))"
proof -
  have "decode (c_str (''FROB x'' @ [newline, nul])) (client_msg example_conn) =
      (Throw (InvalidMessage ''Message must have a type.''), client_msg example_conn)" by code_simp
  from malformed_line [OF example_ok this] show ?thesis by blast
qed

text \<open>
  C40. The read of a line overruns the buffer of the loop: \<open>rio_readlineb\<close> is told the
  size of the \<open>rio_t\<close>, but the buffer has 1024 bytes. A line is read correctly
  exactly when it and the terminating NUL fit the 1024 bytes; every longer line (up to the
  size of the \<open>rio_t\<close>), also the longest message that \<open>encode\<close> produces, is
  stored past the end.
\<close>

theorem request_buffer:
  assumes "rio_ok (m_fdbuf c, incoming c)" "remaining (m_fdbuf c, incoming c) = l @ newline # rest"
    and "newline \<notin> set l" "length l + 2 \<le> 8208"
  shows "fst (read_request (srv, c)) =
    (if length l + 2 \<le> 1024 then Ret (int (length l) + 1, l @ [newline, nul]) else Fault Buffer_overrun)"
proof -
  have len: "length l + 1 \<le> 8207" using assms(4) by simp
  have "\<exists>rp' inp'. rio_readlineb (Suc 8207) (m_fdbuf c) (incoming c) =
      (int (length l) + 1, l @ [newline, nul], rp', inp')"
    using rio_readlineb_line [OF assms(1), of 8207] line_upto_line [OF assms(3), of 8207 rest] len assms(2)
    by auto
  moreover have "sizeof_rio_t = Suc 8207" by (simp add: sizeof_rio_t_def RIO_BUFSIZE_def)
  ultimately obtain rp' inp' where "rio_readlineb sizeof_rio_t (m_fdbuf c) (incoming c) =
      (int (length l) + 1, l @ [newline, nul], rp', inp')" by metis
  then show ?thesis by (simp add: read_request_run MAX_ENCODED_LEN_def)
qed

theorem request_buffer_witness:
  "fst (read_request (example_server,
      example_conn\<lparr>m_fdbuf := example_rio, incoming := [Bytes (replicate 1023 CHR ''A''), Bytes [newline]]\<rparr>)) =
     Fault Buffer_overrun"
proof -
  let ?c = "example_conn\<lparr>m_fdbuf := example_rio, incoming := [Bytes (replicate 1023 CHR ''A''), Bytes [newline]]\<rparr>"
  have ex: "rio_wf example_rio" "buffered example_rio = []" by code_simp+
  then have "rio_ok (m_fdbuf ?c, incoming ?c)" by (simp add: rio_ok_def clean_def)
  moreover have "remaining (m_fdbuf ?c, incoming ?c) = replicate 1023 CHR ''A'' @ newline # []"
    using ex by (simp add: remaining_def)
  ultimately show ?thesis
    using request_buffer [of ?c "replicate 1023 CHR ''A''" "[]"] by simp
qed

text \<open>
  A line that starts with a NUL byte is undefined behaviour: the \<open>std::string\<close> made
  of the buffer is empty and \<open>decode\<close> asks for its last character.
\<close>

theorem nul_line:
  "handle_line (nul # rest) (srv, c) = (Fault Index_out_of_range, (srv, c))"
proof -
  have "decode (c_str (nul # rest)) (client_msg c) = (Fault Index_out_of_range, client_msg c)"
    by (simp add: c_str_def decode_result)
  from handle_line_fault [OF this] show ?thesis by simp
qed

text \<open>
  A number that does not fit an \<open>int\<close> stops the server. When the top of the stack
  is such a number and the next line is an arithmetic request, the range error of
  \<open>std::stoi\<close> passes every \<open>catch\<close> and leaves the worker thread, which ends the
  process.
\<close>

theorem range_error_escapes:
  assumes "conn_ok (srv, c)" "\<not> first_valid_message c" "loop_in_progress c"
    and "stack c = a # b # vs" "2 \<le> get_size (stack c)" "stoi a = Throw (Out_of_range ''stoi'')"
    and "rio_ok (m_fdbuf c, incoming c)" "remaining (m_fdbuf c, incoming c) = ''ADD'' @ newline # rest"
  shows "\<exists>w. client_worker (Suc fuel) (srv, c) = Some (Throw (Out_of_range ''stoi''), w)"
proof -
  obtain rp' inp' where r: "chat_iteration (srv, c) =
      handle_line (''ADD'' @ [newline, nul]) (srv, c\<lparr>m_fdbuf := rp', incoming := inp'\<rparr>)"
    by (rule chat_iteration_reads [OF assms(7,8)]) simp_all
  let ?c = "c\<lparr>m_fdbuf := rp', incoming := inp'\<rparr>"
  have "decode (message_line ''ADD'' []) (client_msg ?c) = decode_fields ADD (concat (map ((#) CHR '' '') []))"
    by (rule decode_message_line) (simp_all add: message_line_def MAX_ENCODED_LEN_def)
  moreover have "decode_fields ADD [] = (Ret (), Message_new ADD [])" by code_simp
  moreover have "c_str (''ADD'' @ [newline, nul]) = message_line ''ADD'' []" by code_simp
  ultimately have d: "decode (c_str (''ADD'' @ [newline, nul])) (client_msg ?c) = (Ret (), Message_new ADD [])"
    by simp
  let ?d = "?c\<lparr>client_msg := Message_new ADD []\<rparr>"
  have "call_response_function (Message_new ADD []) (srv, ?d) = (Throw (Out_of_range ''stoi''), (srv, ?d))"
    using assms(4-6)
    by (intro call_response_escapes)
      (simp_all add: dispatch_def get_message_type_def Message_new_def arith_handlers arith_right_bad)
  then have "handle_line (''ADD'' @ [newline, nul]) (srv, ?c) = (Throw (Out_of_range ''stoi''), (srv, ?d))"
    using handle_line_request [OF d, of srv] assms(2) by (simp add: Message_new_def)
  then show ?thesis
    using assms(3) r
    by (simp add: client_worker_def chat_with_client_def)
qed

theorem range_error_escapes_witness:
  "\<exists>w. client_worker 1 (example_server, example_conn\<lparr>stack := [''9999999999'', ''1''], m_fdbuf := example_rio,
      incoming := [Bytes (''ADD'' @ [newline])]\<rparr>) = Some (Throw (Out_of_range ''stoi''), w)"
proof -
  let ?c = "example_conn\<lparr>stack := [''9999999999'', ''1''], m_fdbuf := example_rio,
      incoming := [Bytes (''ADD'' @ [newline])]\<rparr>"
  have ok: "conn_ok (example_server, ?c)"
    by (rule conn_ok_conn [OF example_ok]) (simp_all add: value_ok_def word_char_def isspace_def)
  have ex: "rio_wf example_rio" "buffered example_rio = []" by code_simp+
  have in_ok: "rio_ok (m_fdbuf ?c, incoming ?c)"
    using ex by (simp add: rio_ok_def clean_def)
  have rem: "remaining (m_fdbuf ?c, incoming ?c) = ''ADD'' @ newline # []"
    using ex by (simp add: remaining_def)
  have big: "stoi ''9999999999'' = Throw (Out_of_range ''stoi'')"
    by (simp add: stoi_def split_sign_def isspace_def isdigit_def char_between_def digits_value_def
        digit_value_def int_bounds)
  have "2 \<le> get_size [''9999999999'', ''1'']"
    "\<not> first_valid_message example_conn" "loop_in_progress example_conn" by code_simp+
  with range_error_escapes [OF ok _ _ _ _ big in_ok rem, of "''1''" "[]" 0] show ?thesis by simp
qed

end
