(* ===== verification/Sessions.thy ===== *)
theory Sessions
  imports Chat
begin

text \<open>
  The running server: \<open>Server::server_loop\<close> accepts clients and starts a thread for
  each; the threads share the \<open>Server\<close>. A state is the shared server with the
  connections of the live threads. A step (of a thread) is one turn of the accept loop, one iteration of a
  thread's loop, or a thread's end; a thread whose iteration would wait for a mutex has no
  step until the mutex is free, and a fault or an escaping exception stops the process. What
  a thread does between two reads of its socket is one step: finer interleavings of the
  statements of a single request are not represented.
\<close>

section \<open>States and steps\<close>

record system =
  server :: Server
  clients :: "thread_id \<rightharpoonup> ClientConnection"
  leaked :: "ClientConnection list"
  log :: "string list"
  crashed :: bool

definition system_start :: "Server \<Rightarrow> system" where
  "system_start srv = \<lparr>server = srv, clients = Map.empty, leaked = [], log = [], crashed = False\<rparr>"

text \<open>
  One turn of the accept loop. The arguments are what \<open>accept\<close> and
  \<open>pthread_create\<close> give: a descriptor (negative for an error, which is logged and
  otherwise ignored), the new thread's identity, the bytes the new client will send, and
  whether the thread could be started. A connection without a thread is never used or freed.
\<close>

definition accept_client ::
  "thread_id \<Rightarrow> int \<Rightarrow> rio_t \<Rightarrow> read_event list \<Rightarrow> bool \<Rightarrow> system \<Rightarrow> system" where
  "accept_client t client_fd garbage inp created s =
     (let s1 = (if client_fd < 0 then s\<lparr>log := log s @ [log_error ''Could not accept a client'']\<rparr> else s);
          client = ClientConnection_new t client_fd garbage inp
      in if created then s1\<lparr>clients := (clients s1)(t \<mapsto> client)\<rparr>
         else s1\<lparr>leaked := leaked s1 @ [client],
                 log := log s1 @ [log_error ''Could not create client thread'']\<rparr>)"

text \<open>The end of a thread: \<open>close\<close>, and the destructor of the connection.\<close>

definition finish_client :: "(world, unit) xcmd" where
  "finish_client = seq_cmd close_fd ClientConnection_destroy"

text \<open>
  \<open>main\<close> of \<open>server_main.cpp\<close>, up to the accept loop, which does not end. It exits with
  a status, what it wrote on the standard error and the descriptors that \<open>~Server\<close> closed,
  or it enters the loop with the server listening. \<open>open_listenfd\<close> is a parameter; the last
  argument is the uninitialised \<open>mutex_is_locked\<close>.
\<close>

datatype server_end = Exited int string "int list" | Serving system

definition Server_destroy :: "Server \<Rightarrow> int list" where
  "Server_destroy srv = [server_fd srv]"

definition server_main :: "(string \<Rightarrow> int) \<Rightarrow> bool \<Rightarrow> string list \<Rightarrow> server_end res" where
  "server_main open_listenfd garbage argv =
     (if length argv \<noteq> 2 then Ret (Exited 1 (''Usage: ./server <port>'' @ [newline]) [])
      else case server_listen (open_listenfd (argv ! 1)) (Server_new garbage) of
        (Ret u, srv) \<Rightarrow> Ret (Serving (system_start srv))
      | (Throw ex, srv) \<Rightarrow>
          if is_runtime_error ex
          then Ret (Exited 1 (log_error ''Fatal error starting server'') (Server_destroy srv))
          else Throw ex
      | (Fault u, srv) \<Rightarrow> Fault u
      | (Block, srv) \<Rightarrow> Block)"

lemma server_main_run:
  "server_main open_listenfd garbage [prog, port] =
     (let fd = open_listenfd port; srv = (Server_new garbage)\<lparr>server_fd := fd\<rparr> in
      if fd < 0 then Ret (Exited 1 (log_error ''Fatal error starting server'') [fd])
      else Ret (Serving (system_start srv)))"
  by (simp add: server_main_def server_listen_def run_simps Server_destroy_def Let_def)

lemma server_main_serving:
  assumes "server_main open_listenfd garbage argv = Ret (Serving s)"
  obtains fd where "0 \<le> fd" "s = system_start ((Server_new garbage)\<lparr>server_fd := fd\<rparr>)"
proof -
  have "length argv = 2" using assms by (simp add: server_main_def split: if_splits)
  then obtain prog port where "argv = [prog, port]" by (auto simp: numeral_2_eq_2 length_Suc_conv)
  with assms that [of "open_listenfd port"] show thesis by (auto simp: server_main_run Let_def split: if_splits)
qed

inductive step :: "thread_id \<Rightarrow> system \<Rightarrow> system \<Rightarrow> bool" where
  accept: "\<not> crashed s \<Longrightarrow> clients s t = None \<Longrightarrow> step t s (accept_client t fd g inp created s)"
| iterate: "\<not> crashed s \<Longrightarrow> clients s t = Some c \<Longrightarrow> loop_in_progress c \<Longrightarrow>
    chat_iteration (server s, c) = (Ret (), (srv', c')) \<Longrightarrow>
    step t s (s\<lparr>server := srv', clients := (clients s)(t \<mapsto> c')\<rparr>)"
| finish: "\<not> crashed s \<Longrightarrow> clients s t = Some c \<Longrightarrow> \<not> loop_in_progress c \<Longrightarrow>
    finish_client (server s, c) = (Ret (), (srv', c')) \<Longrightarrow>
    step t s (s\<lparr>server := srv', clients := (clients s)(t := None)\<rparr>)"
| crash: "\<not> crashed s \<Longrightarrow> clients s t = Some c \<Longrightarrow> loop_in_progress c \<Longrightarrow>
    chat_iteration (server s, c) = (r, (srv', c')) \<Longrightarrow> (\<exists>e. r = Throw e) \<or> (\<exists>u. r = Fault u) \<Longrightarrow>
    step t s (s\<lparr>server := srv', clients := (clients s)(t \<mapsto> c'), crashed := True\<rparr>)"

inductive_cases stepE: "step t s s'"

inductive reachable :: "system \<Rightarrow> bool" where
  start: "server_main open_listenfd garbage argv = Ret (Serving s) \<Longrightarrow> reachable s"
| next_state: "reachable s \<Longrightarrow> step t s s' \<Longrightarrow> reachable s'"


text \<open>The server that \<open>./server 5000\<close> starts, when the kernel gives it descriptor 0
  (the standard input is closed).\<close>

definition listening :: system where
  "listening = system_start (Server_new False)"

lemma listening_reachable: "reachable listening"
  by (rule reachable.start [of "\<lambda>port. 0" False "[''./server'', ''5000'']"])
    (simp add: server_main_run listening_def Server_new_def)

section \<open>The invariant\<close>

definition sys_ok :: "system \<Rightarrow> bool" where
  "sys_ok s \<longleftrightarrow>
     server_ok (server s) \<and>
     (\<forall>t c. clients s t = Some c \<longrightarrow> me c = t \<and> conn_ok (server s, c)) \<and>
     (\<forall>p u. p < length (heap (server s)) \<and> t_mutex (heap (server s) ! p) = Some u \<longrightarrow> clients s u \<noteq> None)"

lemma sys_okI:
  assumes "server_ok (server s)" "\<And>t c. clients s t = Some c \<Longrightarrow> me c = t \<and> conn_ok (server s, c)"
    and "\<And>p u. p < length (heap (server s)) \<Longrightarrow> t_mutex (heap (server s) ! p) = Some u \<Longrightarrow> clients s u \<noteq> None"
  shows "sys_ok s"
  using assms unfolding sys_ok_def by blast

lemma sys_ok_holder:
  "sys_ok s \<Longrightarrow> p < length (heap (server s)) \<Longrightarrow> t_mutex (heap (server s) ! p) = Some u \<Longrightarrow>
     clients s u \<noteq> None"
  unfolding sys_ok_def by blast

lemma sys_okD:
  assumes "sys_ok s" "clients s t = Some c"
  shows "me c = t" "conn_ok (server s, c)"
  using assms by (simp_all add: sys_ok_def)

text \<open>The order of a connection survives what other threads guarantee.\<close>

lemma conn_ok_guar:
  assumes ok: "conn_ok (srv, c)" and g: "guar t srv srv'" and u: "me c \<noteq> t" and s: "server_ok srv'"
  shows "conn_ok (srv', c)"
proof -
  have "set (owned_tables (me c) srv') = set (owned_tables (me c) srv)"
    using guar_owned [OF g u] by simp
  with ok s show ?thesis by (simp add: conn_ok_def server_ok_def)
qed

lemma sys_ok_update:
  assumes sys: "sys_ok s" and c: "clients s t = Some c"
    and p: "progress (server s, c) (srv', c')"
  shows "sys_ok (s\<lparr>server := srv', clients := (clients s)(t \<mapsto> c')\<rparr>)"
proof -
  note D = sys_okD [OF sys]
  have g: "guar t (server s) srv'" and ok: "conn_ok (srv', c')" and me: "me c' = t"
    using p D(1) [OF c] by (simp_all add: progress_def)
  have srv: "server_ok srv'" using conn_ok_server_ok [OF ok] .
  let ?s = "s\<lparr>server := srv', clients := (clients s)(t \<mapsto> c')\<rparr>"
  have "me d = u \<and> conn_ok (srv', d)" if d: "clients ?s u = Some d" for u d
  proof (cases "u = t")
    case True
    then show ?thesis using d ok me by simp
  next
    case False
    then have d': "clients s u = Some d" using d by simp
    then show ?thesis using conn_ok_guar [OF D(2) [OF d'] g _ srv] D(1) [OF d'] False by simp
  qed
  moreover have "clients ?s u \<noteq> None" if "p < length (heap srv')" "t_mutex (heap srv' ! p) = Some u" for p u
    using guar_holder [OF g that(1) _ that(2)] sys_ok_holder [OF sys, of p u] by (cases "u = t") simp_all
  ultimately show ?thesis
    using srv by (intro sys_okI) auto
qed

lemma sys_ok_remove:
  assumes "sys_ok s" "clients s t = Some c" "locked_tables c = []"
  shows "sys_ok (s\<lparr>clients := (clients s)(t := None)\<rparr>)"
proof -
  have "t_mutex (heap (server s) ! p) \<noteq> Some t" if "p < length (heap (server s))" for p
    using conn_ok_held [OF sys_okD(2) [OF assms(1,2)] that] assms(3) sys_okD(1) [OF assms(1,2)] by simp
  then show ?thesis
    using assms(1) sys_okD [OF assms(1)] sys_ok_holder [OF assms(1)]
    by (intro sys_okI) (auto simp: sys_ok_def split: if_splits)
qed

lemma finish_client_run:
  assumes "conn_ok (srv, c)"
  shows "finish_client (srv, c) = (Ret (), aborted (srv, c\<lparr>fd_closed := True\<rparr>))"
proof -
  let ?c = "c\<lparr>fd_closed := True\<rparr>"
  have ok: "conn_ok (srv, ?c)" using progress_conn [OF assms, of ?c] by (simp add: progress_def)
  show ?thesis
    using fail_transaction_run [OF conn_ok_owns [OF ok]] aborted_idle [of ?c] conn_ok_unlocked [OF ok]
    by (simp add: finish_client_def close_fd_def ClientConnection_destroy_def run_simps)
qed

lemma progress_finish:
  assumes "conn_ok (srv, c)"
  shows "progress (srv, c) (aborted (srv, c\<lparr>fd_closed := True\<rparr>))"
proof -
  let ?c = "c\<lparr>fd_closed := True\<rparr>"
  have p: "progress (srv, c) (srv, ?c)" using progress_conn [OF assms] by simp
  then have ok: "conn_ok (srv, ?c)" by (simp add: progress_def)
  then have "guar (me ?c) srv (fst (aborted (srv, ?c)))"
    using guar_release [OF conn_ok_owns [OF ok] refl, of rollback_changes] by (simp add: aborted_def)
  then have "progress (srv, ?c) (aborted (srv, ?c))"
    using conn_ok_aborted [OF ok] by (simp add: progress_def) (simp add: aborted_def)
  with p show ?thesis by (rule progress_trans)
qed

lemma sys_ok_accept:
  assumes "sys_ok s" "clients s t = None"
  shows "sys_ok (accept_client t fd g inp created s)"
proof -
  have "conn_ok (server s, ClientConnection_new t fd g inp)"
    using sys_ok_holder [OF assms(1), of _ t] assms by (intro conn_ok_new) (auto simp: sys_ok_def)
  then show ?thesis
    using assms(1) sys_okD [OF assms(1)] sys_ok_holder [OF assms(1)]
    by (intro sys_okI) (auto simp: sys_ok_def accept_client_def Let_def split: if_splits)
qed

lemma step_sys_ok:
  assumes "step t s s'" "sys_ok s" "\<not> crashed s'"
  shows "sys_ok s'"
  using assms(1)
proof cases
  case (accept fd g inp created)
  then show ?thesis using sys_ok_accept assms(2) by simp
next
  case (iterate c srv' c')
  from sys_ok_update [OF assms(2) this(3) chat_iteration_ok [OF sys_okD(2) [OF assms(2) this(3)] this(5)]]
  show ?thesis using iterate(1) by simp
next
  case (finish c srv' c')
  note ok = sys_okD(2) [OF assms(2) finish(3)]
  have a: "aborted (server s, c\<lparr>fd_closed := True\<rparr>) = (srv', c')"
    using finish(5) finish_client_run [OF ok] by simp
  let ?s = "s\<lparr>server := srv', clients := (clients s)(t \<mapsto> c')\<rparr>"
  have "sys_ok ?s" using sys_ok_update [OF assms(2) finish(3)] progress_finish [OF ok] a by simp
  moreover have "locked_tables c' = []" using a by (auto simp: aborted_def)
  ultimately have "sys_ok (?s\<lparr>clients := (clients ?s)(t := None)\<rparr>)" by (intro sys_ok_remove) simp_all
  then show ?thesis using finish(1) by simp
next
  case (crash c r srv' c')
  then show ?thesis using assms(3) by simp
qed

lemma step_not_crashed: "step t s s' \<Longrightarrow> \<not> crashed s"
  by (erule stepE) simp_all

lemma reachable_sys_ok: "reachable s \<Longrightarrow> \<not> crashed s \<Longrightarrow> sys_ok s"
proof (induction rule: reachable.induct)
  case (start open_listenfd garbage argv s)
  from start(1) obtain fd where "s = system_start ((Server_new garbage)\<lparr>server_fd := fd\<rparr>)"
    by (rule server_main_serving)
  then show ?case
    using server_ok_new [of garbage]
    by (simp add: sys_ok_def system_start_def server_ok_def server_wf_def) (simp add: Server_new_def)
next
  case (next_state s t s')
  then show ?case using step_sys_ok step_not_crashed by blast
qed

section \<open>Who waits for whom\<close>

text \<open>A table that thread \<open>t\<close> may have to wait for: another thread owns its mutex.\<close>

definition busy_for :: "thread_id \<Rightarrow> Server \<Rightarrow> table_ptr \<Rightarrow> thread_id \<Rightarrow> bool" where
  "busy_for t srv p u \<longleftrightarrow> p < length (heap srv) \<and> t_mutex (heap srv ! p) = Some u \<and> u \<noteq> t"

lemma arith_no_block: "conn_ok (srv, c) \<Longrightarrow> arith_fun t = Some (x, f) \<Longrightarrow> fst (arith_handler x f (srv, c)) \<noteq> Block"
proof
  assume ok: "conn_ok (srv, c)" and f: "arith_fun t = Some (x, f)" and b: "fst (arith_handler x f (srv, c)) = Block"
  show False
  proof (cases "2 \<le> get_size (stack c)")
    case True
    obtain a l vs where st: "stack c = a # l # vs" using get_size_2 [OF True] by blast
    consider e where "stoi a = Throw e" | i e where "stoi a = Ret i" "stoi l = Throw e"
      | i j where "stoi a = Ret i" "stoi l = Ret j"
      using stoi_cases by metis
    then show False
    proof cases
      case (3 i j)
      have "in_int j" "in_int i" using 3 stoi_range by blast+
      from arith_fun_result [OF f this] b 3 show False by (auto simp: arith_operands [OF st True])
    qed (use b in \<open>auto simp: arith_right_bad [OF st True] arith_left_bad [OF st True] split: if_splits\<close>)
  qed (use b in \<open>simp add: arith_short\<close>)
qed

lemma handle_set_block:
  assumes ok: "conn_ok (srv, c)" and msg: "m_args msg = [name, key]" and b: "fst (handle_set msg (srv, c)) = Block"
  shows "\<not> in_transaction c \<and> (\<exists>p u. busy_for (me c) srv p u)"
proof (cases "1 \<le> get_size (stack c)")
  case False
  then show ?thesis using b by (simp add: handle_set_empty)
next
  case size: True
  obtain v vs where st: "stack c = v # vs" using get_size_1 [OF size] by blast
  note s = msg st size
  show ?thesis
  proof (cases "find_table name srv")
    case None
    then show ?thesis using b by (simp add: handle_set_table [OF s])
  next
    case p: (Some p)
    have pl: "p < length (heap srv)" using p conn_okD(1) [OF ok] find_table_valid by blast
    from ok pl show ?thesis
    proof (cases rule: table_cases)
      case free
      then show ?thesis
        using b by (cases "in_transaction c")
          (simp_all add: handle_set_acquire [OF s p pl] handle_set_now [OF s p pl])
    next
      case mine
      then show ?thesis using b by (simp add: handle_set_held [OF s p pl])
    next
      case (other u)
      then show ?thesis
        using b pl by (cases "in_transaction c") (auto simp: handle_set_refused [OF s p pl] busy_for_def)
    qed
  qed
qed

lemma handle_get_block:
  assumes ok: "conn_ok (srv, c)" and msg: "m_args msg = [name, key]" "m_message_type msg = GET"
    and nb: "\<not> get_breaks msg (srv, c)" and b: "fst (handle_get msg (srv, c)) = Block"
  shows "\<not> in_transaction c \<and> (\<exists>p u. busy_for (me c) srv p u)"
proof (cases "find_table name srv")
  case None
  then show ?thesis using b by (simp add: handle_get_table [OF msg(1)])
next
  case p: (Some p)
  have pl: "p < length (heap srv)" using p conn_okD(1) [OF ok] find_table_valid by blast
  have val: "\<exists>v. table_get key (heap srv ! p) = Ret v" if "t_mutex (heap srv ! p) \<in> {None, Some (me c)}"
    using nb p that msg ts.present_read by (auto simp: get_breaks_def)
  from ok pl show ?thesis
  proof (cases rule: table_cases)
    case free
    then obtain v where "table_get key (heap srv ! p) = Ret v" using val by auto
    then show ?thesis
      using b free by (cases "in_transaction c")
        (simp_all add: handle_get_acquire [OF msg(1) p pl] handle_get_now [OF msg(1) p pl])
  next
    case mine
    then obtain v where "table_get key (heap srv ! p) = Ret v" using val by auto
    then show ?thesis using b mine by (simp add: handle_get_held [OF msg(1) p pl])
  next
    case (other u)
    then show ?thesis
      using b pl by (cases "in_transaction c") (auto simp: handle_get_refused [OF msg(1) p pl] busy_for_def)
  qed
qed

lemma dispatch_block:
  assumes ok: "conn_ok (srv, c)" and msg: "request_ok msg" and nb: "\<not> get_breaks msg (srv, c)"
    and b: "fst (dispatch msg (srv, c)) = Block"
  shows "\<not> in_transaction c \<and> (\<exists>p u. busy_for (me c) srv p u)"
proof -
  note args = request_args [OF msg]
  note d = dispatch_def get_message_type_def
  show ?thesis
  proof (cases "arith_fun (m_message_type msg)")
    case (Some tf)
    then show ?thesis
      using dispatch_arith [of msg "fst tf" "snd tf"] arith_no_block [OF ok, of "m_message_type msg" "fst tf" "snd tf"] b
      by simp
  next
    case None
    show ?thesis
    proof (cases "m_message_type msg")
      case CREATE
      then obtain name where "m_args msg = [name]" using args(1) by auto
      then show ?thesis
        using b CREATE by (simp add: d handle_create_run [OF _ conn_okD(2) [OF ok]] split: if_splits)
    next
      case PUSH
      then obtain v where "m_args msg = [v]" using args(1) by auto
      then show ?thesis using b PUSH by (simp add: d handle_push_run)
    next
      case SET
      then obtain name key where "m_args msg = [name, key]" using args(2) by auto
      then show ?thesis using handle_set_block [OF ok] b SET by (simp add: d)
    next
      case GET
      then obtain name key where "m_args msg = [name, key]" using args(2) by auto
      then show ?thesis using handle_get_block [OF ok _ GET nb] b GET by (simp add: d)
    next
      case COMMIT
      then show ?thesis
        using b by (simp add: d handle_commit_run [OF conn_ok_owns [OF ok]] split: if_splits)
    qed (use None b in \<open>simp_all add: d run_simps handle_begin_run handle_pop_run handle_top_run handle_bye_def
        split: if_splits list.splits\<close>)
  qed
qed

lemma call_response_block:
  assumes ok: "conn_ok (srv, c)" and msg: "request_ok msg"
    and b: "fst (call_response_function msg (srv, c)) = Block"
  shows "\<not> in_transaction c \<and> (\<exists>p u. busy_for (me c) srv p u)"
proof -
  have nb: "\<not> get_breaks msg (srv, c)" using get_breaks_faults [OF ok msg] b by auto
  obtain r srv' c' where run: "dispatch msg (srv, c) = (r, (srv', c'))" by (metis prod.exhaust)
  have "r = Block"
  proof (cases r)
    case (Throw e)
    have "handler_ok (srv, c) (Throw e, (srv', c'))" using dispatch_ok [OF ok msg nb] run Throw by simp
    then have "e = Out_of_range ''stoi'' \<or> call_response_function msg (srv, c) = failed_with (what e) (srv', c')"
      using call_response_failed [of msg "(srv, c)" e srv' c'] run Throw by (auto simp: handler_ok_def step_ok_def)
    then have False
      using b call_response_escapes [of msg "(srv, c)" "Out_of_range ''stoi''"] run Throw
      by (auto simp: failed_with_def split_beta)
    then show ?thesis ..
  qed (use b run in \<open>auto simp: call_response_done\<close>)
  then show ?thesis using dispatch_block [OF ok msg nb] run by simp
qed

lemma chat_block:
  assumes ok: "conn_ok (srv, c)" and b: "fst (chat_iteration (srv, c)) = Block"
  shows "\<not> in_transaction c \<and> (\<exists>p u. busy_for (me c) srv p u)"
proof -
  obtain n buf fdbuf inp where r: "rio_readlineb sizeof_rio_t (m_fdbuf c) (incoming c) = (n, buf, fdbuf, inp)"
    by (metis prod_cases4)
  let ?c = "c\<lparr>m_fdbuf := fdbuf, incoming := inp\<rparr>"
  have hl: "fst (handle_line buf (srv, ?c)) = Block"
    using b by (simp add: chat_iteration_def run_simps read_request_run [OF r] split: if_splits)
  obtain d m where d: "decode (c_str buf) (client_msg ?c) = (d, m)" by fastforce
  let ?d = "?c\<lparr>client_msg := m\<rparr>"
  have ok1: "conn_ok (srv, ?c)" "conn_ok (srv, ?d)"
    using conn_ok_conn [OF ok] conn_okD(7) [OF ok] by simp_all
  show ?thesis
  proof (cases d)
    case (Throw e)
    then show ?thesis using hl handle_line_invalid [OF d [unfolded Throw] ok1(1)] by (simp add: split_beta)
  next
    case (Fault u)
    then show ?thesis using hl d by (simp add: handle_line_fault)
  next
    case Block
    then show ?thesis using d decode_no_block by (metis fst_conv)
  next
    case (Ret u)
    then have d': "decode (c_str buf) (client_msg ?c) = (Ret (), m)" using d by simp
    have "fst (call_response_function m (srv, ?d)) = Block"
      using hl handle_line_login [OF d', of srv] handle_line_not_logged_in [OF d', of srv]
        handle_line_request [OF d', of srv]
      by (cases "m_message_type m = LOGIN"; cases "first_valid_message ?c") simp_all
    from call_response_block [OF ok1(2) decode_request_ok [OF d'] this] show ?thesis by simp
  qed
qed

section \<open>Steps of other threads\<close>





section \<open>A scenario\<close>

text \<open>
  A client that logs in, creates a table, and sets a value in a transaction it does not
  end: a reachable state in which a table is held.
\<close>

definition conn_fields ::
  "ClientConnection \<Rightarrow> bool \<Rightarrow> ValueStack \<Rightarrow> bool \<Rightarrow> table_ptr list \<Rightarrow> bool" where
  "conn_fields c first st tx held \<longleftrightarrow>
     loop_in_progress c \<and> me c = 1 \<and> first_valid_message c = first \<and> stack c = st \<and>
     in_transaction c = tx \<and> locked_tables c = held"

definition alone :: "Server \<Rightarrow> bool \<Rightarrow> ValueStack \<Rightarrow> bool \<Rightarrow> table_ptr list \<Rightarrow> string \<Rightarrow> bool" where
  "alone srv first st tx held rest \<longleftrightarrow>
     (\<exists>s c. reachable s \<and> \<not> crashed s \<and> server s = srv \<and> clients s = [1 \<mapsto> c] \<and>
       conn_fields c first st tx held \<and>
       rio_ok (m_fdbuf c, incoming c) \<and> remaining (m_fdbuf c, incoming c) = rest)"

lemma alone_line:
  assumes s: "alone srv first st tx held (l @ newline # rest)" and l: "newline \<notin> set l" "length l + 2 \<le> 1024"
    and h: "\<And>c. conn_fields c first st tx held \<Longrightarrow>
      \<exists>c'. handle_line (l @ [newline, nul]) (srv, c) = (Ret (), (srv', c')) \<and> conn_fields c' first' st' tx' held'"
  shows "alone srv' first' st' tx' held' rest"
proof -
  obtain s c where r: "reachable s" "\<not> crashed s" "server s = srv" "clients s = [1 \<mapsto> c]"
    and f: "conn_fields c first st tx held"
    and io: "rio_ok (m_fdbuf c, incoming c)" "remaining (m_fdbuf c, incoming c) = l @ newline # rest"
    using s by (auto simp: alone_def)
  obtain rp inp where it: "chat_iteration (srv, c) =
      handle_line (l @ [newline, nul]) (srv, c\<lparr>m_fdbuf := rp, incoming := inp\<rparr>)"
    and io': "rio_ok (rp, inp)" "remaining (rp, inp) = rest"
    by (rule chat_iteration_reads [OF io l])
  have "conn_fields (c\<lparr>m_fdbuf := rp, incoming := inp\<rparr>) first st tx held"
    using f by (simp add: conn_fields_def)
  then obtain c' where c': "chat_iteration (srv, c) = (Ret (), (srv', c'))" "conn_fields c' first' st' tx' held'"
    using h it by fastforce
  have "io_is rp inp (srv', c')"
    using keepsD [OF keeps_handle_line, of rp inp "(srv, c\<lparr>m_fdbuf := rp, incoming := inp\<rparr>)" "l @ [newline, nul]"]
      c'(1) it by (simp add: io_is_def)
  moreover have "step 1 s (s\<lparr>server := srv', clients := (clients s)(1 \<mapsto> c')\<rparr>)"
    using r f c'(1) by (intro iterate [of s 1 c]) (simp_all add: conn_fields_def)
  then have "reachable (s\<lparr>server := srv', clients := (clients s)(1 \<mapsto> c')\<rparr>)"
    by (rule next_state [OF r(1)])
  ultimately show ?thesis
    unfolding alone_def using r(2,4) c' io'
    by (intro exI [of _ "s\<lparr>server := srv', clients := (clients s)(1 \<mapsto> c')\<rparr>"] exI [of _ c']) (simp add: io_is_def)
qed

lemma decode_line:
  assumes "type_name t = Ret name" "length (message_line name args) \<le> 1024" "newline \<notin> set (concat args)"
    and "decode_fields t (concat (map ((#) CHR '' '') args)) = (Ret (), m)"
    and "c_str (l @ [newline, nul]) = message_line name args"
  shows "decode (c_str (l @ [newline, nul])) m0 = (Ret (), m)"
  using decode_message_line [OF assms(1) _ assms(3)] assms(2,4,5) by (simp add: MAX_ENCODED_LEN_def)

lemma serve_plain:
  assumes "decode (c_str buf) (client_msg c) = (Ret (), m)" "m_message_type m \<noteq> LOGIN" "\<not> first_valid_message c"
    and "call_response_function m (srv, c\<lparr>client_msg := m\<rparr>) = (Ret (), (srv', c'))"
  shows "handle_line buf (srv, c) = (Ret (), (srv', c'))"
  using handle_line_request [OF assms(1-3)] assms(4) by simp

definition scenario_input :: string where
  "scenario_input = ''LOGIN ann'' @ newline # ''CREATE fruit'' @ newline # ''BEGIN'' @ newline #
     ''PUSH 3'' @ newline # ''SET fruit kiwis'' @ [newline]"

lemma decode_login_line:
  "decode (c_str (''LOGIN ann'' @ [newline, nul])) m0 = (Ret (), Message_new LOGIN [''ann''])"
  by (rule decode_line [of LOGIN "''LOGIN''" "[''ann'']"]) code_simp+

lemma decode_create_line:
  "decode (c_str (''CREATE fruit'' @ [newline, nul])) m0 = (Ret (), Message_new CREATE [''fruit''])"
  by (rule decode_line [of CREATE "''CREATE''" "[''fruit'']"]) code_simp+

lemma decode_begin_line:
  "decode (c_str (''BEGIN'' @ [newline, nul])) m0 = (Ret (), Message_new BEGIN [])"
  by (rule decode_line [of BEGIN "''BEGIN''" "[]"]) code_simp+

lemma decode_push_line:
  "decode (c_str (''PUSH 3'' @ [newline, nul])) m0 = (Ret (), Message_new PUSH [''3''])"
  by (rule decode_line [of PUSH "''PUSH''" "[''3'']"]) code_simp+

lemma decode_set_line:
  "decode (c_str (''SET fruit kiwis'' @ [newline, nul])) m0 = (Ret (), Message_new SET [''fruit'', ''kiwis''])"
  by (rule decode_line [of SET "''SET''" "[''fruit'', ''kiwis'']"]) code_simp+

lemma scenario_start: "alone (Server_new False) True [] False [] scenario_input"
proof -
  let ?c = "ClientConnection_new 1 4 example_rio [Bytes scenario_input]"
  let ?s = "accept_client 1 4 example_rio [Bytes scenario_input] True listening"
  have "reachable ?s" by (rule next_state [OF listening_reachable accept]) (simp_all add: system_start_def listening_def)
  moreover have "rio_ok (rio_readinitb 4 example_rio, [Bytes scenario_input])"
    "remaining (rio_readinitb 4 example_rio, [Bytes scenario_input]) = scenario_input"
    by (simp_all add: rio_ok_def rio_wf_def clean_def remaining_def buffered_def rio_readinitb_def scenario_input_def)
  ultimately show ?thesis
    unfolding alone_def
    by (intro exI [of _ ?s] exI [of _ ?c]) (simp add: conn_fields_def accept_client_def system_start_def listening_def)
qed

lemma scenario_holds:
  "alone (at_table 0 (\<lambda>t. table_set ''kiwis'' ''3'' (t\<lparr>t_mutex := Some 1\<rparr>)) example_server) False [] True [0] []"
proof -
  note f = conn_fields_def
  have "alone (Server_new False) True [] False [] (''LOGIN ann'' @ newline # ''CREATE fruit'' @ newline #
      ''BEGIN'' @ newline # ''PUSH 3'' @ newline # ''SET fruit kiwis'' @ newline # [])"
    using scenario_start unfolding scenario_input_def by simp
  then have "alone (Server_new False) False [] False [] (''CREATE fruit'' @ newline #
      ''BEGIN'' @ newline # ''PUSH 3'' @ newline # ''SET fruit kiwis'' @ newline # [])"
  proof (rule alone_line)
    fix c assume c: "conn_fields c True [] False []"
    from handle_line_login [OF decode_login_line, of "Server_new False" c] c
    show "\<exists>c'. handle_line (''LOGIN ann'' @ [newline, nul]) (Server_new False, c) =
        (Ret (), (Server_new False, c')) \<and> conn_fields c' False [] False []"
      by (auto simp: f Message_new_def)
  qed simp_all
  then have "alone example_server False [] False []
      (''BEGIN'' @ newline # ''PUSH 3'' @ newline # ''SET fruit kiwis'' @ newline # [])"
  proof (rule alone_line)
    fix c assume c: "conn_fields c False [] False []"
    have "handle_create (Message_new CREATE [''fruit'']) (Server_new False, d) = (Ret (), (example_server, answer ok_line d))" for d
      by (subst handle_create_run)
        (simp_all add: Message_new_def Server_new_def mutex_init_def find_table_map_of example_server_def create_table_run)
    then have "call_response_function (Message_new CREATE [''fruit'']) (Server_new False, d) =
        (Ret (), (example_server, answer ok_line d))" for d
      by (intro call_response_done) (simp_all add: dispatch_def get_message_type_def Message_new_def)
    from serve_plain [OF decode_create_line _ _ this] c
    show "\<exists>c'. handle_line (''CREATE fruit'' @ [newline, nul]) (Server_new False, c) =
        (Ret (), (example_server, c')) \<and> conn_fields c' False [] False []"
      by (auto simp: f Message_new_def)
  qed simp_all
  then have "alone example_server False [] True [] (''PUSH 3'' @ newline # ''SET fruit kiwis'' @ newline # [])"
  proof (rule alone_line)
    fix c assume c: "conn_fields c False [] False []"
    from serve_plain [OF decode_begin_line _ _ begin_response] c
    show "\<exists>c'. handle_line (''BEGIN'' @ [newline, nul]) (example_server, c) =
        (Ret (), (example_server, c')) \<and> conn_fields c' False [] True []"
      by (auto simp: f Message_new_def)
  qed simp_all
  then have "alone example_server False [''3''] True [] (''SET fruit kiwis'' @ newline # [])"
  proof (rule alone_line)
    fix c assume c: "conn_fields c False [] True []"
    from serve_plain [OF decode_push_line _ _ push_response] c
    show "\<exists>c'. handle_line (''PUSH 3'' @ [newline, nul]) (example_server, c) =
        (Ret (), (example_server, c')) \<and> conn_fields c' False [''3''] True []"
      by (auto simp: f Message_new_def)
  qed simp_all
  then show ?thesis
  proof (rule alone_line)
    fix c assume c: "conn_fields c False [''3''] True []"
    let ?c = "c\<lparr>client_msg := Message_new SET [''fruit'', ''kiwis'']\<rparr>"
    have "handle_set (Message_new SET [''fruit'', ''kiwis'']) (example_server, ?c) =
        (Ret (), (at_table 0 (\<lambda>t. table_set ''kiwis'' ''3'' (t\<lparr>t_mutex := Some (me ?c)\<rparr>)) example_server,
          answer ok_line (?c\<lparr>locked_tables := locked_tables ?c @ [0], stack := []\<rparr>)))"
      using c by (intro handle_set_acquire [where name = "''fruit''"]) (simp_all add: f Message_new_def get_size_small)
    then have "call_response_function (Message_new SET [''fruit'', ''kiwis'']) (example_server, ?c) =
        (Ret (), (at_table 0 (\<lambda>t. table_set ''kiwis'' ''3'' (t\<lparr>t_mutex := Some (me ?c)\<rparr>)) example_server,
          answer ok_line (?c\<lparr>locked_tables := locked_tables ?c @ [0], stack := []\<rparr>)))"
      by (intro call_response_done) (simp_all add: dispatch_def get_message_type_def Message_new_def)
    from serve_plain [OF decode_set_line _ _ this] c
    show "\<exists>c'. handle_line (''SET fruit kiwis'' @ [newline, nul]) (example_server, c) =
        (Ret (), (at_table 0 (\<lambda>t. table_set ''kiwis'' ''3'' (t\<lparr>t_mutex := Some 1\<rparr>)) example_server, c')) \<and>
        conn_fields c' False [] True [0]"
      by (auto simp: f Message_new_def)
  qed simp_all
qed

text \<open>A second client, which asks for the value of that table outside a transaction.\<close>

lemma decode_bob_line: "decode (c_str (''LOGIN bob'' @ [newline, nul])) m0 = (Ret (), Message_new LOGIN [''bob''])"
  by (rule decode_line [of LOGIN "''LOGIN''" "[''bob'']"]) code_simp+

lemma decode_get_line:
  "decode (c_str (''GET fruit kiwis'' @ [newline, nul])) m0 = (Ret (), Message_new GET [''fruit'', ''kiwis''])"
  by (rule decode_line [of GET "''GET''" "[''fruit'', ''kiwis'']"]) code_simp+

lemma scenario_blocked:
  "\<exists>s c. reachable s \<and> \<not> crashed s \<and> clients s 2 = Some c \<and> fst (chat_iteration (server s, c)) = Block"
proof -
  let ?srv = "at_table 0 (\<lambda>t. table_set ''kiwis'' ''3'' (t\<lparr>t_mutex := Some 1\<rparr>)) example_server"
  obtain s c where s: "reachable s" "\<not> crashed s" "clients s = [1 \<mapsto> c]" "server s = ?srv"
    using scenario_holds by (auto simp: alone_def)
  let ?inp = "[Bytes (''LOGIN bob'' @ newline # ''GET fruit kiwis'' @ [newline])]"
  let ?c0 = "ClientConnection_new 2 5 example_rio ?inp"
  let ?s1 = "accept_client 2 5 example_rio ?inp True s"
  have r1: "reachable ?s1" by (rule next_state [OF s(1) accept]) (simp_all add: s)
  have s1: "\<not> crashed ?s1" "clients ?s1 2 = Some ?c0" "server ?s1 = ?srv"
    using s by (simp_all add: accept_client_def)
  have io: "rio_ok (m_fdbuf ?c0, incoming ?c0)"
    "remaining (m_fdbuf ?c0, incoming ?c0) = ''LOGIN bob'' @ newline # ''GET fruit kiwis'' @ [newline]"
    by (simp_all add: rio_ok_def rio_wf_def clean_def remaining_def buffered_def rio_readinitb_def)
  obtain rp inp where it: "chat_iteration (?srv, ?c0) =
      handle_line (''LOGIN bob'' @ [newline, nul]) (?srv, ?c0\<lparr>m_fdbuf := rp, incoming := inp\<rparr>)"
    and io1: "rio_ok (rp, inp)" "remaining (rp, inp) = ''GET fruit kiwis'' @ [newline]"
    by (rule chat_iteration_reads [OF io]) simp_all
  let ?c1 = "answer ok_line (?c0\<lparr>m_fdbuf := rp, incoming := inp, client_msg := Message_new LOGIN [''bob''],
      first_valid_message := False\<rparr>)"
  have "chat_iteration (?srv, ?c0) = (Ret (), (?srv, ?c1))"
    unfolding it by (rule handle_line_login [OF decode_bob_line]) (simp add: Message_new_def)
  then have "step 2 ?s1 (?s1\<lparr>server := ?srv, clients := (clients ?s1)(2 \<mapsto> ?c1)\<rparr>)"
    using s1 by (intro iterate [OF s1(1,2)]) simp_all
  then have r2: "reachable (?s1\<lparr>server := ?srv, clients := (clients ?s1)(2 \<mapsto> ?c1)\<rparr>)"
    by (rule next_state [OF r1])
  have io2: "rio_ok (m_fdbuf ?c1, incoming ?c1)"
    "remaining (m_fdbuf ?c1, incoming ?c1) = ''GET fruit kiwis'' @ newline # []"
    using io1 by simp_all
  obtain rp' inp' where it2: "chat_iteration (?srv, ?c1) =
      handle_line (''GET fruit kiwis'' @ [newline, nul]) (?srv, ?c1\<lparr>m_fdbuf := rp', incoming := inp'\<rparr>)"
    by (rule chat_iteration_reads [OF io2]) simp_all
  let ?m = "Message_new GET [''fruit'', ''kiwis'']"
  let ?c2 = "?c1\<lparr>m_fdbuf := rp', incoming := inp', client_msg := ?m\<rparr>"
  have "handle_get ?m (?srv, ?c2) = (Block, (?srv, ?c2))"
    by (rule handle_get_wait [where name = "''fruit''" and p = 0 and u = 1])
      (simp_all add: Message_new_def set_commutes_mutex)
  then have "call_response_function ?m (?srv, ?c2) = (Block, (?srv, ?c2))"
    by (intro call_response_done) (simp_all add: dispatch_def get_message_type_def Message_new_def)
  then have "fst (chat_iteration (?srv, ?c1)) = Block"
    unfolding it2 by (subst handle_line_request [OF decode_get_line]) (simp_all add: Message_new_def)
  then show ?thesis
    using r2 s1(1)
    by (intro exI [of _ "?s1\<lparr>server := ?srv, clients := (clients ?s1)(2 \<mapsto> ?c1)\<rparr>"] exI [of _ ?c1]) simp
qed

section \<open>Properties of the running server\<close>

text \<open>
  C5. The invariant of the running server. In every reachable state of a process that has
  not crashed, the server is in order, every live connection is in order, and every locked
  table is held by a live thread that lists it: no lock is ever orphaned, two clients never
  hold the same table, and a client outside a transaction holds none.
\<close>

theorem reachable_invariant:
  assumes "reachable s" "\<not> crashed s"
  shows "server_wf (server s) \<and>
    (\<forall>t c. clients s t = Some c \<longrightarrow>
       distinct (locked_tables c) \<and> set (locked_tables c) = set (owned_tables t (server s)) \<and>
       (\<not> in_transaction c \<longrightarrow> locked_tables c = [])) \<and>
    (\<forall>t u c d. clients s t = Some c \<and> clients s u = Some d \<and> t \<noteq> u \<longrightarrow>
       set (locked_tables c) \<inter> set (locked_tables d) = {}) \<and>
    (\<forall>p u. p < length (heap (server s)) \<and> t_mutex (heap (server s) ! p) = Some u \<longrightarrow>
       (\<exists>c. clients s u = Some c \<and> p \<in> set (locked_tables c)))"
proof -
  have ok: "sys_ok s" using assms by (rule reachable_sys_ok)
  note D = sys_okD [OF ok]
  have held: "p \<in> set (locked_tables c) \<longleftrightarrow>
      p < length (heap (server s)) \<and> t_mutex (heap (server s) ! p) = Some t" if "clients s t = Some c" for t c p
    using conn_okD(4) [OF D(2) [OF that]] D(1) [OF that] by simp
  have "set (locked_tables c) = set (owned_tables t (server s))" if "clients s t = Some c" for t c
    unfolding set_owned_tables using held [OF that] by blast
  moreover have "set (locked_tables c) \<inter> set (locked_tables d) = {}"
    if "clients s t = Some c \<and> clients s u = Some d \<and> t \<noteq> u" for t u c d
    using held that by fastforce
  moreover have "\<exists>c. clients s u = Some c \<and> p \<in> set (locked_tables c)"
    if "p < length (heap (server s)) \<and> t_mutex (heap (server s) ! p) = Some u" for p u
    using sys_ok_holder [OF ok] that held by blast
  ultimately show ?thesis
    using ok conn_okD(3,5) [OF D(2)] by (auto simp: sys_ok_def server_ok_def)
qed

theorem reachable_invariant_witness:
  "server_wf (server (accept_client 1 4 example_rio [] True listening))"
proof -
  let ?s = "accept_client 1 4 example_rio [] True listening"
  have "reachable ?s"
    by (rule next_state [OF listening_reachable accept]) (simp_all add: system_start_def listening_def)
  moreover have "\<not> crashed ?s" by (simp add: accept_client_def system_start_def listening_def)
  ultimately show ?thesis using reachable_invariant by blast
qed



text \<open>
  There is no deadlock. A client that has to wait holds no table itself, and the table
  it waits for is held by another client, which is in a transaction, is not waiting, and can
  take its next step: so no chain, let alone a circle, of waiting clients ever forms.
\<close>

theorem no_deadlock:
  assumes "reachable s" "\<not> crashed s" "clients s t = Some c"
    and "fst (chat_iteration (server s, c)) = Block"
  shows "locked_tables c = [] \<and>
    (\<exists>u d p. u \<noteq> t \<and> clients s u = Some d \<and> p \<in> set (locked_tables d) \<and> in_transaction d \<and>
       fst (chat_iteration (server s, d)) \<noteq> Block \<and> (\<exists>s'. step u s s'))"
proof -
  have ok: "sys_ok s" using assms(1,2) by (rule reachable_sys_ok)
  note D = sys_okD [OF ok]
  obtain p u where c: "\<not> in_transaction c" and b: "busy_for t (server s) p u"
    using chat_block [OF D(2) [OF assms(3)] assms(4)] D(1) [OF assms(3)] by blast
  obtain d where d: "clients s u = Some d"
    using sys_ok_holder [OF ok, of p u] b by (auto simp: busy_for_def)
  have p: "p \<in> set (locked_tables d)"
    using conn_okD(4) [OF D(2) [OF d]] D(1) [OF d] b by (simp add: busy_for_def)
  then have tx: "in_transaction d" using conn_ok_unlocked [OF D(2) [OF d]] by fastforce
  then have nb: "fst (chat_iteration (server s, d)) \<noteq> Block"
    using chat_block [OF D(2) [OF d]] by blast
  have "\<exists>s'. step u s s'"
  proof (cases "loop_in_progress d")
    case False
    obtain srv' c' where "finish_client (server s, d) = (Ret (), (srv', c'))"
      using finish_client_run [OF D(2) [OF d]] by (metis prod.exhaust)
    then show ?thesis using finish [OF assms(2) d False] by blast
  next
    case True
    obtain r srv' c' where it: "chat_iteration (server s, d) = (r, (srv', c'))" by (metis prod.exhaust)
    show ?thesis
      using it nb iterate [OF assms(2) d True, of srv' c'] crash [OF assms(2) d True it]
      by (cases r) auto
  qed
  then show ?thesis
    using conn_ok_unlocked [OF D(2) [OF assms(3)] c] b d p tx nb by (auto simp: busy_for_def)
qed

theorem no_deadlock_witness:
  "\<exists>s c u d p. clients s 2 = Some c \<and> fst (chat_iteration (server s, c)) = Block \<and>
     u \<noteq> 2 \<and> clients s u = Some d \<and> p \<in> set (locked_tables d) \<and> (\<exists>s'. step u s s')"
proof -
  obtain s c where s: "reachable s" "\<not> crashed s" "clients s 2 = Some c" "fst (chat_iteration (server s, c)) = Block"
    using scenario_blocked by blast
  from no_deadlock [OF this] s(3,4) show ?thesis by blast
qed

end
