(* ===== verification/Statements.thy ===== *)
theory Statements
  imports Sessions
begin

text \<open>
  The statements of a connection one by one. \<open>Client_Connection\<close> gives a request as
  one transformation of the state; here the same member functions are programs of single
  accesses to what the threads share (a mutex, a table, the directory of tables), between which other threads can
  run. What a thread does with its own connection is one access (\<open>Own\<close>).
  \<open>run\<close> executes a program without interruption, and gives back the commands of
  \<open>Client_Connection\<close>; \<open>advance\<close> executes one access.
\<close>

section \<open>Programs\<close>

datatype 'a prog =
    Done "'a res"
  | Own "ClientConnection \<Rightarrow> ClientConnection" "ClientConnection \<Rightarrow> 'a prog"
  | Lock table_ptr "'a prog"
  | Unlock table_ptr "'a prog"
  | Trylock table_ptr "bool \<Rightarrow> 'a prog"
  | Read_table table_ptr "Table \<Rightarrow> 'a prog"
  | Write_table table_ptr "Table \<Rightarrow> Table" "'a prog"
  | Find string "table_ptr option \<Rightarrow> 'a prog"
  | Create string "'a prog"
  | Enter "'a prog"
  | Leave "'a prog"
  | Miss "'a prog"

text \<open>
  \<open>Enter\<close> and \<open>Leave\<close> are \<open>Server::lock\<close> and \<open>Server::unlock\<close>.
  \<open>Miss\<close> does nothing: it marks the place where \<open>get_table_value\<close> finds that
  the key is missing.
\<close>

primrec bindp :: "'a prog \<Rightarrow> ('a \<Rightarrow> 'b prog) \<Rightarrow> 'b prog" where
  "bindp (Done r) f = (case r of Ret x \<Rightarrow> f x | Throw e \<Rightarrow> Done (Throw e) | Fault u \<Rightarrow> Done (Fault u) | Block \<Rightarrow> Done Block)"
| "bindp (Own g k) f = Own g (\<lambda>c. bindp (k c) f)"
| "bindp (Lock p k) f = Lock p (bindp k f)"
| "bindp (Unlock p k) f = Unlock p (bindp k f)"
| "bindp (Trylock p k) f = Trylock p (\<lambda>b. bindp (k b) f)"
| "bindp (Read_table p k) f = Read_table p (\<lambda>t. bindp (k t) f)"
| "bindp (Write_table p g k) f = Write_table p g (bindp k f)"
| "bindp (Find n k) f = Find n (\<lambda>r. bindp (k r) f)"
| "bindp (Create n k) f = Create n (bindp k f)"
| "bindp (Enter k) f = Enter (bindp k f)"
| "bindp (Leave k) f = Leave (bindp k f)"
| "bindp (Miss k) f = Miss (bindp k f)"

definition seqp :: "unit prog \<Rightarrow> 'b prog \<Rightarrow> 'b prog" where
  "seqp m k = bindp m (\<lambda>_. k)"

primrec catchp :: "'a prog \<Rightarrow> (exn \<Rightarrow> 'a prog option) \<Rightarrow> 'a prog" where
  "catchp (Done r) h = (case r of Throw e \<Rightarrow> (case h e of None \<Rightarrow> Done r | Some k \<Rightarrow> k) | _ \<Rightarrow> Done r)"
| "catchp (Own g k) h = Own g (\<lambda>c. catchp (k c) h)"
| "catchp (Lock p k) h = Lock p (catchp k h)"
| "catchp (Unlock p k) h = Unlock p (catchp k h)"
| "catchp (Trylock p k) h = Trylock p (\<lambda>b. catchp (k b) h)"
| "catchp (Read_table p k) h = Read_table p (\<lambda>t. catchp (k t) h)"
| "catchp (Write_table p g k) h = Write_table p g (catchp k h)"
| "catchp (Find n k) h = Find n (\<lambda>r. catchp (k r) h)"
| "catchp (Create n k) h = Create n (catchp k h)"
| "catchp (Enter k) h = Enter (catchp k h)"
| "catchp (Leave k) h = Leave (catchp k h)"
| "catchp (Miss k) h = Miss (catchp k h)"

primrec for_eachp :: "('x \<Rightarrow> unit prog) \<Rightarrow> 'x list \<Rightarrow> unit prog" where
  "for_eachp f [] = Done (Ret ())"
| "for_eachp f (x # xs) = seqp (f x) (for_eachp f xs)"

section \<open>The member functions as programs\<close>

abbreviation retp :: "'a \<Rightarrow> 'a prog" where "retp x \<equiv> Done (Ret x)"
abbreviation throwp :: "exn \<Rightarrow> 'a prog" where "throwp e \<equiv> Done (Throw e)"

definition own_cmd :: "(ClientConnection, 'a) xcmd \<Rightarrow> 'a prog" where
  "own_cmd m = Own (\<lambda>c. snd (m c)) (\<lambda>c. Done (fst (m c)))"

definition askp :: "(ClientConnection \<Rightarrow> 'a) \<Rightarrow> 'a prog" where
  "askp f = own_cmd (gets f)"

definition changep :: "(ClientConnection \<Rightarrow> ClientConnection) \<Rightarrow> unit prog" where
  "changep f = own_cmd (modify f)"

definition stack_get_top_stmts :: "string prog" where
  "stack_get_top_stmts = own_cmd (\<lambda>c. (get_top (stack c), c))"

definition stack_pop_stmts :: "unit prog" where
  "stack_pop_stmts = own_cmd (update_cmd (\<lambda>c. bind_res (pop (stack c)) (\<lambda>s. Ret (c\<lparr>stack := s\<rparr>))))"

definition stack_push_stmts :: "string \<Rightarrow> unit prog" where
  "stack_push_stmts v = changep (\<lambda>c. c\<lparr>stack := push v (stack c)\<rparr>)"

definition send_stmts :: "Message \<Rightarrow> unit prog" where
  "send_stmts msg = bindp (Done (encode msg)) (\<lambda>line. changep (\<lambda>c. c\<lparr>written := written c @ [line]\<rparr>))"

definition write_ok_stmts :: "unit prog" where
  "write_ok_stmts = send_stmts (Message_new OK [])"

definition fail_transaction_stmts :: "unit prog" where
  "fail_transaction_stmts =
     seqp
       (bindp (askp locked_tables)
         (for_eachp (\<lambda>p. Write_table p rollback_changes (Unlock p (retp ())))))
       (seqp (changep (\<lambda>c. c\<lparr>locked_tables := []\<rparr>)) (changep (\<lambda>c. c\<lparr>in_transaction := False\<rparr>)))"

definition manage_exception_stmts :: "exn \<Rightarrow> bool \<Rightarrow> unit prog" where
  "manage_exception_stmts ex recoverable =
     seqp (bindp (askp in_transaction) (\<lambda>b. if b then fail_transaction_stmts else retp ()))
       (let response_type = (if recoverable then FAILED else ERROR)
        in send_stmts (Message_new response_type [what ex]))"

definition rethrow_operation_stmts :: "'a prog \<Rightarrow> 'a prog" where
  "rethrow_operation_stmts m =
     catchp m (\<lambda>ex. if is_OperationException ex then Some (throwp (OperationException (what ex))) else None)"

definition handle_create_stmts :: "Message \<Rightarrow> unit prog" where
  "handle_create_stmts msg =
     Enter
    (bindp (Done (get_arg msg 0)) (\<lambda>table_name.
     Find table_name (\<lambda>found.
     if found \<noteq> None
     then Leave (throwp (OperationException ''A table with this name already exists.''))
     else Create table_name (seqp write_ok_stmts (Leave (retp ()))))))"

definition handle_begin_stmts :: "unit prog" where
  "handle_begin_stmts =
     bindp (askp in_transaction) (\<lambda>b.
     if b then throwp (FailedTransaction ''Nested transactions are not supported.'')
     else seqp (changep (\<lambda>c. c\<lparr>in_transaction := True\<rparr>)) write_ok_stmts)"

definition handle_commit_stmts :: "unit prog" where
  "handle_commit_stmts =
     bindp (askp in_transaction) (\<lambda>b.
     if \<not> b then throwp (FailedTransaction ''Transaction is not ongoing.'')
     else
       seqp
         (bindp (askp locked_tables)
           (for_eachp (\<lambda>p. Write_table p commit_changes (Unlock p (retp ())))))
      (seqp (changep (\<lambda>c. c\<lparr>locked_tables := []\<rparr>))
      (seqp (changep (\<lambda>c. c\<lparr>in_transaction := False\<rparr>))
       write_ok_stmts)))"

definition handle_pop_stmts :: "unit prog" where
  "handle_pop_stmts = seqp (rethrow_operation_stmts stack_pop_stmts) write_ok_stmts"

definition handle_top_stmts :: "unit prog" where
  "handle_top_stmts =
     bindp (rethrow_operation_stmts stack_get_top_stmts) (\<lambda>top_value.
     send_stmts (push_arg top_value (Message_new DATA [])))"

definition pop_operand_stmts :: "int prog" where
  "pop_operand_stmts =
     bindp stack_get_top_stmts (\<lambda>v.
     bindp (Done (stoi v)) (\<lambda>i.
     seqp stack_pop_stmts (retp i)))"

definition pop_operands_stmts :: "string \<Rightarrow> (int \<times> int) prog" where
  "pop_operands_stmts not_enough =
     bindp (askp (\<lambda>c. get_size (stack c))) (\<lambda>size.
     if size < 2 then throwp (OperationException not_enough)
     else
       bindp
         (catchp pop_operand_stmts
           (\<lambda>ex. if is_Invalid_argument ex then Some (throwp conversion_error) else None))
         (\<lambda>right_operand.
       bindp
         (catchp pop_operand_stmts
           (\<lambda>ex. if is_Invalid_argument ex
                 then Some (seqp (stack_push_stmts (to_string right_operand)) (throwp conversion_error))
                 else None))
         (\<lambda>left_operand. retp (left_operand, right_operand))))"

definition arith_stmts :: "string \<Rightarrow> (int \<Rightarrow> int \<Rightarrow> int res) \<Rightarrow> unit prog" where
  "arith_stmts not_enough f =
     bindp (pop_operands_stmts not_enough) (\<lambda>(left, right).
     bindp (Done (f left right)) (\<lambda>r.
     seqp (stack_push_stmts (to_string r)) write_ok_stmts))"

definition handle_bye_stmts :: "unit prog" where
  "handle_bye_stmts = seqp (changep (\<lambda>c. c\<lparr>loop_in_progress := False\<rparr>)) write_ok_stmts"

definition handle_push_stmts :: "Message \<Rightarrow> unit prog" where
  "handle_push_stmts msg = bindp (Done (get_arg msg 0)) (\<lambda>v. seqp (stack_push_stmts v) write_ok_stmts)"

definition set_table_value_stmts :: "Message \<Rightarrow> table_ptr \<Rightarrow> unit prog" where
  "set_table_value_stmts msg table_obj =
     bindp (Done (get_arg msg 1)) (\<lambda>key.
     bindp stack_get_top_stmts (\<lambda>v.
     Write_table table_obj (table_set key v) stack_pop_stmts))"

definition acquire_in_transaction_stmts :: "table_ptr \<Rightarrow> unit prog" where
  "acquire_in_transaction_stmts table_obj =
     bindp (askp locked_tables) (\<lambda>held.
     if table_obj \<notin> set held
     then Trylock table_obj (\<lambda>lock_successful.
            if \<not> lock_successful then throwp (FailedTransaction ''Could not gain access to table.'')
            else changep (\<lambda>c. c\<lparr>locked_tables := locked_tables c @ [table_obj]\<rparr>))
     else retp ())"

definition handle_set_stmts :: "Message \<Rightarrow> unit prog" where
  "handle_set_stmts msg =
     bindp (askp (\<lambda>c. get_size (stack c))) (\<lambda>size.
     if size < 1 then throwp (OperationException ''No value on stack.'')
     else
     bindp (Done (get_arg msg 0)) (\<lambda>table_name.
     Find table_name (\<lambda>found.
     case found of
       None \<Rightarrow> throwp (OperationException ''Could not find table.'')
     | Some table_obj \<Rightarrow>
         bindp (askp in_transaction) (\<lambda>b.
         seqp
           (if \<not> b
            then Lock table_obj
                (seqp (set_table_value_stmts msg table_obj)
                (Write_table table_obj commit_changes
                (Unlock table_obj (retp ()))))
            else seqp (acquire_in_transaction_stmts table_obj)
                 (set_table_value_stmts msg table_obj))
           write_ok_stmts))))"

definition get_table_value_stmts :: "Message \<Rightarrow> table_ptr \<Rightarrow> unit prog" where
  "get_table_value_stmts msg table_obj =
     bindp (Done (get_arg msg 1)) (\<lambda>key.
     Read_table table_obj (\<lambda>t.
     if \<not> has_key key t
     then Miss (Unlock table_obj (throwp (OperationException ''Could not find key in specified table.'')))
     else Read_table table_obj (\<lambda>t. bindp (Done (table_get key t)) stack_push_stmts)))"

definition handle_get_stmts :: "Message \<Rightarrow> unit prog" where
  "handle_get_stmts msg =
     bindp (Done (get_arg msg 0)) (\<lambda>table_name.
     Find table_name (\<lambda>found.
     case found of
       None \<Rightarrow> throwp (OperationException ''Could not find table.'')
     | Some table_obj \<Rightarrow>
         bindp (askp in_transaction) (\<lambda>b.
         seqp
           (if \<not> b
            then Lock table_obj
                (seqp
                  (catchp (get_table_value_stmts msg table_obj)
                    (\<lambda>ex. if is_OperationException ex
                          then Some (Unlock table_obj (throwp (OperationException (what ex))))
                          else None))
                 (Unlock table_obj (retp ())))
            else seqp (acquire_in_transaction_stmts table_obj)
                 (rethrow_operation_stmts (get_table_value_stmts msg table_obj)))
           write_ok_stmts)))"

definition dispatch_stmts :: "Message \<Rightarrow> unit prog" where
  "dispatch_stmts msg =
     (case get_message_type msg of
        CREATE \<Rightarrow> handle_create_stmts msg
      | BEGIN \<Rightarrow> handle_begin_stmts
      | COMMIT \<Rightarrow> handle_commit_stmts
      | POP \<Rightarrow> handle_pop_stmts
      | TOP \<Rightarrow> handle_top_stmts
      | ADD \<Rightarrow> arith_stmts ''There are not enough operands to add with.'' (\<lambda>l r. int_result (l + r))
      | SUB \<Rightarrow> arith_stmts ''There are not enough operands to subtract with.'' (\<lambda>l r. int_result (l - r))
      | MUL \<Rightarrow> arith_stmts ''There are not enough operands to multiply with.'' (\<lambda>l r. int_result (l * r))
      | DIV \<Rightarrow> arith_stmts ''There are not enough operands to divide with.'' cxx_div
      | BYE \<Rightarrow> handle_bye_stmts
      | PUSH \<Rightarrow> handle_push_stmts msg
      | SET \<Rightarrow> handle_set_stmts msg
      | GET \<Rightarrow> handle_get_stmts msg
      | _ \<Rightarrow> throwp (OperationException ''Please only enter standardized requests.''))"

definition call_response_function_stmts :: "Message \<Rightarrow> unit prog" where
  "call_response_function_stmts msg =
     catchp (dispatch_stmts msg)
       (\<lambda>ex. if is_InvalidMessage ex
             then Some (seqp (changep (\<lambda>c. c\<lparr>loop_in_progress := False\<rparr>)) (manage_exception_stmts ex False))
             else if is_runtime_error ex then Some (manage_exception_stmts ex True)
             else None)"

definition read_request_stmts :: "(int \<times> string) prog" where
  "read_request_stmts = own_cmd (\<lambda>c.
     case rio_readlineb sizeof_rio_t (m_fdbuf c) (incoming c) of (n, buf, fdbuf, inp) \<Rightarrow>
       (if MAX_ENCODED_LEN < length buf then Fault Buffer_overrun else Ret (n, buf),
        c\<lparr>m_fdbuf := fdbuf, incoming := inp\<rparr>))"

definition decode_request_stmts :: "string \<Rightarrow> unit prog" where
  "decode_request_stmts buf = own_cmd (\<lambda>c.
     case decode (c_str buf) (client_msg c) of (r, msg) \<Rightarrow> (r, c\<lparr>client_msg := msg\<rparr>))"

definition handle_login_stmts :: "bool option \<Rightarrow> bool prog" where
  "handle_login_stmts first_valid_message_ptr =
     (case first_valid_message_ptr of
        None \<Rightarrow> throwp (OperationException ''You are already logged in.'')
      | Some flag \<Rightarrow> seqp write_ok_stmts (retp False))"

definition serve_request_stmts :: "unit prog" where
  "serve_request_stmts =
     bindp (askp client_msg) (\<lambda>msg.
     bindp (askp first_valid_message) (\<lambda>first.
     if get_message_type msg = LOGIN
     then catchp
            (bindp (handle_login_stmts (Some first)) (\<lambda>flag.
             changep (\<lambda>c. c\<lparr>first_valid_message := flag\<rparr>)))
            (\<lambda>ex. if is_OperationException ex then Some (manage_exception_stmts ex True) else None)
     else if first
     then seqp (send_stmts (Message_new ERROR [''Please log in first.'']))
            (changep (\<lambda>c. c\<lparr>loop_in_progress := False\<rparr>))
     else call_response_function_stmts (Message_copy msg)))"

definition handle_line_stmts :: "string \<Rightarrow> unit prog" where
  "handle_line_stmts buf =
     bindp
       (catchp (seqp (decode_request_stmts buf) (retp True))
         (\<lambda>ex. if is_InvalidMessage ex
               then Some (seqp (manage_exception_stmts ex False) (retp False)) else None))
       (\<lambda>decoded. if decoded then serve_request_stmts else retp ())"

definition chat_iteration_stmts :: "unit prog" where
  "chat_iteration_stmts =
     bindp read_request_stmts (\<lambda>(n, buf).
     if n \<le> 0 then changep (\<lambda>c. c\<lparr>loop_in_progress := False\<rparr>) else handle_line_stmts buf)"

text \<open>The end of a thread: \<open>close\<close>, and the destructor.\<close>

definition finish_stmts :: "unit prog" where
  "finish_stmts =
     seqp (changep (\<lambda>c. c\<lparr>fd_closed := True\<rparr>))
       (bindp (askp in_transaction) (\<lambda>b. if b then fail_transaction_stmts else retp ()))"

section \<open>Execution\<close>

text \<open>Without interruption.\<close>

primrec run :: "'a prog \<Rightarrow> (world, 'a) xcmd" where
  "run (Done r) w = (r, w)"
| "run (Own f k) w = run (k (snd w)) (fst w, f (snd w))"
| "run (Lock p k) w = continue_with (lock_table p w) (\<lambda>_. run k)"
| "run (Unlock p k) w = continue_with (unlock_table p w) (\<lambda>_. run k)"
| "run (Trylock p k) w = continue_with (trylock_table p w) (\<lambda>b. run (k b))"
| "run (Read_table p k) w = continue_with (table_cmd p (\<lambda>_. gets (\<lambda>t. t)) w) (\<lambda>t. run (k t))"
| "run (Write_table p f k) w = continue_with (modify_table p f w) (\<lambda>_. run k)"
| "run (Find n k) w = run (k (find_table n (fst w))) w"
| "run (Create n k) w = continue_with (on_server (\<lambda>_. create_table n) w) (\<lambda>_. run k)"
| "run (Enter k) w = continue_with (on_server server_lock w) (\<lambda>_. run k)"
| "run (Leave k) w = continue_with (on_server server_unlock w) (\<lambda>_. run k)"
| "run (Miss k) w = run k w"

text \<open>One access; \<open>None\<close> when the thread has to wait, or is done.\<close>

fun after :: "('x res \<times> world) \<Rightarrow> ('x \<Rightarrow> 'a prog) \<Rightarrow> ('a prog \<times> world) option" where
  "after (Ret x, w) k = Some (k x, w)"
| "after (Throw e, w) k = Some (Done (Throw e), w)"
| "after (Fault u, w) k = Some (Done (Fault u), w)"
| "after (Block, w) k = None"

fun advance :: "'a prog \<Rightarrow> world \<Rightarrow> ('a prog \<times> world) option" where
  "advance (Done r) w = None"
| "advance (Own f k) w = Some (k (snd w), (fst w, f (snd w)))"
| "advance (Lock p k) w = after (lock_table p w) (\<lambda>_. k)"
| "advance (Unlock p k) w = after (unlock_table p w) (\<lambda>_. k)"
| "advance (Trylock p k) w = after (trylock_table p w) k"
| "advance (Read_table p k) w = after (table_cmd p (\<lambda>_. gets (\<lambda>t. t)) w) k"
| "advance (Write_table p f k) w = after (modify_table p f w) (\<lambda>_. k)"
| "advance (Find n k) w = Some (k (find_table n (fst w)), w)"
| "advance (Create n k) w = after (on_server (\<lambda>_. create_table n) w) (\<lambda>_. k)"
| "advance (Enter k) w = after (on_server server_lock w) (\<lambda>_. k)"
| "advance (Leave k) w = after (on_server server_unlock w) (\<lambda>_. k)"
| "advance (Miss k) w = Some (k, w)"

section \<open>Running the combinators\<close>

lemma no_throw:
  "fst (lock_table p w) \<noteq> Throw e" "fst (unlock_table p w) \<noteq> Throw e" "fst (trylock_table p w) \<noteq> Throw e"
  "fst (table_cmd p (\<lambda>_. gets f) w) \<noteq> Throw e" "fst (modify_table p g w) \<noteq> Throw e"
  "fst (on_server (\<lambda>_. create_table n) w) \<noteq> Throw e" "fst (on_server server_lock w) \<noteq> Throw e"
  "fst (on_server server_unlock w) \<noteq> Throw e"
  by (cases w; simp add: lock_table_def unlock_table_def trylock_table_def modify_table_def table_cmd_def on_table_def
      table_lock_def table_unlock_def mutex_lock_def mutex_unlock_def server_lock_def server_unlock_def create_table_def
      run_simps split: prod.splits option.splits)+

lemma handle_continue:
  assumes "\<And>e. fst r \<noteq> Throw e"
  shows "handle_with (continue_with r f) h = continue_with r (\<lambda>x w. handle_with (f x w) h)"
proof -
  obtain o' w where "r = (o', w)" by (rule prod.exhaust)
  with assms show ?thesis by (cases o') auto
qed

lemma continue_cong: "(\<And>x w. f x w = g x w) \<Longrightarrow> continue_with r f = continue_with r g"
  by (cases "(r, f)" rule: continue_with.cases) simp_all

lemma run_bindp: "run (bindp m f) = (\<lambda>w. continue_with (run m w) (\<lambda>x. run (f x)))"
  by (induction m) (auto simp: fun_eq_iff continue_with_assoc split: outcome.splits intro!: continue_cong)

lemma run_catchp: "run (catchp m h) = (\<lambda>w. handle_with (run m w) (\<lambda>e. map_option run (h e)))"
  by (induction m) (auto simp: fun_eq_iff handle_continue no_throw split: outcome.splits option.splits intro!: continue_cong)

declare bindp.simps [simp del] catchp.simps [simp del]

text \<open>Each combinator of programs runs as the combinator of commands.\<close>

named_theorems stmts \<open>programs that run as the command they stand for\<close>

lemma run_combinators [stmts]:
  "run (bindp m f) = bind_cmd (run m) (\<lambda>x. run (f x))"
  "run (seqp n k) = seq_cmd (run n) (run k)"
  "run (catchp m h) = try_catch (run m) (\<lambda>e. map_option run (h e))"
  "run (Done r) = lift_res r"
  by (simp_all add: fun_eq_iff run_bindp seqp_def run_catchp run_simps)

lemma run_accesses [stmts]:
  "run (Lock p k) = seq_cmd (lock_table p) (run k)"
  "run (Unlock p k) = seq_cmd (unlock_table p) (run k)"
  "run (Trylock p kb) = bind_cmd (trylock_table p) (\<lambda>b. run (kb b))"
  "run (Write_table p f k) = seq_cmd (modify_table p f) (run k)"
  "run (Find n kf) = bind_cmd (on_server (\<lambda>_. gets (find_table n))) (\<lambda>r. run (kf r))"
  "run (Create n k) = seq_cmd (on_server (\<lambda>_. create_table n)) (run k)"
  "run (Enter k) = seq_cmd (on_server server_lock) (run k)"
  "run (Leave k) = seq_cmd (on_server server_unlock) (run k)"
  "run (Miss k) = run k"
  by (simp_all add: fun_eq_iff run_simps)

lemma lift_res_ret: "lift_res (Ret x) = ret x"
  by (simp add: fun_eq_iff run_simps)

lemma lift_res_throw: "lift_res (Throw e) = throw e"
  by (simp add: fun_eq_iff run_simps)

lemma run_for_eachp [stmts]: "run (for_eachp f xs) = for_each (\<lambda>x. run (f x)) xs"
  by (induction xs) (simp_all add: stmts lift_res_ret)

lemma run_own_cmd: "run (own_cmd m) (srv, c) = (fst (m c), (srv, snd (m c)))"
  by (simp add: own_cmd_def)

lemma read_table_function:
  "table_cmd p (\<lambda>_. gets f) w = continue_with (table_cmd p (\<lambda>_. gets (\<lambda>t. t)) w) (\<lambda>t w. (Ret (f t), w))"
  by (cases w) (simp add: table_cmd_def on_table_def run_simps)

lemma run_read:
  "run (Read_table p (\<lambda>t. k (f t))) = bind_cmd (table_cmd p (\<lambda>_. gets f)) (\<lambda>x. run (k x))"
  by (simp add: fun_eq_iff run_simps read_table_function [of p f] continue_with_assoc)

lemma seq_ret: "seq_cmd m (ret ()) = m"
proof -
  have "seq_cmd m (ret ()) = bind_cmd m ret"
    by (simp add: seq_cmd_def)
  then show ?thesis by (simp add: bind_ret_right)
qed

section \<open>The member functions run as their commands\<close>

lemma own_stmts [stmts]:
  "run (askp f) = ask f" "run (changep g) = change g" "run stack_get_top_stmts = stack_get_top"
  "run stack_pop_stmts = stack_pop" "run (stack_push_stmts v) = stack_push v"
  "run read_request_stmts = read_request" "run (decode_request_stmts buf) = decode_request buf"
  by (auto simp: fun_eq_iff askp_def changep_def stack_get_top_stmts_def stack_pop_stmts_def stack_push_stmts_def
      read_request_stmts_def decode_request_stmts_def read_request_def decode_request_def
      run_own_cmd run_simps stack_pop_def stack_push_def change_def ask_def pop_def split: list.splits prod.splits)

lemmas in_branches = if_distrib [of run] if_distrib [of "map_option run"] option.case_distrib [of run]
  lift_res_ret lift_res_throw

lemma send_stmts [stmts]: "run (send_stmts msg) = send msg" "run write_ok_stmts = write_ok"
  by (simp_all add: send_stmts_def write_ok_stmts_def write_ok_def send_def rio_write_def [abs_def] stmts)

lemma fail_transaction_stmts_run [stmts]: "run fail_transaction_stmts = fail_transaction"
  by (simp add: fail_transaction_stmts_def fail_transaction_def stmts in_branches seq_ret cong: if_cong option.case_cong)

lemma manage_exception_stmts_run [stmts]: "run (manage_exception_stmts ex b) = manage_exception ex b"
  by (simp add: manage_exception_stmts_def manage_exception_def stmts in_branches Let_def cong: if_cong option.case_cong)

lemma rethrow_operation_stmts_run [stmts]: "run (rethrow_operation_stmts m) = rethrow_operation (run m)"
  by (simp add: rethrow_operation_stmts_def rethrow_operation_def stmts in_branches cong: if_cong option.case_cong)

lemma handle_create_stmts_run [stmts]: "run (handle_create_stmts msg) = handle_create msg"
  by (simp add: handle_create_stmts_def handle_create_def stmts in_branches seq_ret cong: if_cong option.case_cong)

lemma transaction_stmts_run [stmts]: "run handle_begin_stmts = handle_begin" "run handle_commit_stmts = handle_commit"
  by (simp_all add: handle_begin_stmts_def handle_begin_def handle_commit_stmts_def handle_commit_def stmts in_branches seq_ret cong: if_cong option.case_cong)

lemma stack_stmts_run [stmts]:
  "run handle_pop_stmts = handle_pop" "run handle_top_stmts = handle_top" "run (handle_push_stmts msg) = handle_push msg"
  "run handle_bye_stmts = handle_bye"
  by (simp_all add: handle_pop_stmts_def handle_pop_def handle_top_stmts_def handle_top_def handle_push_stmts_def
      handle_push_def handle_bye_stmts_def handle_bye_def stmts)

lemma arith_stmts_run [stmts]: "run (arith_stmts not_enough f) = arith_handler not_enough f"
  by (simp add: arith_stmts_def arith_handler_def pop_operands_stmts_def pop_operands_def pop_operand_stmts_def
      pop_operand_def stmts in_branches case_prod_unfold cong: if_cong option.case_cong)

lemma set_stmts_run [stmts]:
  "run (set_table_value_stmts msg p) = set_table_value msg p"
  "run (acquire_in_transaction_stmts p) = acquire_in_transaction p"
  "run (handle_set_stmts msg) = handle_set msg"
  by (simp_all add: set_table_value_stmts_def set_table_value_def acquire_in_transaction_stmts_def
      acquire_in_transaction_def handle_set_stmts_def handle_set_def stmts in_branches seq_ret cong: if_cong option.case_cong)

lemma get_table_value_stmts_run [stmts]: "run (get_table_value_stmts msg p) = get_table_value msg p"
proof -
  have "run (Read_table p (\<lambda>t. if \<not> has_key key t then m else m')) =
      bind_cmd (table_cmd p (\<lambda>_. gets (has_key key))) (\<lambda>b. if \<not> b then run m else run m')" for key and m m' :: "unit prog"
    using run_read [of p "\<lambda>b. if \<not> b then m else m'" "has_key key"] by (simp add: in_branches)
  moreover have "run (Read_table p (\<lambda>t. bindp (Done (table_get key t)) stack_push_stmts)) =
      bind_cmd (table_cmd p (\<lambda>_. gets (table_get key))) (\<lambda>v. bind_cmd (lift_res v) stack_push)" for key
    using run_read [of p "\<lambda>v. bindp (Done v) stack_push_stmts" "table_get key"] by (simp add: stmts)
  ultimately show ?thesis
    by (simp add: get_table_value_stmts_def get_table_value_def stmts lift_res_throw cong: if_cong)
qed

lemma handle_get_stmts_run [stmts]: "run (handle_get_stmts msg) = handle_get msg"
  by (simp add: handle_get_stmts_def handle_get_def stmts in_branches seq_ret cong: if_cong option.case_cong)

lemma dispatch_stmts_run [stmts]: "run (dispatch_stmts msg) = dispatch msg"
  by (cases "get_message_type msg") (simp_all add: dispatch_stmts_def dispatch_def arith_handlers stmts lift_res_throw)

lemma call_response_function_stmts_run [stmts]: "run (call_response_function_stmts msg) = call_response_function msg"
  by (simp add: call_response_function_stmts_def call_response_function_def stmts in_branches cong: if_cong option.case_cong)

lemma serve_request_stmts_run [stmts]: "run serve_request_stmts = serve_request"
  by (simp add: serve_request_stmts_def serve_request_def handle_login_stmts_def handle_login_def stmts in_branches
      cong: if_cong option.case_cong)

lemma handle_line_stmts_run [stmts]: "run (handle_line_stmts buf) = handle_line buf"
  by (simp add: handle_line_stmts_def handle_line_def stmts in_branches cong: if_cong option.case_cong)

lemma chat_iteration_stmts_run: "run chat_iteration_stmts = chat_iteration"
  by (simp add: chat_iteration_stmts_def chat_iteration_def stmts in_branches case_prod_unfold cong: if_cong option.case_cong)

lemma finish_stmts_run: "run finish_stmts = seq_cmd close_fd ClientConnection_destroy"
  by (simp add: finish_stmts_def close_fd_def ClientConnection_destroy_def stmts in_branches cong: if_cong option.case_cong)

section \<open>One access after the other\<close>

lemma after_run: "after r k = Some (pr', w') \<Longrightarrow> continue_with r (\<lambda>x. run (k x)) = run pr' w'"
  by (cases "(r, k)" rule: after.cases) auto

lemma after_stuck: "after r k = None \<Longrightarrow> fst (continue_with r f) = Block"
  by (cases "(r, k)" rule: after.cases) auto

lemma advance_run: "advance pr w = Some (pr', w') \<Longrightarrow> run pr w = run pr' w'"
  by (cases pr) (auto dest: after_run)

lemma stuck_run: "advance pr w = None \<Longrightarrow> fst (run pr w) = Block \<or> (\<exists>r. pr = Done r)"
  by (cases pr) (auto simp: after_stuck)

text \<open>Executing a program access by access, with no other thread in between.\<close>

inductive unbroken :: "'a prog \<Rightarrow> world \<Rightarrow> 'a prog \<Rightarrow> world \<Rightarrow> bool" where
  unbroken_none: "unbroken pr w pr w"
| unbroken_step: "advance pr w = Some (pr1, w1) \<Longrightarrow> unbroken pr1 w1 pr' w' \<Longrightarrow> unbroken pr w pr' w'"

lemma unbroken_run: "unbroken pr w pr' w' \<Longrightarrow> run pr w = run pr' w'"
  by (induction rule: unbroken.induct) (simp_all add: advance_run)

definition ends :: "'a prog \<Rightarrow> world \<Rightarrow> bool" where
  "ends pr w \<longleftrightarrow> (\<exists>pr' w'. unbroken pr w pr' w' \<and> advance pr' w' = None)"

lemma ends_stuck: "advance pr w = None \<Longrightarrow> ends pr w"
  unfolding ends_def using unbroken_none by blast

lemma ends_step: "advance pr w = Some (pr1, w1) \<Longrightarrow> ends pr1 w1 \<Longrightarrow> ends pr w"
  unfolding ends_def using unbroken_step by blast

lemma ends_after:
  assumes "advance pr w = after r k" "\<And>x w. ends (k x) w"
  shows "ends pr w"
proof -
  have d: "ends (Done q) w'" for q w' by (simp add: ends_stuck)
  have "after r k = None \<or> (\<exists>pr1 w1. after r k = Some (pr1, w1) \<and> ends pr1 w1)"
    using assms(2) d by (cases "(r, k)" rule: after.cases) auto
  with assms(1) show ?thesis using ends_stuck ends_step by metis
qed

lemma prog_ends: "ends pr w"
proof (induction pr arbitrary: w)
  case (Own f k)
  then show ?case by (intro ends_step [of "Own f k" w, OF advance.simps(2)]) auto
next
  case (Find n k)
  then show ?case by (intro ends_step [of "Find n k" w, OF advance.simps(8)]) auto
next
  case (Miss k)
  then show ?case by (intro ends_step [of "Miss k" w, OF advance.simps(12)]) auto
qed (auto intro!: ends_stuck [OF advance.simps(1)] ends_after [OF advance.simps(3)] ends_after [OF advance.simps(4)]
    ends_after [OF advance.simps(5)] ends_after [OF advance.simps(6)] ends_after [OF advance.simps(7)]
    ends_after [OF advance.simps(9)] ends_after [OF advance.simps(10)] ends_after [OF advance.simps(11)])

lemma executes:
  assumes "run pr = m"
  shows "\<exists>pr' w'. unbroken pr w pr' w' \<and>
    (if fst (m w) = Block then advance pr' w' = None else pr' = Done (fst (m w)) \<and> w' = snd (m w))"
proof -
  obtain pr' w' where u: "unbroken pr w pr' w'" "advance pr' w' = None"
    using prog_ends [of pr w] unfolding ends_def by blast
  have "run pr' w' = m w" using unbroken_run [OF u(1)] assms by simp
  with u stuck_run [OF u(2)] show ?thesis by (metis fst_conv run.simps(1) snd_conv)
qed

section \<open>The statements and the commands\<close>

text \<open>
  The statements are those of the commands. Executed one after the other without
  interruption, the statements of an iteration of the loop, and of the end of a thread, come
  to an end: to the result and the state that \<open>chat_iteration\<close> and
  \<open>finish_client\<close> give, or to a statement that waits for a mutex, where these wait.
\<close>

lemma statements_run:
  "(\<exists>pr w'. unbroken chat_iteration_stmts w pr w' \<and>
      (if fst (chat_iteration w) = Block then advance pr w' = None
       else pr = Done (fst (chat_iteration w)) \<and> w' = snd (chat_iteration w))) \<and>
   (\<exists>pr w'. unbroken finish_stmts w pr w' \<and>
      (if fst (finish_client w) = Block then advance pr w' = None
       else pr = Done (fst (finish_client w)) \<and> w' = snd (finish_client w)))"
  by (intro conjI executes chat_iteration_stmts_run) (simp add: finish_stmts_run finish_client_def)

end
