(* ===== verification/Interleaving.thy ===== *)
theory Interleaving
  imports Statements
begin

text \<open>
  The threads of the server, interleaved between any two statements. A state has the shared
  \<open>Server\<close>, and for each live thread its connection and the program it has still to
  execute. The rule of locking is a predicate transformer \<open>wp\<close>: a thread
  touches the pairs of a table only while it owns the table's mutex, inserts into the directory only while it
  owns the server's mutex, and waits for a table only while it owns nothing. Every member function
  of \<open>ClientConnection\<close> keeps to it up to the point where \<open>GET\<close> finds a key missing
  (\<open>Miss\<close>).
\<close>

section \<open>States and steps\<close>

record threads =
  shared :: Server
  live :: "thread_id \<rightharpoonup> ClientConnection \<times> unit prog"
  missed :: bool
  stopped :: bool

definition at_miss :: "unit prog \<Rightarrow> bool" where
  "at_miss pr \<longleftrightarrow> (case pr of Miss k \<Rightarrow> True | _ \<Rightarrow> False)"

text \<open>
  A thread starts with a new connection; between requests its program is done. It then goes on with the next
  iteration of its loop, or with its end when the loop is left; its end has closed the
  descriptor. A program that ended in a fault or an exception stops the process.
\<close>

inductive fstep :: "thread_id \<Rightarrow> threads \<Rightarrow> threads \<Rightarrow> bool" where
  f_accept: "\<not> stopped s \<Longrightarrow> live s t = None \<Longrightarrow>
    fstep t s (s\<lparr>live := (live s)(t \<mapsto> (ClientConnection_new t fd g inp, retp ()))\<rparr>)"
| f_iterate: "\<not> stopped s \<Longrightarrow> live s t = Some (c, retp ()) \<Longrightarrow> loop_in_progress c \<Longrightarrow>
    fstep t s (s\<lparr>live := (live s)(t \<mapsto> (c, chat_iteration_stmts))\<rparr>)"
| f_finish: "\<not> stopped s \<Longrightarrow> live s t = Some (c, retp ()) \<Longrightarrow> \<not> loop_in_progress c \<Longrightarrow> \<not> fd_closed c \<Longrightarrow>
    fstep t s (s\<lparr>live := (live s)(t \<mapsto> (c, finish_stmts))\<rparr>)"
| f_exit: "\<not> stopped s \<Longrightarrow> live s t = Some (c, retp ()) \<Longrightarrow> \<not> loop_in_progress c \<Longrightarrow> fd_closed c \<Longrightarrow>
    fstep t s (s\<lparr>live := (live s)(t := None)\<rparr>)"
| f_statement: "\<not> stopped s \<Longrightarrow> live s t = Some (c, pr) \<Longrightarrow> advance pr (shared s, c) = Some (pr', (srv', c')) \<Longrightarrow>
    fstep t s (s\<lparr>shared := srv', live := (live s)(t \<mapsto> (c', pr')), missed := missed s \<or> at_miss pr\<rparr>)"
| f_crash: "\<not> stopped s \<Longrightarrow> live s t = Some (c, Done r) \<Longrightarrow> r \<noteq> Ret () \<Longrightarrow>
    fstep t s (s\<lparr>stopped := True\<rparr>)"

inductive_cases fstepE: "fstep t s s'"

definition threads_start :: "Server \<Rightarrow> threads" where
  "threads_start srv = \<lparr>shared = srv, live = Map.empty, missed = False, stopped = False\<rparr>"

inductive freach :: "threads \<Rightarrow> bool" where
  f_start: "server_main open_listenfd garbage argv = Ret (Serving s) \<Longrightarrow> freach (threads_start (server s))"
| f_next: "freach s \<Longrightarrow> fstep t s s' \<Longrightarrow> freach s'"

section \<open>The rule of locking\<close>

definition owned :: "thread_id \<Rightarrow> Server \<Rightarrow> table_ptr set" where
  "owned t srv = {p. p < length (heap srv) \<and> t_mutex (heap srv ! p) = Some t}"

abbreviation owns_server :: "thread_id \<Rightarrow> Server \<Rightarrow> bool" where
  "owns_server t srv \<equiv> s_mutex srv = Some t"

type_synonym 'a post = "'a res \<Rightarrow> table_ptr set \<Rightarrow> bool \<Rightarrow> ClientConnection \<Rightarrow> bool"

text \<open>
  \<open>wp pr Q H S c\<close>: a thread with connection \<open>c\<close> that owns the tables \<open>H\<close>, and
  the server's mutex if \<open>S\<close>, executes \<open>pr\<close> by the rule, whatever the other threads
  do, and if it ends, ends with \<open>Q\<close>.
\<close>

primrec wp :: "'a prog \<Rightarrow> 'a post \<Rightarrow> table_ptr set \<Rightarrow> bool \<Rightarrow> ClientConnection \<Rightarrow> bool" where
  "wp (Done r) Q H S c = Q r H S c"
| "wp (Own f k) Q H S c = (me (f c) = me c \<and> wp (k c) Q H S (f c))"
| "wp (Lock p k) Q H S c = (H = {} \<and> \<not> S \<and> wp k Q {p} S c)"
| "wp (Unlock p k) Q H S c = (p \<in> H \<longrightarrow> wp k Q (H - {p}) S c)"
| "wp (Trylock p k) Q H S c = ((p \<notin> H \<longrightarrow> wp (k True) Q (insert p H) S c) \<and> wp (k False) Q H S c)"
| "wp (Read_table p k) Q H S c = (p \<in> H \<and> (\<forall>t. wp (k t) Q H S c))"
| "wp (Write_table p f k) Q H S c = (p \<in> H \<and> (\<forall>t. t_mutex (f t) = t_mutex t) \<and> wp k Q H S c)"
| "wp (Find n k) Q H S c = (\<forall>r. wp (k r) Q H S c)"
| "wp (Create n k) Q H S c = (S \<and> wp k Q H S c)"
| "wp (Enter k) Q H S c = (\<not> S \<and> wp k Q H True c)"
| "wp (Leave k) Q H S c = (S \<and> wp k Q H False c)"
| "wp (Miss k) Q H S c = True"

fun pass :: "('a \<Rightarrow> 'b prog) \<Rightarrow> 'b post \<Rightarrow> 'a post" where
  "pass f Q (Ret x) H S c = wp (f x) Q H S c"
| "pass f Q (Throw e) H S c = Q (Throw e) H S c"
| "pass f Q (Fault u) H S c = Q (Fault u) H S c"
| "pass f Q Block H S c = Q Block H S c"

fun caught :: "(exn \<Rightarrow> 'a prog option) \<Rightarrow> 'a post \<Rightarrow> 'a post" where
  "caught h Q (Throw e) H S c = (case h e of None \<Rightarrow> Q (Throw e) H S c | Some k \<Rightarrow> wp k Q H S c)"
| "caught h Q (Ret x) H S c = Q (Ret x) H S c"
| "caught h Q (Fault u) H S c = Q (Fault u) H S c"
| "caught h Q Block H S c = Q Block H S c"

lemma wp_bindp [simp]: "wp (bindp m f) Q H S c = wp m (pass f Q) H S c"
  by (induction m arbitrary: H S c) (auto simp: bindp.simps split: outcome.splits)

lemma wp_seqp [simp]: "wp (seqp m k) Q H S c = wp m (pass (\<lambda>_. k) Q) H S c"
  by (simp add: seqp_def)

lemma wp_catchp [simp]: "wp (catchp m h) Q H S c = wp m (caught h Q) H S c"
  by (induction m arbitrary: H S c) (auto simp: catchp.simps split: outcome.splits option.splits)

lemma wp_mono: "wp m Q H S c \<Longrightarrow> (\<And>r H S c. Q r H S c \<Longrightarrow> Q' r H S c) \<Longrightarrow> wp m Q' H S c"
  by (induction m arbitrary: H S c) auto

section \<open>A step keeps to the rule and leaves the others alone\<close>

lemma table_cmd_wild: "\<not> p < length (heap srv) \<Longrightarrow> table_cmd p f (srv, c) = (Fault Index_out_of_range, (srv, c))"
  by (simp add: table_cmd_def on_table_def run_simps)

lemma modify_table_wild: "\<not> p < length (heap srv) \<Longrightarrow> modify_table p f (srv, c) = (Fault Index_out_of_range, (srv, c))"
  by (simp add: modify_table_def table_cmd_wild)

lemma lock_cases:
  "lock_table p (srv, c) =
     (if p < length (heap srv)
      then case t_mutex (heap srv ! p) of
             None \<Rightarrow> (Ret (), (at_table p (t_mutex_update (\<lambda>_. Some (me c))) srv, c))
           | Some u \<Rightarrow> (if u = me c then Fault Mutex_relock else Block, (srv, c))
      else (Fault Index_out_of_range, (srv, c)))"
proof (cases "p < length (heap srv)")
  case True
  then show ?thesis
    by (cases "t_mutex (heap srv ! p)")
      (simp_all add: lock_table_free lock_table_busy, auto simp: lock_table_def table_cmd_run run_simps table_lock_def
        mutex_lock_def at_table_same)
qed (simp add: lock_table_def table_cmd_wild)

lemma unlock_cases:
  "unlock_table p (srv, c) =
     (if p < length (heap srv)
      then if t_mutex (heap srv ! p) = Some (me c)
           then (Ret (), (at_table p (t_mutex_update (\<lambda>_. None)) srv, c))
           else (Fault Mutex_not_owned, (srv, c))
      else (Fault Index_out_of_range, (srv, c)))"
  by (simp add: unlock_table_owned unlock_table_not_owned) (simp add: unlock_table_def table_cmd_wild)

lemma trylock_cases:
  "trylock_table p (srv, c) =
     (if p < length (heap srv)
      then case t_mutex (heap srv ! p) of
             None \<Rightarrow> (Ret True, (at_table p (t_mutex_update (\<lambda>_. Some (me c))) srv, c))
           | Some u \<Rightarrow> (Ret False, (srv, c))
      else (Fault Index_out_of_range, (srv, c)))"
  by (auto simp: trylock_table_free trylock_table_busy split: option.splits) (simp_all add: trylock_table_def table_cmd_wild)

lemma owned_at_table:
  "p < length (heap srv) \<Longrightarrow> owned t (at_table p f srv) =
     (if t_mutex (f (heap srv ! p)) = Some t then insert p (owned t srv) else owned t srv - {p})"
  by (auto simp: owned_def)

lemma owned_create: "owned t (srv\<lparr>heap := heap srv @ [Table_new n], table_names := x\<rparr>) = owned t srv"
  by (auto simp: owned_def nth_append Table_new_def mutex_init_def less_Suc_eq)

lemma server_lock_cases:
  "on_server server_lock (srv, c) =
     (case s_mutex srv of
        None \<Rightarrow> (Ret (), (srv\<lparr>s_mutex := Some (me c), mutex_is_locked := True\<rparr>, c))
      | Some u \<Rightarrow> (if u = me c then Fault Mutex_relock else Block, (srv, c)))"
  by (simp add: server_lock_def run_simps mutex_lock_def split: option.splits)

lemma server_unlock_cases:
  "on_server server_unlock (srv, c) =
     (if s_mutex srv = Some (me c) then (Ret (), (srv\<lparr>mutex_is_locked := False, s_mutex := None\<rparr>, c))
      else (Fault Mutex_not_owned, (srv\<lparr>mutex_is_locked := False\<rparr>, c)))"
  by (simp add: server_unlock_def run_simps mutex_unlock_def)

lemma owned_fields [simp]:
  "owned t (s_mutex_update f srv) = owned t srv" "owned t (mutex_is_locked_update g srv) = owned t srv"
  by (simp_all add: owned_def)

lemma in_owned: "p \<in> owned t srv \<longleftrightarrow> p < length (heap srv) \<and> t_mutex (heap srv ! p) = Some t"
  by (simp add: owned_def)

lemmas access_cases = lock_cases unlock_cases trylock_cases server_lock_cases server_unlock_cases

lemma advance_wp:
  assumes "wp pr Q (owned t srv) (owns_server t srv) c" "me c = t" "\<not> at_miss pr"
    and "advance pr (srv, c) = Some (pr', (srv', c'))" "\<And>u H S c. Q (Fault u) H S c"
  shows "me c' = t \<and> wp pr' Q (owned t srv') (owns_server t srv') c'"
proof (cases pr)
  case (Lock p k)
  then show ?thesis using assms
    by (auto simp: access_cases owned_at_table split: if_splits option.splits)
next
  case (Unlock p k)
  then show ?thesis using assms
    by (auto simp: access_cases owned_at_table in_owned split: if_splits option.splits)
next
  case (Trylock p k)
  then show ?thesis using assms
    by (auto simp: access_cases owned_at_table in_owned split: if_splits option.splits)
next
  case (Read_table p k)
  then show ?thesis using assms by (auto simp: read_table_run in_owned)
next
  case (Write_table p f k)
  then have p: "p < length (heap srv)" "t_mutex (heap srv ! p) = Some t" using assms(1) by (auto simp: in_owned)
  then have "owned t (at_table p f srv) = owned t srv"
    using Write_table assms(1) by (auto simp: owned_at_table in_owned)
  then show ?thesis using assms Write_table p by (auto simp: modify_table_run)
next
  case (Create n k)
  then show ?thesis using assms by (auto simp: run_simps create_table_run owned_create)
next
  case (Enter k)
  then show ?thesis using assms by (auto simp: access_cases split: if_splits option.splits)
next
  case (Leave k)
  then show ?thesis using assms by (auto simp: access_cases split: if_splits option.splits)
qed (use assms in \<open>auto simp: at_miss_def\<close>)

lemma advance_others:
  assumes "wp pr Q (owned t srv) (owns_server t srv) c" "me c = t"
    and "advance pr (srv, c) = Some (pr', (srv', c'))" "u \<noteq> t"
  shows "owned u srv' = owned u srv \<and> owns_server u srv' = owns_server u srv \<and>
    (\<forall>p\<in>owned u srv. heap srv' ! p = heap srv ! p)"
proof (cases pr)
  case (Lock p k)
  then show ?thesis using assms
    by (auto simp: access_cases owned_at_table in_owned split: if_splits option.splits)
next
  case (Unlock p k)
  then show ?thesis using assms
    by (auto simp: access_cases owned_at_table in_owned split: if_splits option.splits)
next
  case (Trylock p k)
  then show ?thesis using assms
    by (auto simp: access_cases owned_at_table in_owned split: if_splits option.splits)
next
  case (Read_table p k)
  then show ?thesis using assms by (auto simp: read_table_run in_owned)
next
  case (Write_table p f k)
  then have p: "p < length (heap srv)" "t_mutex (heap srv ! p) = Some t" "p \<notin> owned u srv"
    using assms(1,4) by (auto simp: in_owned)
  then have "owned u (at_table p f srv) = owned u srv"
    using Write_table assms(1,4) by (auto simp: owned_at_table)
  then show ?thesis using assms Write_table p by (auto simp: modify_table_run)
next
  case (Create n k)
  then show ?thesis using assms by (auto simp: run_simps create_table_run owned_create nth_append in_owned)
next
  case (Enter k)
  then show ?thesis using assms by (auto simp: access_cases split: if_splits option.splits)
next
  case (Leave k)
  then show ?thesis using assms by (auto simp: access_cases split: if_splits option.splits)
qed (use assms in auto)

section \<open>The member functions keep to the rule\<close>

text \<open>Between requests, and also when a handler has raised an exception.\<close>

definition tidy :: "ClientConnection \<Rightarrow> table_ptr set \<Rightarrow> bool" where
  "tidy c H \<longleftrightarrow>
     distinct (locked_tables c) \<and> set (locked_tables c) = H \<and> (\<not> in_transaction c \<longrightarrow> H = {}) \<and> \<not> fd_closed c"

fun clean_end :: "'a post" where
  "clean_end (Ret x) H S c = (tidy c H \<and> \<not> S)"
| "clean_end (Throw e) H S c = (tidy c H \<and> \<not> S)"
| "clean_end (Fault u) H S c = True"
| "clean_end Block H S c = True"

fun good_end :: "'a post" where
  "good_end (Ret x) H S c = (tidy c H \<and> \<not> S)"
| "good_end (Throw e) H S c = True"
| "good_end (Fault u) H S c = True"
| "good_end Block H S c = True"

lemma tidy_own [simp]:
  "tidy (c\<lparr>stack := x\<rparr>) H = tidy c H" "tidy (c\<lparr>written := y\<rparr>) H = tidy c H" "tidy (c\<lparr>loop_in_progress := b\<rparr>) H = tidy c H"
  "tidy (c\<lparr>first_valid_message := b\<rparr>) H = tidy c H" "tidy (c\<lparr>client_msg := m\<rparr>) H = tidy c H"
  "tidy (c\<lparr>m_fdbuf := f\<rparr>) H = tidy c H" "tidy (c\<lparr>incoming := i\<rparr>) H = tidy c H"
  by (simp_all add: tidy_def)

lemma wp_own_cmd [simp]: "wp (own_cmd m) Q H S c = (me (snd (m c)) = me c \<and> Q (fst (m c)) H S (snd (m c)))"
  by (simp add: own_cmd_def)

lemma wp_own [simp]:
  "wp (askp f) Q H S c = Q (Ret (f c)) H S c" "wp (changep g) R H S c = (me (g c) = me c \<and> R (Ret ()) H S (g c))"
  "wp stack_get_top_stmts QS H S c = QS (get_top (stack c)) H S c"
  "wp (stack_push_stmts v) R H S c = R (Ret ()) H S (c\<lparr>stack := v # stack c\<rparr>)"
  by (simp_all add: askp_def changep_def stack_get_top_stmts_def stack_push_stmts_def run_simps push_def)

lemma wp_stack_pop [simp]:
  "wp stack_pop_stmts Q H S c =
     (case stack c of
        [] \<Rightarrow> Q (Throw (OperationException ''Tried to call POP on an empty operations stack.'')) H S c
      | v # vs \<Rightarrow> Q (Ret ()) H S (c\<lparr>stack := vs\<rparr>))"
  by (simp add: stack_pop_stmts_def run_simps pop_def split: list.splits)

lemma wp_send: "wp (send_stmts msg) Q H S c =
    (case encode msg of Ret l \<Rightarrow> Q (Ret ()) H S (c\<lparr>written := written c @ [l]\<rparr>)
     | Throw e \<Rightarrow> Q (Throw e) H S c | Fault u \<Rightarrow> Q (Fault u) H S c | Block \<Rightarrow> Q Block H S c)"
  by (simp add: send_stmts_def split: outcome.splits)

lemma wp_send_clean: "tidy c H \<Longrightarrow> wp (send_stmts msg) clean_end H False c"
  by (simp add: wp_send split: outcome.splits)

lemma wp_write_ok [simp]: "wp write_ok_stmts Q H S c = Q (Ret ()) H S (c\<lparr>written := written c @ [ok_line]\<rparr>)"
proof -
  have "encode (Message_new OK []) = Ret ok_line"
    using encode_small [of "Message_new OK []" "''OK''"] by (simp add: Message_new_def message_line_def MAX_ENCODED_LEN_def)
  then show ?thesis by (simp add: write_ok_stmts_def wp_send)
qed

lemma wp_release:
  assumes "distinct ps" "set ps \<subseteq> H" "\<And>t. t_mutex (f t) = t_mutex t" "Q (Ret ()) (H - set ps) S c"
  shows "wp (for_eachp (\<lambda>p. Write_table p f (Unlock p (retp ()))) ps) Q H S c"
  using assms
proof (induction ps arbitrary: H)
  case (Cons p ps)
  have "H - {p} - set ps = H - set (p # ps)" by auto
  then have "wp (for_eachp (\<lambda>p. Write_table p f (Unlock p (retp ()))) ps) Q (H - {p}) S c"
    using Cons.prems by (intro Cons.IH) auto
  then show ?case using Cons.prems by simp
qed simp

lemma wp_fail_transaction:
  assumes "tidy c H" "Q (Ret ()) {} False (c\<lparr>locked_tables := [], in_transaction := False\<rparr>)"
  shows "wp fail_transaction_stmts Q H False c"
  unfolding fail_transaction_stmts_def
  using assms by (auto simp: tidy_def rollback_changes_def intro!: wp_release)

lemma wp_manage_exception: "tidy c H \<Longrightarrow> wp (manage_exception_stmts ex b) clean_end H False c"
  unfolding manage_exception_stmts_def Let_def
  by (auto intro!: wp_fail_transaction wp_send_clean) (simp_all add: tidy_def)

lemma get_arg_simps [simp]:
  "m_args msg = a # as \<Longrightarrow> get_arg msg 0 = Ret a" "m_args msg = a # b # bs \<Longrightarrow> get_arg msg (Suc 0) = Ret b"
  by (simp_all add: get_arg_def vec_at_less)

lemma wp_create: "tidy c H \<Longrightarrow> m_args msg = [n] \<Longrightarrow> wp (handle_create_stmts msg) clean_end H False c"
  by (simp add: handle_create_stmts_def)

lemma wp_begin: "tidy c H \<Longrightarrow> wp handle_begin_stmts clean_end H False c"
  by (simp add: handle_begin_stmts_def tidy_def)

lemma wp_commit: "tidy c H \<Longrightarrow> wp handle_commit_stmts clean_end H False c"
  unfolding handle_commit_stmts_def
  by (auto simp: tidy_def commit_changes_def intro!: wp_release)

lemma wp_pop: "tidy c H \<Longrightarrow> wp handle_pop_stmts clean_end H False c"
  by (simp add: handle_pop_stmts_def rethrow_operation_stmts_def split: list.splits)

lemma wp_top: "tidy c H \<Longrightarrow> wp handle_top_stmts clean_end H False c"
  by (cases "get_top (stack c)") (simp_all add: handle_top_stmts_def rethrow_operation_stmts_def wp_send_clean)

lemma wp_push: "tidy c H \<Longrightarrow> m_args msg = [v] \<Longrightarrow> wp (handle_push_stmts msg) clean_end H False c"
  by (simp add: handle_push_stmts_def)

lemma wp_bye: "tidy c H \<Longrightarrow> wp handle_bye_stmts clean_end H False c"
  by (simp add: handle_bye_stmts_def)

lemma wp_pop_operand:
  assumes "tidy c H" "\<And>r c'. tidy c' H \<Longrightarrow> Q r H False c'"
  shows "wp pop_operand_stmts Q H False c"
  using assms
  by (auto simp: pop_operand_stmts_def get_top_def bindp.simps split: list.splits outcome.splits)

lemma pass_clean:
  "tidy c H \<Longrightarrow> (\<And>x. wp (f x) clean_end H False c) \<Longrightarrow> pass f clean_end r H False c"
  by (cases r) simp_all

lemma wp_arith:
  assumes "tidy c H"
  shows "wp (arith_stmts text f) clean_end H False c"
proof -
  let ?last = "\<lambda>(left, right). bindp (Done (f left right)) (\<lambda>r. seqp (stack_push_stmts (to_string r)) write_ok_stmts)"
  have last: "wp (?last (l, r)) clean_end H False c'" if "tidy c' H" for l r c'
    using that by (auto intro!: pass_clean)
  have "caught h (pass (\<lambda>l. retp (l, i)) (pass ?last clean_end)) r H False c'"
    if "tidy c' H" "h = (\<lambda>ex. if is_Invalid_argument ex then Some (seqp (stack_push_stmts v) (throwp conversion_error)) else None)"
    for h i r c' v
    using that last by (cases r) auto
  then have "caught h (pass (\<lambda>i. bindp (catchp pop_operand_stmts (\<lambda>ex. if is_Invalid_argument ex
        then Some (seqp (stack_push_stmts (to_string i)) (throwp conversion_error)) else None)) (\<lambda>l. retp (l, i)))
        (pass ?last clean_end)) r H False c'"
    if "tidy c' H" "h = (\<lambda>ex. if is_Invalid_argument ex then Some (throwp conversion_error) else None)" for h r c'
    using that by (cases r) (auto intro!: wp_pop_operand)
  then show ?thesis
    unfolding arith_stmts_def pop_operands_stmts_def using assms by (auto intro!: wp_pop_operand)
qed

lemma stack_size_pos: "\<not> get_size s < 1 \<Longrightarrow> \<exists>v vs. s = v # vs"
  by (cases s) (simp_all add: get_size_def int_of_size_small)

lemma wp_acquire:
  assumes "tidy c H" "in_transaction c"
    and "Q (Throw (FailedTransaction ''Could not gain access to table.'')) H False c"
    and "\<And>c'. tidy c' (insert p H) \<Longrightarrow> stack c' = stack c \<Longrightarrow> in_transaction c' \<Longrightarrow> Q (Ret ()) (insert p H) False c'"
  shows "wp (acquire_in_transaction_stmts p) Q H False c"
proof (cases "p \<in> set (locked_tables c)")
  case True
  then have "insert p H = H" using assms(1) by (auto simp: tidy_def)
  with True assms(1,2) assms(4) [of c] show ?thesis by (simp add: acquire_in_transaction_stmts_def)
next
  case False
  then have "tidy (c\<lparr>locked_tables := locked_tables c @ [p]\<rparr>) (insert p H)" using assms(1,2) by (auto simp: tidy_def)
  with False assms show ?thesis by (simp add: acquire_in_transaction_stmts_def)
qed

lemma wp_set:
  assumes "tidy c H" "m_args msg = [n, key]"
  shows "wp (handle_set_stmts msg) clean_end H False c"
proof (cases "get_size (stack c) < 1")
  case True
  then show ?thesis using assms(1) by (simp add: handle_set_stmts_def)
next
  case False
  then obtain v vs where s: "stack c = v # vs" using stack_size_pos by blast
  have put: "wp (set_table_value_stmts msg p) Q H' False c'"
    if "p \<in> H'" "stack c' = v # vs" "Q (Ret ()) H' False (c'\<lparr>stack := vs\<rparr>)" for p H' Q c'
    using that assms(2) by (simp add: set_table_value_stmts_def get_top_def table_set_def)
  show ?thesis
  proof (cases "in_transaction c")
    case True
    with False assms s show ?thesis
      by (auto simp: handle_set_stmts_def intro!: wp_acquire put split: option.splits)
  next
    case False
    then have "H = {}" using assms(1) by (simp add: tidy_def)
    with False \<open>\<not> get_size (stack c) < 1\<close> assms s show ?thesis
      by (auto simp: handle_set_stmts_def commit_changes_def intro!: put split: option.splits)
  qed
qed

lemma table_get_ends: "(\<exists>v. table_get key t = Ret v) \<or> (\<exists>e. table_get key t = Throw e \<and> is_OperationException e)"
  by (auto simp: table_get_def umap_at_def umap_contains_def)

lemma wp_get_value:
  assumes "m_args msg = [n, key]" "p \<in> H" "\<And>v. Q (Ret ()) H False (c\<lparr>stack := v # stack c\<rparr>)"
    and "\<And>e. is_OperationException e \<Longrightarrow> Q (Throw e) H False c"
  shows "wp (get_table_value_stmts msg p) Q H False c"
proof -
  have "pass stack_push_stmts Q (table_get key t) H False c" for t
    using table_get_ends [of key t] assms(3,4) by auto
  then show ?thesis using assms(1,2) by (simp add: get_table_value_stmts_def)
qed

lemma wp_get:
  assumes "tidy c H" "m_args msg = [n, key]"
  shows "wp (handle_get_stmts msg) clean_end H False c"
proof (cases "in_transaction c")
  case True
  with assms(1) show ?thesis
    by (auto simp: handle_get_stmts_def rethrow_operation_stmts_def get_arg_simps(1) [OF assms(2)]
        intro!: wp_acquire wp_get_value [OF assms(2)] split: option.splits)
next
  case False
  then have "H = {}" using assms(1) by (simp add: tidy_def)
  with False assms(1) show ?thesis
    by (auto simp: handle_get_stmts_def get_arg_simps(1) [OF assms(2)] intro!: wp_get_value [OF assms(2)] split: option.splits)
qed

lemma wp_dispatch:
  assumes "tidy c H" "request_ok msg"
  shows "wp (dispatch_stmts msg) clean_end H False c"
proof (cases "m_message_type msg")
  case CREATE
  then show ?thesis using assms request_args(1) [OF assms(2)] wp_create by (auto simp: dispatch_stmts_def get_message_type_def)
next
  case PUSH
  then show ?thesis using assms request_args(1) [OF assms(2)] wp_push by (auto simp: dispatch_stmts_def get_message_type_def)
next
  case SET
  then show ?thesis using assms request_args(2) [OF assms(2)] wp_set by (auto simp: dispatch_stmts_def get_message_type_def)
next
  case GET
  then show ?thesis using assms request_args(2) [OF assms(2)] wp_get by (auto simp: dispatch_stmts_def get_message_type_def)
qed (use assms(1) in \<open>simp_all add: dispatch_stmts_def get_message_type_def wp_begin wp_commit wp_pop wp_top wp_arith wp_bye\<close>)

lemma wp_call:
  assumes "tidy c H" "request_ok msg"
  shows "wp (call_response_function_stmts msg) clean_end H False c"
proof -
  have "caught (\<lambda>ex. if is_InvalidMessage ex
             then Some (seqp (changep (\<lambda>c. c\<lparr>loop_in_progress := False\<rparr>)) (manage_exception_stmts ex False))
             else if is_runtime_error ex then Some (manage_exception_stmts ex True) else None) clean_end r H S c"
    if "clean_end r H S c" for r :: "unit res" and H S c
    using that wp_manage_exception by (cases r) auto
  then show ?thesis
    unfolding call_response_function_stmts_def using wp_dispatch [OF assms] by (auto elim: wp_mono)
qed

lemma wp_serve:
  assumes "tidy c H" "request_ok (client_msg c)"
  shows "wp serve_request_stmts clean_end H False c"
  using assms wp_call [of c H "Message_copy (client_msg c)"]
  by (auto simp: serve_request_stmts_def handle_login_stmts_def wp_send Message_copy_def split: outcome.splits)

lemma wp_handle_line:
  assumes "tidy c H"
  shows "wp (handle_line_stmts buf) clean_end H False c"
proof -
  obtain r msg where d: "decode (c_str buf) (client_msg c) = (r, msg)" by (rule prod.exhaust)
  have "wp (seqp (manage_exception_stmts e False) (retp False)) (pass (\<lambda>ok. if ok then serve_request_stmts else retp ()) clean_end) H False c'"
    if "tidy c' H" for e c'
  proof -
    have "pass (\<lambda>_. retp False) (pass (\<lambda>ok. if ok then serve_request_stmts else retp ()) clean_end) r H S c"
      if "clean_end r H S c" for r :: "unit res" and H S c
      using that by (cases r) auto
    then show ?thesis using wp_mono [OF wp_manage_exception [OF that, of e False]] by simp
  qed
  moreover have "wp serve_request_stmts clean_end H False (c\<lparr>client_msg := msg\<rparr>)" if "r = Ret ()"
    using decode_request_ok [of buf "client_msg c" msg] that d assms by (intro wp_serve) auto
  ultimately show ?thesis
    using assms d unfolding handle_line_stmts_def decode_request_stmts_def by (cases r) auto
qed

lemma wp_chat: "tidy c H \<Longrightarrow> wp chat_iteration_stmts clean_end H False c"
  by (auto simp: chat_iteration_stmts_def read_request_stmts_def wp_handle_line split: prod.splits)

lemma wp_finish:
  assumes "tidy c H" "\<And>c'. fd_closed c' \<Longrightarrow> loop_in_progress c' = loop_in_progress c \<Longrightarrow> locked_tables c' = [] \<Longrightarrow> Q (Ret ()) {} False c'"
  shows "wp finish_stmts Q H False c"
proof -
  have "wp fail_transaction_stmts Q H False (c\<lparr>fd_closed := True\<rparr>)"
    unfolding fail_transaction_stmts_def
    using assms by (auto simp: tidy_def rollback_changes_def intro!: wp_release)
  moreover have "\<not> in_transaction c \<Longrightarrow> H = {} \<and> locked_tables c = []"
    using assms(1) by (auto simp: tidy_def)
  ultimately show ?thesis using assms(2) [of "c\<lparr>fd_closed := True\<rparr>"] by (auto simp: finish_stmts_def)
qed

section \<open>The invariant\<close>

text \<open>
  What holds at the end of the program a thread executes: its connection is in order, or it has closed its
  descriptor and owns nothing.
\<close>

fun idle :: "unit post" where
  "idle (Ret x) H S c = (\<not> S \<and> (if fd_closed c then H = {} \<and> \<not> loop_in_progress c else tidy c H))"
| "idle (Throw e) H S c = True"
| "idle (Fault u) H S c = True"
| "idle Block H S c = True"

definition by_rule :: "threads \<Rightarrow> bool" where
  "by_rule s \<longleftrightarrow>
     (\<forall>t c pr. live s t = Some (c, pr) \<longrightarrow> me c = t \<and> wp pr idle (owned t (shared s)) (owns_server t (shared s)) c) \<and>
     (\<forall>t. live s t = None \<longrightarrow> owned t (shared s) = {} \<and> \<not> owns_server t (shared s))"

lemma clean_idle: "clean_end r H S c \<Longrightarrow> idle r H S c"
  by (cases r) (auto simp: tidy_def)

lemma by_rule_start: "server_main ol g argv = Ret (Serving s) \<Longrightarrow> by_rule (threads_start (server s))"
  by (erule server_main_serving)
    (simp add: by_rule_def threads_start_def system_start_def owned_def Server_new_def mutex_init_def)

text \<open>A thread gets a new program, or is new, or leaves; the others and the server stay.\<close>

lemma by_rule_live:
  assumes "by_rule s" "\<And>c pr. x = Some (c, pr) \<Longrightarrow> me c = t \<and> wp pr idle (owned t (shared s)) (owns_server t (shared s)) c"
    and "x = None \<Longrightarrow> owned t (shared s) = {} \<and> \<not> owns_server t (shared s)"
  shows "by_rule (s\<lparr>live := (live s)(t := x)\<rparr>)"
  using assms unfolding by_rule_def by auto

lemma by_rule_step:
  assumes s: "by_rule s" and step: "fstep t s s'" and ok: "\<not> missed s'" "\<not> stopped s'"
  shows "by_rule s'"
  using step
proof cases
  case (f_accept fd g inp)
  have "owned t (shared s) = {} \<and> \<not> owns_server t (shared s)" using s f_accept by (simp add: by_rule_def)
  then show ?thesis unfolding f_accept
    by (intro by_rule_live s) (auto simp: ClientConnection_new_def tidy_def)
next
  case (f_iterate c)
  have "me c = t" "idle (Ret ()) (owned t (shared s)) (owns_server t (shared s)) c"
    using s f_iterate(3) unfolding by_rule_def by fastforce+
  then show ?thesis unfolding f_iterate(1) using f_iterate(4) wp_mono [OF wp_chat clean_idle]
    by (intro by_rule_live s) (auto split: if_splits)
next
  case (f_finish c)
  have "me c = t" "idle (Ret ()) (owned t (shared s)) (owns_server t (shared s)) c"
    using s f_finish(3) unfolding by_rule_def by fastforce+
  then show ?thesis unfolding f_finish(1) using f_finish(4,5)
    by (intro by_rule_live s) (auto intro!: wp_finish split: if_splits)
next
  case (f_exit c)
  have "idle (Ret ()) (owned t (shared s)) (owns_server t (shared s)) c"
    using s f_exit(3) unfolding by_rule_def by fastforce
  then show ?thesis unfolding f_exit(1) using f_exit(5) by (intro by_rule_live s) auto
next
  case (f_statement c pr pr' srv' c')
  have wp: "me c = t" "wp pr idle (owned t (shared s)) (owns_server t (shared s)) c"
    using s f_statement(3) unfolding by_rule_def by auto
  have nm: "\<not> at_miss pr" using ok(1) f_statement(1) by simp
  have "me c' = t \<and> wp pr' idle (owned t srv') (owns_server t srv') c'"
    using advance_wp [OF wp(2,1) nm f_statement(4)] by simp
  moreover have "owned u srv' = owned u (shared s) \<and> owns_server u srv' = owns_server u (shared s)" if "u \<noteq> t" for u
    using advance_others [OF wp(2,1) f_statement(4) that] by blast
  ultimately show ?thesis using s f_statement(1,3) unfolding by_rule_def by auto
next
  case f_crash
  then show ?thesis using ok(2) by simp
qed

lemma fstep_monotone: "fstep t s s' \<Longrightarrow> (missed s \<longrightarrow> missed s') \<and> \<not> stopped s"
  by (erule fstepE) auto

lemma freach_by_rule: "freach s \<Longrightarrow> \<not> missed s \<Longrightarrow> \<not> stopped s \<Longrightarrow> by_rule s"
proof (induction rule: freach.induct)
  case (f_start ol g argv s)
  then show ?case using by_rule_start by blast
next
  case (f_next s t s')
  then show ?case using by_rule_step fstep_monotone by blast
qed

lemma by_ruleD:
  assumes "by_rule s" "live s t = Some (c, pr)"
  shows "me c = t" "wp pr idle (owned t (shared s)) (owns_server t (shared s)) c"
  using assms unfolding by_rule_def by blast+

section \<open>Waiting\<close>

definition waits_for :: "threads \<Rightarrow> thread_id \<Rightarrow> thread_id \<Rightarrow> bool" where
  "waits_for s t u \<longleftrightarrow> u \<noteq> t \<and>
     (\<exists>c pr. live s t = Some (c, pr) \<and>
        (case pr of Lock p k \<Rightarrow> p \<in> owned u (shared s) | Enter k \<Rightarrow> owns_server u (shared s) | _ \<Rightarrow> False))"

lemma advance_stuck:
  assumes "advance pr (srv, c) = None" "\<And>r. pr \<noteq> Done r"
  shows "\<exists>u. u \<noteq> me c \<and> ((\<exists>p k. pr = Lock p k \<and> p \<in> owned u srv) \<or> (\<exists>k. pr = Enter k \<and> owns_server u srv))"
proof (cases pr)
  case (Read_table p k)
  then show ?thesis using assms by (cases "p < length (heap srv)") (auto simp: read_table_run table_cmd_wild)
next
  case (Write_table p f k)
  then show ?thesis using assms by (cases "p < length (heap srv)") (auto simp: modify_table_run modify_table_wild)
next
  case (Create n k)
  then show ?thesis using assms by (simp add: run_simps create_table_run)
qed (use assms in \<open>auto simp: access_cases in_owned split: if_splits option.splits\<close>)

lemma stuck_waits:
  assumes "by_rule s" "live s t = Some (c, pr)" "advance pr (shared s, c) = None" "\<And>r. pr \<noteq> Done r"
  shows "\<exists>u. waits_for s t u"
proof -
  obtain u where "u \<noteq> me c" "(\<exists>p k. pr = Lock p k \<and> p \<in> owned u (shared s)) \<or> (\<exists>k. pr = Enter k \<and> owns_server u (shared s))"
    using advance_stuck [OF assms(3,4)] by blast
  then show ?thesis using assms(2) by_ruleD(1) [OF assms(1,2)] unfolding waits_for_def by auto
qed

lemma goes_or_waits:
  assumes "by_rule s" "\<not> stopped s" "live s t = Some (c, pr)"
  shows "(\<exists>s'. fstep t s s') \<or> (\<exists>u. waits_for s t u)"
proof (cases "\<exists>r. pr = Done r")
  case True
  then obtain r where "pr = Done r" by blast
  with assms show ?thesis
    using f_crash [of s t c r] f_iterate [of s t c] f_finish [of s t c] f_exit [of s t c] by (metis (full_types) unit.exhaust)
next
  case False
  show ?thesis
  proof (cases "advance pr (shared s, c)")
    case None
    then show ?thesis using stuck_waits [OF assms(1,3)] False by blast
  next
    case (Some x)
    then show ?thesis using f_statement [OF assms(2,3)] by (metis prod.exhaust)
  qed
qed

lemma waits_wp:
  assumes "by_rule s" "waits_for s t u"
  shows "\<not> owns_server t (shared s)" "(\<exists>c p k. live s t = Some (c, Lock p k) \<and> p \<in> owned u (shared s) \<and> owned t (shared s) = {}) \<or> owns_server u (shared s)"
proof -
  obtain c pr where l: "live s t = Some (c, pr)"
      "case pr of Lock p k \<Rightarrow> p \<in> owned u (shared s) | Enter k \<Rightarrow> owns_server u (shared s) | _ \<Rightarrow> False"
    using assms(2) unfolding waits_for_def by blast
  with by_ruleD(2) [OF assms(1) l(1)]
  show "\<not> owns_server t (shared s)" "(\<exists>c p k. live s t = Some (c, Lock p k) \<and> p \<in> owned u (shared s) \<and> owned t (shared s) = {}) \<or> owns_server u (shared s)"
    by (cases pr; auto)+
qed

lemma server_owner_goes:
  assumes "by_rule s" "\<not> stopped s" "owns_server u (shared s)"
  shows "\<exists>s'. fstep u s s'"
proof -
  obtain c pr where "live s u = Some (c, pr)"
    using assms(1,3) unfolding by_rule_def by (metis not_Some_eq prod.exhaust)
  then show ?thesis using goes_or_waits [OF assms(1,2)] waits_wp(1) [OF assms(1)] assms(3) by blast
qed

section \<open>Properties\<close>

definition accesses :: "unit prog \<Rightarrow> table_ptr \<Rightarrow> bool" where
  "accesses pr p \<longleftrightarrow> (case pr of Read_table q k \<Rightarrow> q = p | Write_table q f k \<Rightarrow> q = p | _ \<Rightarrow> False)"

definition inserts :: "unit prog \<Rightarrow> bool" where
  "inserts pr \<longleftrightarrow> (case pr of Create n k \<Rightarrow> True | _ \<Rightarrow> False)"

lemma wp_accesses: "wp pr Q H S c \<Longrightarrow> accesses pr p \<Longrightarrow> p \<in> H"
  by (cases pr) (auto simp: accesses_def)

lemma wp_inserts: "wp pr Q H S c \<Longrightarrow> inserts pr \<Longrightarrow> S"
  by (cases pr) (auto simp: inserts_def)

lemma fstep_isolation:
  assumes "by_rule s" "fstep u s s'" "u \<noteq> t" "p \<in> owned t (shared s)"
  shows "heap (shared s') ! p = heap (shared s) ! p \<and> live s' t = live s t"
  using assms(2)
proof cases
  case (f_statement c pr pr' srv' c')
  show ?thesis
    using advance_others [OF by_ruleD(2,1) [OF assms(1) f_statement(3)] f_statement(4) assms(3) [symmetric]]
      assms(3,4) f_statement(1) by simp
qed (use assms(3) in auto)

text \<open>
  C10. There is no race on a table, at the level of single statements. As long as no \<open>GET\<close>
  met a missing key: a thread whose next statement reads or writes the pairs of a table owns the
  table's mutex, so no other thread is about to access the same table; a thread
  whose next statement inserts into the directory owns the server's mutex; and no statement of another thread
  changes a table that a thread owns, or that thread's connection.
\<close>

theorem table_race_free:
  assumes "freach s" "\<not> missed s" "\<not> stopped s" "live s t = Some (c, pr)"
  shows "(\<forall>p. accesses pr p \<longrightarrow> p \<in> owned t (shared s) \<and>
      (\<forall>u d pr'. u \<noteq> t \<and> live s u = Some (d, pr') \<longrightarrow> \<not> accesses pr' p)) \<and>
    (inserts pr \<longrightarrow> owns_server t (shared s)) \<and>
    (\<forall>u s' p. u \<noteq> t \<and> fstep u s s' \<and> p \<in> owned t (shared s) \<longrightarrow>
      heap (shared s') ! p = heap (shared s) ! p \<and> live s' t = Some (c, pr))"
proof -
  have s: "by_rule s" using assms(1-3) by (rule freach_by_rule)
  have own: "p \<in> owned u (shared s)" if "live s u = Some (d, pr')" "accesses pr' p" for u d pr' p
    using wp_accesses [OF by_ruleD(2) [OF s that(1)] that(2)] .
  moreover have "u = t" if "p \<in> owned u (shared s)" "p \<in> owned t (shared s)" for u p
    using that by (simp add: in_owned)
  moreover have "inserts pr \<Longrightarrow> owns_server t (shared s)"
    using wp_inserts [OF by_ruleD(2) [OF s assms(4)]] .
  ultimately show ?thesis
    using assms(4) fstep_isolation [OF s] by (metis (no_types, lifting))
qed

text \<open>A thread that is live and can take a step of its own: a statement, or the next part of its loop.\<close>

definition can_go :: "threads \<Rightarrow> thread_id \<Rightarrow> bool" where
  "can_go s t \<longleftrightarrow> live s t \<noteq> None \<and> (\<exists>s'. fstep t s s')"

lemma by_rule_owner_live:
  assumes "by_rule s" "p \<in> owned u (shared s) \<or> owns_server u (shared s)"
  obtains d pr where "live s u = Some (d, pr)"
  using assms unfolding by_rule_def by (metis empty_iff not_Some_eq prod.exhaust)

lemma server_owner_can_go: "by_rule s \<Longrightarrow> \<not> stopped s \<Longrightarrow> owns_server u (shared s) \<Longrightarrow> can_go s u"
  using server_owner_goes by_rule_owner_live unfolding can_go_def by (metis option.distinct(1))

text \<open>
  C11. No deadlock at the level of single statements. As long as no \<open>GET\<close> met a missing key: a thread
  that has to wait is about to lock a table that another live thread owns, while it owns no table itself, or it is about to lock the
  server that another live thread has locked; it never waits with the server locked. The owner of the server can take a
  step. The owner of the table can take a step, or is itself about to lock the server, and the live thread that
  has locked that, a third one, can take a step. So no mutex is left behind by a thread that has ended, and no threads wait in a circle.
\<close>

theorem statement_progress:
  assumes "freach s" "\<not> missed s" "\<not> stopped s" "live s t = Some (c, pr)"
    and "advance pr (shared s, c) = None" "\<And>r. pr \<noteq> Done r"
  shows "\<not> owns_server t (shared s) \<and>
    (\<exists>u d pr'. u \<noteq> t \<and> live s u = Some (d, pr') \<and>
       ((\<exists>k. pr = Enter k) \<and> owns_server u (shared s) \<and> can_go s u \<or>
        (\<exists>p k. pr = Lock p k \<and> p \<in> owned u (shared s)) \<and> owned t (shared s) = {} \<and>
        (can_go s u \<or>
          (\<exists>v k. pr' = Enter k \<and> v \<notin> {t, u} \<and> owns_server v (shared s) \<and> can_go s v))))"
proof -
  have s: "by_rule s" using assms(1-3) by (rule freach_by_rule)
  have t: "\<not> owns_server t (shared s)" using stuck_waits [OF s assms(4-6)] waits_wp(1) [OF s] by blast
  note rule = by_ruleD(2) [OF s assms(4)]
  obtain u where u: "u \<noteq> t"
    "(\<exists>p k. pr = Lock p k \<and> p \<in> owned u (shared s)) \<or> (\<exists>k. pr = Enter k \<and> owns_server u (shared s))"
    using advance_stuck [OF assms(5,6)] by_ruleD(1) [OF s assms(4)] by blast
  then obtain d pr' where d: "live s u = Some (d, pr')" using by_rule_owner_live [OF s] by metis
  from u(2) show ?thesis
  proof (elim disjE exE conjE)
    fix k assume "pr = Enter k" "owns_server u (shared s)"
    then show ?thesis using t u(1) d server_owner_can_go [OF s assms(3)] by blast
  next
    fix p k assume p: "pr = Lock p k" "p \<in> owned u (shared s)"
    have none: "owned t (shared s) = {}" using rule p(1) by simp
    have "can_go s u \<or> (\<exists>v k. pr' = Enter k \<and> v \<notin> {t, u} \<and> owns_server v (shared s) \<and> can_go s v)"
    proof (cases "\<exists>s'. fstep u s s'")
      case True
      then show ?thesis using d by (simp add: can_go_def)
    next
      case False
      then obtain v where v: "waits_for s u v" using goes_or_waits [OF s assms(3) d] by blast
      then have "owns_server v (shared s)" using waits_wp(2) [OF s v] p(2) by auto
      moreover have "\<exists>k. pr' = Enter k"
        using v d by_ruleD(2) [OF s d] p(2) by (auto simp: waits_for_def split: prog.splits)
      moreover have "v \<notin> {t, u}" using v t calculation(1) by (auto simp: waits_for_def)
      ultimately show ?thesis using server_owner_can_go [OF s assms(3)] by blast
    qed
    then show ?thesis using t none u(1) d p by blast
  qed
qed

end
