(* ===== verification/Disciplines.thy ===== *)
theory Disciplines
  imports Statements
begin

text \<open>
  What the programs of \<open>Statements\<close> do with their own connection. A discipline says which changes
  of a connection are allowed and which differences between two connections a program must not notice;
  the locale \<open>connection_discipline\<close> has what a discipline must allow for every handler to
  obey it. The two disciplines: the descriptor stays open (\<open>tame\<close>), and the input of the
  connection is neither read nor changed (\<open>blind\<close>).
\<close>

section \<open>Obeying a discipline\<close>

text \<open>With \<open>m\<close>, the program may also come to the place where \<open>GET\<close> finds a key missing.\<close>

primrec obeys ::
  "((ClientConnection \<Rightarrow> ClientConnection) \<Rightarrow> ClientConnection \<Rightarrow> bool) \<Rightarrow>
   (ClientConnection \<Rightarrow> ClientConnection \<Rightarrow> bool) \<Rightarrow> bool \<Rightarrow> 'a prog \<Rightarrow> bool" where
  "obeys allowed alike m (Done r) = True"
| "obeys allowed alike m (Own f k) =
     (\<forall>c. allowed f c \<and> (\<forall>c'. alike c c' \<longrightarrow> k c' = k c) \<and> obeys allowed alike m (k c))"
| "obeys allowed alike m (Lock p k) = obeys allowed alike m k"
| "obeys allowed alike m (Unlock p k) = obeys allowed alike m k"
| "obeys allowed alike m (Trylock p k) = (\<forall>b. obeys allowed alike m (k b))"
| "obeys allowed alike m (Read_table p k) = (\<forall>t. obeys allowed alike m (k t))"
| "obeys allowed alike m (Write_table p f k) = obeys allowed alike m k"
| "obeys allowed alike m (Find n k) = (\<forall>r. obeys allowed alike m (k r))"
| "obeys allowed alike m (Create n k) = obeys allowed alike m k"
| "obeys allowed alike m (Enter k) = obeys allowed alike m k"
| "obeys allowed alike m (Leave k) = obeys allowed alike m k"
| "obeys allowed alike m (Miss k) = (m \<and> obeys allowed alike m k)"

lemma obeys_bindp [intro!]:
  "obeys al li m p \<Longrightarrow> (\<And>x. obeys al li m (f x)) \<Longrightarrow> obeys al li m (bindp p f)"
  by (induction p) (auto simp: bindp.simps split: outcome.splits)

lemma obeys_seqp [intro!]: "obeys al li m p \<Longrightarrow> obeys al li m k \<Longrightarrow> obeys al li m (seqp p k)"
  by (auto simp: seqp_def)

lemma obeys_catchp [intro!]:
  "obeys al li m p \<Longrightarrow> (\<And>e k. h e = Some k \<Longrightarrow> obeys al li m k) \<Longrightarrow> obeys al li m (catchp p h)"
  by (induction p) (auto simp: catchp.simps split: outcome.splits option.splits)

lemma obeys_for_eachp [intro!]: "(\<And>x. obeys al li m (f x)) \<Longrightarrow> obeys al li m (for_eachp f xs)"
  by (induction xs) auto

lemma obeys_own_cmd:
  "(\<And>c. al (\<lambda>c. snd (f c)) c) \<Longrightarrow> (\<And>c c'. li c c' \<Longrightarrow> fst (f c') = fst (f c)) \<Longrightarrow> obeys al li m (own_cmd f)"
  by (simp add: own_cmd_def)

section \<open>The handlers\<close>

locale connection_discipline =
  fixes allowed :: "(ClientConnection \<Rightarrow> ClientConnection) \<Rightarrow> ClientConnection \<Rightarrow> bool"
    and alike :: "ClientConnection \<Rightarrow> ClientConnection \<Rightarrow> bool"
  assumes allowed_none: "allowed (\<lambda>c. c) c"
    and allowed_stack: "allowed (stack_update f1) c" and allowed_written: "allowed (written_update f2) c"
    and allowed_locked: "allowed (locked_tables_update f3) c" and allowed_transaction: "allowed (in_transaction_update f4) c"
    and allowed_loop: "allowed (loop_in_progress_update f5) c"
    and allowed_first: "allowed (first_valid_message_update f6) c" and allowed_message: "allowed (client_msg_update f7) c"
    and alike_fields: "alike c c' \<Longrightarrow> stack c' = stack c \<and> locked_tables c' = locked_tables c \<and>
      in_transaction c' = in_transaction c \<and> first_valid_message c' = first_valid_message c \<and> client_msg c' = client_msg c"
begin

lemma allowed_forms:
  "allowed (\<lambda>c. c\<lparr>stack := push v (stack c)\<rparr>) c" "allowed (\<lambda>c. c\<lparr>written := written c @ [l]\<rparr>) c"
  "allowed (\<lambda>c. c\<lparr>locked_tables := locked_tables c @ [p]\<rparr>) c"
proof -
  have stack: "(\<lambda>c. c\<lparr>stack := push v (stack c)\<rparr>) = stack_update (push v)"
    and written: "(\<lambda>c. c\<lparr>written := written c @ [l]\<rparr>) = written_update (\<lambda>w. w @ [l])"
    and locked: "(\<lambda>c. c\<lparr>locked_tables := locked_tables c @ [p]\<rparr>) = locked_tables_update (\<lambda>h. h @ [p])"
    by (simp_all add: fun_eq_iff)
  show "allowed (\<lambda>c. c\<lparr>stack := push v (stack c)\<rparr>) c" unfolding stack by (rule allowed_stack)
  show "allowed (\<lambda>c. c\<lparr>written := written c @ [l]\<rparr>) c" unfolding written by (rule allowed_written)
  show "allowed (\<lambda>c. c\<lparr>locked_tables := locked_tables c @ [p]\<rparr>) c" unfolding locked by (rule allowed_locked)
qed

lemmas allowed_changes = allowed_none allowed_forms allowed_stack allowed_written allowed_locked allowed_transaction allowed_loop
  allowed_first allowed_message

lemma changep_obeys [intro!]: "(\<And>c. allowed f c) \<Longrightarrow> obeys allowed alike m (changep f)"
  unfolding changep_def by (intro obeys_own_cmd) (simp_all add: run_simps)

lemma askp_obeys: "(\<And>c c'. alike c c' \<Longrightarrow> f c' = f c) \<Longrightarrow> obeys allowed alike m (askp f)"
  unfolding askp_def by (intro obeys_own_cmd) (simp_all add: run_simps allowed_none)

lemma askp_fields [simp]:
  "obeys allowed alike m (askp locked_tables)" "obeys allowed alike m (askp in_transaction)"
  "obeys allowed alike m (askp client_msg)" "obeys allowed alike m (askp first_valid_message)"
  "obeys allowed alike m (askp (\<lambda>c. get_size (stack c)))"
  by (intro askp_obeys; simp add: alike_fields)+

lemma get_top_obeys [simp]: "obeys allowed alike m stack_get_top_stmts"
  unfolding stack_get_top_stmts_def by (intro obeys_own_cmd) (simp_all add: allowed_none alike_fields)

lemma push_obeys [simp]: "obeys allowed alike m (stack_push_stmts v)"
  unfolding stack_push_stmts_def by (intro changep_obeys) (simp add: allowed_changes)

lemma obeys_own_cmd_is:
  assumes "(\<lambda>c. snd (f c)) = g" "\<And>c. allowed g c" "\<And>c c'. alike c c' \<Longrightarrow> fst (f c') = fst (f c)"
  shows "obeys allowed alike m (own_cmd f)"
  using assms by (intro obeys_own_cmd) auto

lemma pop_obeys [simp]: "obeys allowed alike m stack_pop_stmts"
  unfolding stack_pop_stmts_def
proof (rule obeys_own_cmd_is [of _ "stack_update tl"])
  show "(\<lambda>c. snd (update_cmd (\<lambda>c. bind_res (pop (stack c)) (\<lambda>s. Ret (c\<lparr>stack := s\<rparr>))) c)) = stack_update tl"
    by (auto simp: fun_eq_iff pop_def run_simps)
qed (auto simp: allowed_stack pop_def run_simps dest: alike_fields)

lemma send_obeys [simp]: "obeys allowed alike m (send_stmts msg)" "obeys allowed alike m write_ok_stmts"
  unfolding send_stmts_def write_ok_stmts_def
  by (auto simp: allowed_changes)

lemma fail_obeys [simp]: "obeys allowed alike m fail_transaction_stmts"
  unfolding fail_transaction_stmts_def
  by (intro obeys_seqp obeys_bindp changep_obeys obeys_for_eachp) (simp_all add: allowed_changes)

lemma exceptions_obey [simp]: "obeys allowed alike m (manage_exception_stmts ex b)"
  unfolding manage_exception_stmts_def Let_def
  by (intro obeys_seqp obeys_bindp) (auto split: if_splits)

lemma arith_obeys [simp]: "obeys allowed alike m (arith_stmts x f)"
  unfolding arith_stmts_def pop_operands_stmts_def pop_operand_stmts_def
  by (intro obeys_bindp) (auto split: if_splits prod.splits)

lemma acquire_obeys [simp]: "obeys allowed alike m (acquire_in_transaction_stmts p)"
  unfolding acquire_in_transaction_stmts_def by (auto simp: allowed_changes split: if_splits)

lemma set_obeys [simp]: "obeys allowed alike m (handle_set_stmts msg)"
  unfolding handle_set_stmts_def set_table_value_stmts_def
  by (intro obeys_bindp) (auto split: if_splits option.splits)

lemma get_obeys [simp]: "obeys allowed alike True (handle_get_stmts msg)"
  unfolding handle_get_stmts_def get_table_value_stmts_def rethrow_operation_stmts_def
  by (intro obeys_bindp) (auto split: if_splits option.splits)

lemma request_obeys: "m \<or> m_message_type msg \<noteq> GET \<Longrightarrow> obeys allowed alike m (call_response_function_stmts msg)"
  unfolding call_response_function_stmts_def dispatch_stmts_def get_message_type_def
  by (intro obeys_catchp)
    (auto simp: handle_create_stmts_def handle_begin_stmts_def handle_commit_stmts_def handle_pop_stmts_def handle_top_stmts_def
      handle_push_stmts_def handle_bye_stmts_def rethrow_operation_stmts_def allowed_changes
      split: MessageType.splits if_splits)

lemma serve_obeys [simp]: "obeys allowed alike True serve_request_stmts"
  unfolding serve_request_stmts_def handle_login_stmts_def
  by (auto simp: request_obeys allowed_changes split: if_splits)

lemma decode_obeys [simp]: "obeys allowed alike m (decode_request_stmts buf)"
  unfolding decode_request_stmts_def
proof (rule obeys_own_cmd_is [of _ "client_msg_update (\<lambda>m. snd (decode (c_str buf) m))"])
  show "(\<lambda>c. snd (case decode (c_str buf) (client_msg c) of (r, msg) \<Rightarrow> (r, c\<lparr>client_msg := msg\<rparr>))) =
      client_msg_update (\<lambda>m. snd (decode (c_str buf) m))"
    by (auto simp: fun_eq_iff split: prod.splits)
qed (auto simp: allowed_message split: prod.splits dest: alike_fields)

lemma line_obeys: "obeys allowed alike True (handle_line_stmts buf)"
  unfolding handle_line_stmts_def by (auto split: if_splits)

end

section \<open>The descriptor stays open\<close>

definition keeps_open :: "(ClientConnection \<Rightarrow> ClientConnection) \<Rightarrow> ClientConnection \<Rightarrow> bool" where
  "keeps_open f c \<longleftrightarrow> fd_closed (f c) = fd_closed c"

abbreviation tame :: "bool \<Rightarrow> 'a prog \<Rightarrow> bool" where
  "tame \<equiv> obeys keeps_open (\<lambda>c c'. False)"

interpretation td: connection_discipline keeps_open "\<lambda>c c'. False"
  by unfold_locales (simp_all add: keeps_open_def)

lemmas tame_request = td.request_obeys

lemma tame_iteration: "tame True chat_iteration_stmts"
proof -
  have "tame True read_request_stmts"
    unfolding read_request_stmts_def by (intro obeys_own_cmd) (simp_all add: keeps_open_def split: prod.splits)
  then show ?thesis
    unfolding chat_iteration_stmts_def
    by (auto simp: td.line_obeys td.allowed_changes split: if_splits prod.splits)
qed

section \<open>The input of the connection stays out\<close>

definition with_input :: "rio_t \<Rightarrow> read_event list \<Rightarrow> ClientConnection \<Rightarrow> ClientConnection" where
  "with_input b i c = c\<lparr>m_fdbuf := b, incoming := i\<rparr>"

definition commutes_with_input :: "(ClientConnection \<Rightarrow> ClientConnection) \<Rightarrow> ClientConnection \<Rightarrow> bool" where
  "commutes_with_input f c \<longleftrightarrow> (\<forall>b i. f (with_input b i c) = with_input b i (f c))"

definition same_but_input :: "ClientConnection \<Rightarrow> ClientConnection \<Rightarrow> bool" where
  "same_but_input c c' \<longleftrightarrow> (\<exists>b i. c' = with_input b i c)"

abbreviation blind :: "'a prog \<Rightarrow> bool" where
  "blind \<equiv> obeys commutes_with_input same_but_input True"

interpretation bd: connection_discipline commutes_with_input same_but_input
  by unfold_locales (auto simp: commutes_with_input_def same_but_input_def with_input_def)

definition result_with_input :: "rio_t \<Rightarrow> read_event list \<Rightarrow> 'a res \<times> world \<Rightarrow> 'a res \<times> world" where
  "result_with_input b i x = (fst x, (fst (snd x), with_input b i (snd (snd x))))"

lemma continue_with_input:
  assumes "r' = result_with_input b i r" "\<And>x srv c. f x (srv, with_input b i c) = result_with_input b i (f x (srv, c))"
  shows "continue_with r' f = result_with_input b i (continue_with r f)"
  using assms by (cases "(r, f)" rule: continue_with.cases) (auto simp: result_with_input_def)

lemma accesses_with_input:
  "table_cmd p f (srv, with_input b i c) = result_with_input b i (table_cmd p f (srv, c))"
  "on_server m (srv, with_input b i c) = result_with_input b i (on_server m (srv, c))"
  by (simp_all add: table_cmd_def on_server_def result_with_input_def with_input_def split: prod.splits)

lemma table_accesses_with_input:
  "lock_table p (srv, with_input b i c) = result_with_input b i (lock_table p (srv, c))"
  "unlock_table p (srv, with_input b i c) = result_with_input b i (unlock_table p (srv, c))"
  "trylock_table p (srv, with_input b i c) = result_with_input b i (trylock_table p (srv, c))"
  "modify_table p g (srv, with_input b i c) = result_with_input b i (modify_table p g (srv, c))"
  by (simp_all add: lock_table_def unlock_table_def trylock_table_def modify_table_def accesses_with_input)

lemma blind_run:
  "blind pr \<Longrightarrow> run pr (srv, with_input b i c) = result_with_input b i (run pr (srv, c))"
proof (induction pr arbitrary: srv c)
  case (Own f k)
  have "same_but_input c (with_input b i c)" by (auto simp: same_but_input_def)
  with Own show ?case by (simp add: commutes_with_input_def)
qed (auto simp: accesses_with_input table_accesses_with_input result_with_input_def
      intro!: continue_with_input [unfolded result_with_input_def])

text \<open>A request is handled the same whatever else is in the input.\<close>

lemma handle_line_input:
  "handle_line buf (srv, with_input b i c) = result_with_input b i (handle_line buf (srv, c))"
  using blind_run [OF bd.line_obeys, of buf srv b i c] by (simp add: handle_line_stmts_run)

end
