(* ===== verification/Executions.thy ===== *)
theory Executions
  imports Interleaving Disciplines
begin

text \<open>
  Executions of the threads of \<open>Interleaving\<close>, built from whole programs: a thread may execute any
  number of its statements in a row (\<open>goes\<close>, \<open>scene\<close>). In particular every execution
  of \<open>Sessions\<close>, in whole iterations, is one of single statements.
\<close>

section \<open>Building an execution\<close>

inductive fsteps :: "threads \<Rightarrow> threads \<Rightarrow> bool" where
  fsteps_none: "fsteps s s"
| fsteps_more: "fsteps s s1 \<Longrightarrow> fstep t s1 s' \<Longrightarrow> fsteps s s'"

lemma freach_fsteps: "fsteps s s' \<Longrightarrow> freach s \<Longrightarrow> freach s'"
  by (induction rule: fsteps.induct) (auto intro: f_next)

definition scene :: "threads \<Rightarrow> bool \<Rightarrow> Server \<Rightarrow> (thread_id \<rightharpoonup> ClientConnection \<times> unit prog) \<Rightarrow> bool" where
  "scene s0 m srv L \<longleftrightarrow> fsteps s0 \<lparr>shared = srv, live = L, missed = m, stopped = False\<rparr>"

lemma scene_next:
  assumes "scene s0 m srv L" "fstep t \<lparr>shared = srv, live = L, missed = m, stopped = False\<rparr>
    \<lparr>shared = srv', live = L', missed = m', stopped = False\<rparr>"
  shows "scene s0 m' srv' L'"
  using assms fsteps_more unfolding scene_def by blast

definition waiting :: threads where
  "waiting = threads_start (Server_new False)"

lemma freach_waiting: "freach waiting"
proof -
  have "server_main (\<lambda>port. 0) False [''./server'', ''5000''] = Ret (Serving listening)"
    by (simp add: server_main_run listening_def Server_new_def)
  then have "freach (threads_start (server listening))" by (rule f_start)
  then show ?thesis by (simp add: waiting_def listening_def system_start_def)
qed

lemma scene_start: "scene waiting False (Server_new False) Map.empty"
  by (simp add: scene_def waiting_def threads_start_def fsteps_none)

lemma scene_freach: "scene waiting m srv L \<Longrightarrow> freach \<lparr>shared = srv, live = L, missed = m, stopped = False\<rparr>"
  unfolding scene_def using freach_fsteps freach_waiting by blast

lemma scene_statement:
  assumes "scene s0 m srv L" "L t = Some (c, pr)" "advance pr (srv, c) = Some (pr', (srv', c'))"
  shows "scene s0 (m \<or> at_miss pr) srv' (L(t \<mapsto> (c', pr')))"
  using f_statement [of "\<lparr>shared = srv, live = L, missed = m, stopped = False\<rparr>" t c pr pr' srv' c'] assms
  by (intro scene_next [OF assms(1)]) simp_all

lemma tame_after: "after r k = Some (pr', w') \<Longrightarrow> (\<And>x. tame m (k x)) \<Longrightarrow> tame m pr'"
  by (cases "(r, k)" rule: after.cases) auto

lemma tame_advance: "tame m pr \<Longrightarrow> advance pr w = Some (pr', w') \<Longrightarrow> tame m pr' \<and> (m \<or> \<not> at_miss pr)"
  by (cases pr) (auto simp: at_miss_def dest!: tame_after)

text \<open>Statements of one thread in a row, none of which meets a missing key.\<close>

inductive goes :: "unit prog \<Rightarrow> world \<Rightarrow> unit prog \<Rightarrow> world \<Rightarrow> bool" where
  goes_none: "goes pr w pr w"
| goes_step: "advance pr w = Some (pr1, w1) \<Longrightarrow> \<not> at_miss pr \<Longrightarrow> goes pr1 w1 pr' w' \<Longrightarrow> goes pr w pr' w'"

lemma goes_trans: "goes pr w pr1 w1 \<Longrightarrow> goes pr1 w1 pr' w' \<Longrightarrow> goes pr w pr' w'"
  by (induction rule: goes.induct) (auto intro: goes_step)

lemma goes_tame: "unbroken pr w pr' w' \<Longrightarrow> tame False pr \<Longrightarrow> goes pr w pr' w'"
  by (induction rule: unbroken.induct) (auto dest: tame_advance intro: goes_none goes_step)

lemma scene_goes:
  assumes "goes pr w pr' w'" "scene s0 m (fst w) L" "L t = Some (snd w, pr)"
  shows "scene s0 m (fst w') (L(t \<mapsto> (snd w', pr')))"
  using assms
proof (induction arbitrary: L rule: goes.induct)
  case (goes_none pr w)
  then show ?case by (simp add: fun_upd_idem)
next
  case (goes_step pr w pr1 w1 pr' w')
  have "advance pr (fst w, snd w) = Some (pr1, (fst w1, snd w1))" using goes_step.hyps(1) by simp
  then have "scene s0 (m \<or> at_miss pr) (fst w1) (L(t \<mapsto> (snd w1, pr1)))"
    by (rule scene_statement [OF goes_step.prems(1,2)])
  then show ?case
    using goes_step.IH [of "L(t \<mapsto> (snd w1, pr1))"] goes_step.hyps(2) by (simp add: fun_upd_same del: fun_upd_apply)
qed

text \<open>A program that runs to its end without having to wait, all of its statements at once.\<close>

lemma scene_run:
  assumes "scene s0 m srv L" "L t = Some (c, pr)" "tame False pr" "run pr (srv, c) = (Ret (), (srv', c'))"
  shows "scene s0 m srv' (L(t \<mapsto> (c', retp ())))"
proof -
  have "goes pr (srv, c) (retp ()) (srv', c')"
    using executes [of pr "run pr" "(srv, c)"] assms(3,4) by (auto intro: goes_tame)
  from scene_goes [OF this] assms(1,2) show ?thesis by simp
qed

section \<open>Whole iterations\<close>

text \<open>
  A state of \<open>Sessions\<close>, whose steps are whole iterations, as one between statements: every thread is
  between two iterations.
\<close>

definition resting :: "(thread_id \<rightharpoonup> ClientConnection) \<Rightarrow> (thread_id \<rightharpoonup> ClientConnection \<times> unit prog)" where
  "resting cl = (\<lambda>t. map_option (\<lambda>c. (c, retp ())) (cl t))"

lemma resting_upd: "resting (cl(t \<mapsto> c)) = (resting cl)(t \<mapsto> (c, retp ()))" "resting (cl(t := None)) = (resting cl)(t := None)"
  by (auto simp: resting_def)

definition all_open :: "(thread_id \<rightharpoonup> ClientConnection) \<Rightarrow> bool" where
  "all_open cl \<longleftrightarrow> (\<forall>t c. cl t = Some c \<longrightarrow> \<not> fd_closed c)"

lemma scene_unbroken:
  assumes "unbroken pr w pr' w'" "scene s0 m (fst w) L" "L t = Some (snd w, pr)"
  shows "\<exists>m'. scene s0 m' (fst w') (L(t \<mapsto> (snd w', pr')))"
  using assms
proof (induction arbitrary: L m rule: unbroken.induct)
  case (unbroken_none pr w)
  then show ?case by (auto simp: fun_upd_idem)
next
  case (unbroken_step pr w pr1 w1 pr' w')
  have "advance pr (fst w, snd w) = Some (pr1, (fst w1, snd w1))" using unbroken_step.hyps(1) by simp
  from unbroken_step.IH [OF scene_statement [OF unbroken_step.prems this] fun_upd_same] show ?case by (simp del: fun_upd_apply)
qed

lemma advance_open:
  assumes "advance pr (srv, c) = Some (pr', (srv', c'))" "tame m pr"
  shows "fd_closed c' = fd_closed c"
proof (cases pr)
  case (Read_table p k)
  then show ?thesis using assms by (cases "p < length (heap srv)") (auto simp: read_table_run table_cmd_wild)
next
  case (Write_table p f k)
  then show ?thesis using assms by (cases "p < length (heap srv)") (auto simp: modify_table_run modify_table_wild)
next
  case (Create n k)
  then show ?thesis using assms by (auto simp: run_simps create_table_run)
qed (use assms in \<open>auto simp: keeps_open_def access_cases split: if_splits option.splits\<close>)

lemma unbroken_open: "unbroken (pr :: unit prog) w pr' w' \<Longrightarrow> tame True pr \<Longrightarrow> fd_closed (snd w') = fd_closed (snd w)"
proof (induction rule: unbroken.induct)
  case (unbroken_step pr w pr1 w1 pr' w')
  have "advance pr (fst w, snd w) = Some (pr1, (fst w1, snd w1))" using unbroken_step.hyps(1) by simp
  then have "fd_closed (snd w1) = fd_closed (snd w)" using unbroken_step.prems by (rule advance_open)
  moreover have "tame True pr1" using tame_advance [OF unbroken_step.prems unbroken_step.hyps(1)] by blast
  ultimately show ?case using unbroken_step.IH by simp
qed simp

lemma scene_executes:
  assumes "scene s0 m srv L" "L t = Some (c, pr)" "run pr (srv, c) = (r, (srv', c'))" "r \<noteq> Block" "tame True pr"
  shows "\<exists>m'. scene s0 m' srv' (L(t \<mapsto> (c', Done r)))" "fd_closed c' = fd_closed c"
proof -
  have u: "unbroken pr (srv, c) (Done r) (srv', c')"
    using executes [of pr "run pr" "(srv, c)"] assms(3,4) by auto
  from scene_unbroken [OF this] assms(1,2) show "\<exists>m'. scene s0 m' srv' (L(t \<mapsto> (c', Done r)))" by simp
  from unbroken_open [OF u assms(5)] show "fd_closed c' = fd_closed c" by simp
qed

text \<open>One step of \<open>Sessions\<close> is some steps here.\<close>

lemma scene_iteration:
  assumes "scene s0 m srv (resting cl)" "cl t = Some c" "loop_in_progress c" "chat_iteration (srv, c) = (r, (srv', c'))" "r \<noteq> Block"
  shows "\<exists>m'. scene s0 m' srv' ((resting cl)(t \<mapsto> (c', Done r)))" "fd_closed c' = fd_closed c"
proof -
  have "scene s0 m srv ((resting cl)(t \<mapsto> (c, chat_iteration_stmts)))"
    using f_iterate [of "\<lparr>shared = srv, live = resting cl, missed = m, stopped = False\<rparr>" t c] assms(2,3)
    by (intro scene_next [OF assms(1)]) (simp_all add: resting_def)
  from scene_executes [OF this fun_upd_same _ assms(5) tame_iteration, of srv' c'] assms(4)
  show "\<exists>m'. scene s0 m' srv' ((resting cl)(t \<mapsto> (c', Done r)))" "fd_closed c' = fd_closed c"
    by (simp_all add: chat_iteration_stmts_run del: fun_upd_apply)
qed

lemma scene_finish:
  assumes "scene s0 m srv (resting cl)" "cl t = Some c" "\<not> loop_in_progress c" "\<not> fd_closed c"
    and "finish_client (srv, c) = (Ret (), (srv', c'))" "fd_closed c'" "\<not> loop_in_progress c'"
  shows "\<exists>m'. scene s0 m' srv' (resting (cl(t := None)))"
proof -
  have "scene s0 m srv ((resting cl)(t \<mapsto> (c, finish_stmts)))"
    using f_finish [of "\<lparr>shared = srv, live = resting cl, missed = m, stopped = False\<rparr>" t c] assms(2-4)
    by (intro scene_next [OF assms(1)]) (simp_all add: resting_def)
  moreover have "unbroken finish_stmts (srv, c) (retp ()) (srv', c')"
    using executes [of finish_stmts "run finish_stmts" "(srv, c)"] assms(5) by (auto simp: finish_stmts_run finish_client_def)
  ultimately obtain m' where "scene s0 m' srv' ((resting cl)(t \<mapsto> (c', retp ())))"
    using scene_unbroken [of finish_stmts "(srv, c)" "retp ()" "(srv', c')" s0 m "(resting cl)(t \<mapsto> (c, finish_stmts))" t]
    by (auto simp del: fun_upd_apply simp: fun_upd_same)
  then have "scene s0 m' srv' ((resting cl)(t := None))"
    using f_exit [of "\<lparr>shared = srv', live = (resting cl)(t \<mapsto> (c', retp ())), missed = m', stopped = False\<rparr>" t c'] assms(6,7)
    by (elim scene_next) (simp_all del: fun_upd_apply add: fun_upd_same)
  then show ?thesis by (auto simp: resting_upd)
qed

lemma resting_step:
  assumes st: "step t s s'" and ok: "sys_ok s" "all_open (clients s)" and sc: "scene s0 m (server s) (resting (clients s))"
  shows "if crashed s' then \<exists>s1. fsteps s0 s1 \<and> stopped s1 \<and> shared s1 = server s'
    else all_open (clients s') \<and> (\<exists>m'. scene s0 m' (server s') (resting (clients s')))"
  using st
proof cases
  case (accept fd g inp created)
  let ?c = "ClientConnection_new t fd g inp"
  have "scene s0 m (server s) ((resting (clients s))(t \<mapsto> (?c, retp ())))"
    using f_accept [of "\<lparr>shared = server s, live = resting (clients s), missed = m, stopped = False\<rparr>" t fd g inp] accept(3)
    by (intro scene_next [OF sc]) (simp_all add: resting_def)
  moreover have "all_open ((clients s)(t \<mapsto> ?c))"
    using ok(2) by (simp add: all_open_def ClientConnection_new_def)
  ultimately show ?thesis
    using accept sc ok(2) by (cases created) (auto simp: accept_client_def Let_def resting_upd)
next
  case (iterate c srv' c')
  note it = scene_iteration [OF sc iterate(3,4,5)]
  have "all_open ((clients s)(t \<mapsto> c'))" using ok(2) iterate(3) it(2) by (auto simp: all_open_def)
  then show ?thesis using it(1) iterate(1,2) by (simp add: resting_upd)
next
  case (finish c srv' c')
  have "aborted (server s, c\<lparr>fd_closed := True\<rparr>) = (srv', c')"
    using finish_client_run [OF sys_okD(2) [OF ok(1) finish(3)]] finish(5) by simp
  then have c': "fd_closed c'" "\<not> loop_in_progress c'" using finish(4) by (auto simp: aborted_def)
  have "\<not> fd_closed c" using ok(2) finish(3) by (simp add: all_open_def)
  from scene_finish [OF sc finish(3,4) this finish(5) c'] show ?thesis
    using finish(1,2) ok(2) by (auto simp: all_open_def)
next
  case (crash c r srv' c')
  have r: "r \<noteq> Block" "r \<noteq> Ret ()" using crash(6) by auto
  obtain m' where m': "scene s0 m' srv' ((resting (clients s))(t \<mapsto> (c', Done r)))"
    using scene_iteration(1) [OF sc crash(3,4,5) r(1)] by blast
  let ?s1 = "\<lparr>shared = srv', live = (resting (clients s))(t \<mapsto> (c', Done r)), missed = m', stopped = False\<rparr>"
  have "fstep t ?s1 (?s1\<lparr>stopped := True\<rparr>)" by (rule f_crash) (use r(2) in simp_all)
  then have "fsteps s0 (?s1\<lparr>stopped := True\<rparr>)" using m' fsteps_more unfolding scene_def by blast
  then show ?thesis using crash(1) by (intro exI [of _ "?s1\<lparr>stopped := True\<rparr>"] | simp)+
qed

text \<open>
  Whole iterations are one way to interleave. Every state that the server reaches in steps
  of whole iterations (\<open>Sessions\<close>) is reached in steps of single statements: with the same shared state,
  and, unless the process has stopped, with the same threads, each between two iterations.
\<close>

lemma iterations_are_statements:
  assumes "reachable s"
  shows "\<exists>f. freach f \<and> shared f = server s \<and> stopped f = crashed s \<and> (\<not> crashed s \<longrightarrow> live f = resting (clients s))"
proof -
  have "if crashed s then \<exists>f. freach f \<and> stopped f \<and> shared f = server s
     else all_open (clients s) \<and> (\<exists>f m. freach f \<and> f = \<lparr>shared = server s, live = resting (clients s), missed = m, stopped = False\<rparr>)"
    using assms
  proof (induction rule: reachable.induct)
    case (start ol g argv s)
    have "s = system_start (server s)" by (rule server_main_serving [OF start]) (simp add: system_start_def)
    then have "\<not> crashed s" "clients s = Map.empty" by (metis system.simps(2,5) system_start_def)+
    moreover have "resting Map.empty = Map.empty" by (simp add: resting_def)
    ultimately show ?case using f_start [OF start] by (auto simp: threads_start_def all_open_def)
  next
    case (next_state s t s')
    have nc: "\<not> crashed s" using next_state.hyps(2) step_not_crashed by blast
    with next_state.IH obtain m where o: "all_open (clients s)"
      and f: "freach \<lparr>shared = server s, live = resting (clients s), missed = m, stopped = False\<rparr>" by auto
    let ?s0 = "\<lparr>shared = server s, live = resting (clients s), missed = m, stopped = False\<rparr>"
    have "scene ?s0 m (server s) (resting (clients s))" by (simp add: scene_def fsteps_none)
    from resting_step [OF next_state.hyps(2) reachable_sys_ok [OF next_state.hyps(1) nc] o this] f
    show ?case unfolding scene_def by (auto split: if_splits dest: freach_fsteps)
  qed
  then show ?thesis by (auto split: if_splits)
qed

end
