(* ===== verification/Races.thy ===== *)
theory Races
  imports Executions
begin

text \<open>
  Executions with two clients, built request by request: that the states the
  rule of locking speaks of are reached, and the two places where the code lets statements of
  different threads collide: the directory of tables, which is searched without its mutex, and the
  mutex that \<open>GET\<close> of a missing key gives away too early.
\<close>

section \<open>Requests of a client\<close>

text \<open>
  The connection of thread \<open>t\<close> between two requests: what it has on its stack, whether it is in a
  transaction, the tables it holds, the lines it has been sent, and the input that is still to come.
\<close>

definition between ::
  "thread_id \<Rightarrow> bool \<Rightarrow> ValueStack \<Rightarrow> bool \<Rightarrow> table_ptr list \<Rightarrow> string list \<Rightarrow> string \<Rightarrow> ClientConnection \<Rightarrow> bool" where
  "between t first st tx held out rest c \<longleftrightarrow>
     me c = t \<and> loop_in_progress c \<and> first_valid_message c = first \<and> stack c = st \<and> in_transaction c = tx \<and>
     locked_tables c = held \<and> written c = out \<and>
     rio_ok (m_fdbuf c, incoming c) \<and> remaining (m_fdbuf c, incoming c) = rest"

lemma scene_accept:
  assumes "scene s0 m srv L" "L t = None" "clean [Bytes inp]"
  shows "\<exists>c. between t True [] False [] [] inp c \<and> scene s0 m srv (L(t \<mapsto> (c, retp ())))"
proof -
  let ?c = "ClientConnection_new t 4 example_rio [Bytes inp]"
  have "between t True [] False [] [] inp ?c"
    using assms(3)
    by (simp add: between_def rio_ok_def rio_wf_def remaining_def buffered_def rio_readinitb_def)
  moreover have "scene s0 m srv (L(t \<mapsto> (?c, retp ())))"
    using f_accept [of "\<lparr>shared = srv, live = L, missed = m, stopped = False\<rparr>" t 4 example_rio "[Bytes inp]"] assms(2)
    by (intro scene_next [OF assms(1)]) simp_all
  ultimately show ?thesis by blast
qed

text \<open>The steps of a thread inside its own connection.\<close>

lemma own_access [simp]:
  "advance (bindp (own_cmd m) f) (srv, c) = Some (bindp (Done (fst (m c))) f, (srv, snd (m c)))"
  "advance (seqp (own_cmd n) k) (srv, c) = Some (bindp (Done (fst (n c))) (\<lambda>_. k), (srv, snd (n c)))"
  by (simp_all add: own_cmd_def bindp.simps seqp_def)

lemma bindp_done [simp]:
  "bindp (Done (Ret x)) f = f x" "bindp (Done (Throw e)) f = Done (Throw e)" "seqp (retp ()) k = k"
  by (simp_all add: bindp.simps seqp_def)

lemma own_read:
  assumes "rio_readlineb sizeof_rio_t (m_fdbuf c) (incoming c) = (int (length l) + 1, l @ [newline, nul], rp, inp)"
    and "length l + 2 \<le> 1024" "decode (c_str (l @ [newline, nul])) (client_msg c) = (Ret (), msg)"
  shows "goes chat_iteration_stmts (srv, c) serve_request_stmts (srv, c\<lparr>m_fdbuf := rp, incoming := inp, client_msg := msg\<rparr>)"
proof -
  let ?d = "c\<lparr>m_fdbuf := rp, incoming := inp\<rparr>"
  have "advance chat_iteration_stmts (srv, c) = Some (handle_line_stmts (l @ [newline, nul]), (srv, ?d))"
    using assms(1,2) by (simp add: chat_iteration_stmts_def read_request_stmts_def MAX_ENCODED_LEN_def)
  moreover have "advance (handle_line_stmts (l @ [newline, nul])) (srv, ?d) = Some (serve_request_stmts, (srv, ?d\<lparr>client_msg := msg\<rparr>))"
    using assms(3)
    by (simp add: handle_line_stmts_def decode_request_stmts_def own_cmd_def seqp_def bindp.simps catchp.simps)
  moreover have "\<not> at_miss chat_iteration_stmts" "\<not> at_miss (handle_line_stmts buf)" for buf
    by (simp_all add: at_miss_def chat_iteration_stmts_def read_request_stmts_def handle_line_stmts_def decode_request_stmts_def
        own_cmd_def seqp_def bindp.simps catchp.simps)
  ultimately show ?thesis by (blast intro: goes.intros)
qed

text \<open>What \<open>serve_request_stmts\<close> goes on with, once it has looked at the message and at the flag.\<close>

definition served :: "Message \<Rightarrow> bool \<Rightarrow> unit prog" where
  "served msg first =
     (if get_message_type msg = LOGIN
      then catchp
             (bindp (handle_login_stmts (Some first)) (\<lambda>flag.
              changep (\<lambda>c. c\<lparr>first_valid_message := flag\<rparr>)))
             (\<lambda>ex. if is_OperationException ex then Some (manage_exception_stmts ex True) else None)
      else if first
      then seqp (send_stmts (Message_new ERROR [''Please log in first.'']))
             (changep (\<lambda>c. c\<lparr>loop_in_progress := False\<rparr>))
      else call_response_function_stmts (Message_copy msg))"

lemma own_serve: "goes serve_request_stmts (srv, c) (served (client_msg c) (first_valid_message c)) (srv, c)"
proof -
  let ?ask = "bindp (askp first_valid_message) (served (client_msg c))"
  have "advance serve_request_stmts (srv, c) = Some (?ask, (srv, c))"
    by (simp add: serve_request_stmts_def served_def [abs_def] askp_def run_simps)
  moreover have "advance ?ask (srv, c) = Some (served (client_msg c) (first_valid_message c), (srv, c))"
    by (simp add: askp_def run_simps)
  moreover have "\<not> at_miss serve_request_stmts" "\<not> at_miss ?ask"
    by (simp_all add: at_miss_def serve_request_stmts_def askp_def own_cmd_def bindp.simps)
  ultimately show ?thesis by (blast intro: goes.intros)
qed

lemma reads_line:
  assumes "between t first st tx held out (l @ newline # rest) c" "newline \<notin> set l" "length l + 2 \<le> 1024"
  obtains rp inp where
    "rio_readlineb sizeof_rio_t (m_fdbuf c) (incoming c) = (int (length l) + 1, l @ [newline, nul], rp, inp)"
    "rio_ok (rp, inp)" "remaining (rp, inp) = rest"
proof -
  have "sizeof_rio_t = Suc 8207" by (simp add: sizeof_rio_t_def RIO_BUFSIZE_def)
  then show thesis
    using that rio_readlineb_line [of "m_fdbuf c" "incoming c" 8207] line_upto_line [OF assms(2), of 8207 rest] assms(1,3)
    by (auto simp: between_def)
qed

text \<open>A client sends a line: its thread reads and decodes it, and looks at what it has to do.\<close>

lemma scene_reads:
  assumes "scene s0 m srv L" "L t = Some (c, retp ())" "between t first st tx held out (l @ newline # rest) c"
    and "newline \<notin> set l" "length l + 2 \<le> 1024" "\<And>m0. decode (c_str (l @ [newline, nul])) m0 = (Ret (), msg)"
  shows "\<exists>d. between t first st tx held out rest d \<and> scene s0 m srv (L(t \<mapsto> (d, served msg first)))"
proof -
  obtain rp inp where r:
      "rio_readlineb sizeof_rio_t (m_fdbuf c) (incoming c) = (int (length l) + 1, l @ [newline, nul], rp, inp)"
    and io: "rio_ok (rp, inp)" "remaining (rp, inp) = rest"
    using reads_line [OF assms(3-5)] .
  let ?d = "c\<lparr>m_fdbuf := rp, incoming := inp, client_msg := msg\<rparr>"
  have d: "between t first st tx held out rest ?d" using assms(3) io by (simp add: between_def)
  have "goes chat_iteration_stmts (srv, c) (served msg first) (srv, ?d)"
    using goes_trans [OF own_read [OF r assms(5,6)] own_serve [of srv ?d]] assms(3) by (simp add: between_def)
  moreover have "scene s0 m srv (L(t \<mapsto> (c, chat_iteration_stmts)))"
    using f_iterate [of "\<lparr>shared = srv, live = L, missed = m, stopped = False\<rparr>" t c] assms(2,3)
    by (intro scene_next [OF assms(1)]) (simp_all add: between_def)
  ultimately have "scene s0 m srv (L(t \<mapsto> (?d, served msg first)))"
    using scene_goes [of _ "(srv, c)" _ "(srv, ?d)" s0 m "L(t \<mapsto> (c, chat_iteration_stmts))" t]
    by (simp add: fun_upd_same del: fun_upd_apply)
  with d show ?thesis by blast
qed

text \<open>The rest of a request that never meets a missing key.\<close>

lemma scene_answer:
  assumes "scene s0 m srv L" "L t = Some (c, call_response_function_stmts msg)" "m_message_type msg \<noteq> GET"
    and "call_response_function msg (srv, c) = (Ret (), (srv', c'))"
  shows "scene s0 m srv' (L(t \<mapsto> (c', retp ())))"
  by (rule scene_run [OF assms(1,2) tame_request [OF disjI2 [OF assms(3)]]]) (simp add: assms(4) call_response_function_stmts_run)

text \<open>The same for a client of a thread that is between two requests, the other threads standing still.\<close>

definition client ::
  "(thread_id \<rightharpoonup> ClientConnection \<times> unit prog) \<Rightarrow> thread_id \<Rightarrow> bool \<Rightarrow> ValueStack \<Rightarrow> bool \<Rightarrow>
   table_ptr list \<Rightarrow> string list \<Rightarrow> string \<Rightarrow> bool" where
  "client L t first st tx held out rest \<longleftrightarrow>
     (\<exists>c. L t = Some (c, retp ()) \<and> between t first st tx held out rest c)"

definition same_but :: "thread_id \<Rightarrow> (thread_id \<rightharpoonup> 'x) \<Rightarrow> (thread_id \<rightharpoonup> 'x) \<Rightarrow> bool" where
  "same_but t L L' \<longleftrightarrow> (\<forall>u. u \<noteq> t \<longrightarrow> L' u = L u)"

lemma same_but_upd [simp]: "same_but t L (L(t := x))"
  by (simp add: same_but_def)

lemma same_but_client [simp]: "same_but t L L' \<Longrightarrow> u \<noteq> t \<Longrightarrow> client L' u = client L u"
  by (simp add: fun_eq_iff client_def same_but_def)

lemma client_accepted:
  assumes "scene s0 m srv L" "L t = None" "clean [Bytes inp]"
  obtains L' where "scene s0 m srv L'" "same_but t L L'" "client L' t True [] False [] [] inp"
proof -
  obtain c where "between t True [] False [] [] inp c" "scene s0 m srv (L(t \<mapsto> (c, retp ())))"
    using scene_accept [OF assms] by blast
  then show thesis by (intro that [of "L(t \<mapsto> (c, retp ()))"]) (auto simp: client_def)
qed

lemma client_request:
  assumes "scene s0 m srv L" "client L t False st tx held out (l @ newline # rest)"
    and "newline \<notin> set l" "length l + 2 \<le> 1024"
    and "\<And>m0. decode (c_str (l @ [newline, nul])) m0 = (Ret (), msg)" "m_message_type msg \<noteq> LOGIN"
  obtains d L' where "scene s0 m srv L'" "same_but t L L'" "L' t = Some (d, call_response_function_stmts msg)"
    "between t False st tx held out rest d"
proof -
  obtain c where "L t = Some (c, retp ())" "between t False st tx held out (l @ newline # rest) c"
    using assms(2) unfolding client_def by blast
  from scene_reads [OF assms(1) this assms(3-5)] obtain d where
    "between t False st tx held out rest d" "scene s0 m srv (L(t \<mapsto> (d, served msg False)))" by blast
  moreover have "served msg False = call_response_function_stmts msg"
    using assms(6) by (simp add: served_def get_message_type_def Message_copy_def)
  ultimately show thesis by (intro that [of "L(t \<mapsto> (d, call_response_function_stmts msg))" d]) auto
qed

lemma client_answered:
  assumes "scene s0 m srv L" "client L t False st tx held out (l @ newline # rest)"
    and "newline \<notin> set l" "length l + 2 \<le> 1024"
    and "\<And>m0. decode (c_str (l @ [newline, nul])) m0 = (Ret (), msg)" "m_message_type msg \<notin> {LOGIN, GET}"
    and "\<And>d. between t False st tx held out rest d \<Longrightarrow>
      \<exists>d'. call_response_function msg (srv, d) = (Ret (), (srv', d')) \<and> between t False st' tx' held' out' rest d'"
  obtains L' where "scene s0 m srv' L'" "same_but t L L'" "client L' t False st' tx' held' out' rest"
proof -
  obtain d L' where d: "scene s0 m srv L'" "same_but t L L'" "L' t = Some (d, call_response_function_stmts msg)"
    "between t False st tx held out rest d"
    using client_request [OF assms(1-5)] assms(6) by blast
  obtain d' where d': "call_response_function msg (srv, d) = (Ret (), (srv', d'))" "between t False st' tx' held' out' rest d'"
    using assms(7) [OF d(4)] by blast
  show thesis
    using that [of "L'(t \<mapsto> (d', retp ()))"] scene_answer [OF d(1,3) _ d'(1)] d'(2) d(2) assms(6)
    by (auto simp: client_def same_but_def)
qed

lemma client_login:
  assumes "scene s0 m srv L" "client L t first st tx held out (l @ newline # rest)"
    and "newline \<notin> set l" "length l + 2 \<le> 1024"
    and "\<And>m0. decode (c_str (l @ [newline, nul])) m0 = (Ret (), msg)" "m_message_type msg = LOGIN"
  obtains L' where "scene s0 m srv L'" "same_but t L L'" "client L' t False st tx held (out @ [ok_line]) rest"
proof -
  obtain c where c: "L t = Some (c, retp ())" "between t first st tx held out (l @ newline # rest) c"
    using assms(2) unfolding client_def by blast
  obtain d where d: "between t first st tx held out rest d" "scene s0 m srv (L(t \<mapsto> (d, served msg first)))"
    using scene_reads [OF assms(1) c assms(3-5)] by blast
  let ?e = "answer ok_line (d\<lparr>first_valid_message := False\<rparr>)"
  have "tame False (served msg first)"
    using assms(6) by (auto simp: served_def get_message_type_def handle_login_stmts_def td.allowed_changes split: if_splits)
  moreover have "run (served msg first) (srv, d) = (Ret (), (srv, ?e))"
    using assms(6)
    by (simp add: served_def get_message_type_def handle_login_stmts_def stmts in_branches run_simps answer_def)
  ultimately have "scene s0 m srv (L(t \<mapsto> (d, served msg first), t \<mapsto> (?e, retp ())))"
    by (rule scene_run [OF d(2) fun_upd_same])
  then have "scene s0 m srv (L(t \<mapsto> (?e, retp ())))" by (simp del: fun_upd_apply)
  then show thesis
    using that [of "L(t \<mapsto> (?e, retp ()))"] d(1) by (auto simp: client_def between_def answer_def)
qed

section \<open>Statements of one thread, whatever they meet\<close>

primrec advances :: "nat \<Rightarrow> unit prog \<Rightarrow> world \<Rightarrow> (unit prog \<times> world) option" where
  "advances 0 pr w = Some (pr, w)"
| "advances (Suc n) pr w = (case advance pr w of None \<Rightarrow> None | Some (pr', w') \<Rightarrow> advances n pr' w')"

lemma advances_goes: "advances n pr w = Some (pr', w') \<Longrightarrow> tame False pr \<Longrightarrow> goes pr w pr' w'"
proof (induction n arbitrary: pr w)
  case (Suc n)
  then obtain pr1 w1 where a: "advance pr w = Some (pr1, w1)" "advances n pr1 w1 = Some (pr', w')"
    by (auto split: option.splits)
  then show ?case using goes_step [OF a(1)] tame_advance [OF Suc.prems(2) a(1)] Suc.IH by blast
qed (simp add: goes_none)

lemma scene_within:
  assumes "scene s0 m srv L" "L t = Some (c, pr)" "tame False pr" "advances n pr (srv, c) = Some (pr', (srv', c'))"
  shows "scene s0 m srv' (L(t \<mapsto> (c', pr')))"
  using scene_goes [OF advances_goes [OF assms(4,3)], of s0 m L t] assms(1,2) by simp

lemma scene_advances:
  assumes "scene s0 m srv L" "L t = Some (c, pr)" "advances n pr (srv, c) = Some (pr', (srv', c'))"
  obtains m' where "scene s0 m' srv' (L(t \<mapsto> (c', pr')))"
proof -
  have "\<exists>m'. scene s0 m' srv' (L(t \<mapsto> (c', pr')))" using assms
  proof (induction n arbitrary: m srv L c pr)
    case 0
    then show ?case by (auto simp: fun_upd_idem)
  next
    case (Suc n)
    obtain pr1 srv1 c1 where a: "advance pr (srv, c) = Some (pr1, (srv1, c1))" "advances n pr1 (srv1, c1) = Some (pr', (srv', c'))"
      using Suc.prems(3) by (auto split: option.splits)
    show ?case
      using Suc.IH [OF scene_statement [OF Suc.prems(1,2) a(1)] fun_upd_same a(2)] by (simp del: fun_upd_apply)
  qed
  with that show thesis by blast
qed

section \<open>Clients of the scenarios\<close>

lemma decode_commit_line: "decode (c_str (''COMMIT'' @ [newline, nul])) m0 = (Ret (), Message_new COMMIT [])"
  by (rule decode_line [of COMMIT "''COMMIT''" "[]"]) code_simp+

text \<open>Two clients that have logged in, as threads 1 and 2.\<close>

lemma two_clients:
  obtains L where "scene waiting False (Server_new False) L"
    "client L 1 False [] False [] [ok_line] rest1" "client L 2 False [] False [] [ok_line] rest2"
proof -
  let ?in1 = "''LOGIN ann'' @ newline # rest1" and ?in2 = "''LOGIN bob'' @ newline # rest2"
  obtain L1 where L1: "scene waiting False (Server_new False) L1" "same_but 1 Map.empty L1"
      "client L1 1 True [] False [] [] ?in1"
    by (rule client_accepted [OF scene_start, where t = 1 and inp = ?in1]) (simp_all add: clean_def)
  obtain L2 where L2: "scene waiting False (Server_new False) L2" "same_but 1 L1 L2" "client L2 1 False [] False [] [ok_line] rest1"
    by (rule client_login [OF L1(1,3) _ _ decode_login_line]) (simp_all add: Message_new_def)
  have free: "L2 2 = None" using L1(2) L2(2) by (simp add: same_but_def)
  obtain L3 where L3: "scene waiting False (Server_new False) L3" "same_but 2 L2 L3"
      "client L3 2 True [] False [] [] ?in2"
    by (rule client_accepted [OF L2(1) free, where inp = ?in2]) (simp_all add: clean_def)
  obtain L4 where L4: "scene waiting False (Server_new False) L4" "same_but 2 L3 L4" "client L4 2 False [] False [] [ok_line] rest2"
    by (rule client_login [OF L3(1,3) _ _ decode_bob_line]) (simp_all add: Message_new_def)
  with L2 L3 show thesis by (intro that [of L4]) simp_all
qed

lemma ready_answer [simp]: "between t first st tx held out rest c \<Longrightarrow> between t first st tx held (out @ [l]) rest (answer l c)"
  by (simp add: between_def answer_def)

lemma client_creates:
  assumes "scene s0 m (Server_new False) L" "client L t False st tx held out (''CREATE fruit'' @ newline # rest)"
  obtains L' where "scene s0 m example_server L'" "same_but t L L'" "client L' t False st tx held (out @ [ok_line]) rest"
proof (rule client_answered [OF assms _ _ decode_create_line])
  fix d assume d: "between t False st tx held out rest d"
  have "handle_create (Message_new CREATE [''fruit'']) (Server_new False, d) = (Ret (), (example_server, answer ok_line d))"
    by (subst handle_create_run)
      (simp_all add: Message_new_def Server_new_def mutex_init_def find_table_map_of example_server_def create_table_run)
  then have "call_response_function (Message_new CREATE [''fruit'']) (Server_new False, d) =
      (Ret (), (example_server, answer ok_line d))"
    by (intro call_response_done) (simp_all add: dispatch_def get_message_type_def Message_new_def)
  then show "\<exists>d'. call_response_function (Message_new CREATE [''fruit'']) (Server_new False, d) = (Ret (), (example_server, d')) \<and>
      between t False st tx held (out @ [ok_line]) rest d'"
    using d by simp
qed (simp_all add: Message_new_def that)

lemma client_begins:
  assumes "scene s0 m srv L" "client L t False st False held out (''BEGIN'' @ newline # rest)"
  obtains L' where "scene s0 m srv L'" "same_but t L L'" "client L' t False st True held (out @ [ok_line]) rest"
proof (rule client_answered [OF assms _ _ decode_begin_line])
  fix d assume d: "between t False st False held out rest d"
  then show "\<exists>d'. call_response_function (Message_new BEGIN []) (srv, d) = (Ret (), (srv, d')) \<and>
      between t False st True held (out @ [ok_line]) rest d'"
    using begin_response [of d srv] by (simp add: between_def answer_def)
qed (simp_all add: Message_new_def that)

lemma client_pushes:
  assumes "scene s0 m srv L" "client L t False st tx held out (''PUSH 3'' @ newline # rest)"
  obtains L' where "scene s0 m srv L'" "same_but t L L'" "client L' t False (''3'' # st) tx held (out @ [ok_line]) rest"
proof (rule client_answered [OF assms _ _ decode_push_line])
  fix d assume d: "between t False st tx held out rest d"
  then show "\<exists>d'. call_response_function (Message_new PUSH [''3'']) (srv, d) = (Ret (), (srv, d')) \<and>
      between t False (''3'' # st) tx held (out @ [ok_line]) rest d'"
    using push_response [of "''3''" srv d] by (simp add: between_def answer_def)
qed (simp_all add: Message_new_def that)

text \<open>\<open>SET fruit kiwis\<close> in a transaction that does not hold the table yet.\<close>

definition proposed :: "thread_id \<Rightarrow> Server" where
  "proposed t = at_table 0 (\<lambda>tb. table_set ''kiwis'' ''3'' (tb\<lparr>t_mutex := Some t\<rparr>)) example_server"

lemma client_sets:
  assumes "scene s0 m example_server L" "client L t False [''3''] True [] out (''SET fruit kiwis'' @ newline # rest)"
  obtains L' where "scene s0 m (proposed t) L'" "same_but t L L'" "client L' t False [] True [0] (out @ [ok_line]) rest"
proof (rule client_answered [OF assms _ _ decode_set_line])
  fix d assume d: "between t False [''3''] True [] out rest d"
  let ?d = "answer ok_line (d\<lparr>locked_tables := locked_tables d @ [0], stack := []\<rparr>)"
  have "handle_set (Message_new SET [''fruit'', ''kiwis'']) (example_server, d) = (Ret (), (proposed (me d), ?d))"
    using d unfolding proposed_def
    by (intro handle_set_acquire [where name = "''fruit''"]) (simp_all add: between_def Message_new_def get_size_small)
  then have "call_response_function (Message_new SET [''fruit'', ''kiwis'']) (example_server, d) = (Ret (), (proposed (me d), ?d))"
    by (intro call_response_done) (simp_all add: dispatch_def get_message_type_def Message_new_def)
  then show "\<exists>d'. call_response_function (Message_new SET [''fruit'', ''kiwis'']) (example_server, d) = (Ret (), (proposed t, d')) \<and>
      between t False [] True [0] (out @ [ok_line]) rest d'"
    using d by (simp add: between_def answer_def)
qed (simp_all add: Message_new_def that)

section \<open>The directory of tables\<close>

lemmas stmts_unfold = call_response_function_stmts_def dispatch_stmts_def get_message_type_def Message_new_def
  get_arg_def vec_at_def seqp_def bindp.simps catchp.simps

lemma get_searches:
  "\<exists>k. call_response_function_stmts (Message_new GET [''fruit'', ''kiwis'']) = Find ''fruit'' k"
  by (simp add: stmts_unfold handle_get_stmts_def)

lemma create_inserts:
  "\<exists>k. advances 2 (call_response_function_stmts (Message_new CREATE [''fruit''])) (Server_new False, c) =
     Some (Create ''fruit'' k, ((Server_new False)\<lparr>s_mutex := Some (me c), mutex_is_locked := True\<rparr>, c))"
  by (simp add: stmts_unfold handle_create_stmts_def eval_nat_numeral access_cases Server_new_def mutex_init_def
      find_table_map_of)

text \<open>Thread 1 is about to search the directory for the table that thread 2 is about to insert.\<close>

lemma directory_scene:
  obtains L c k d k' where
    "scene waiting False ((Server_new False)\<lparr>s_mutex := Some 2, mutex_is_locked := True\<rparr>) L"
    "L 1 = Some (c, Find ''fruit'' k)" "L 2 = Some (d, Create ''fruit'' k')"
proof -
  obtain L where L: "scene waiting False (Server_new False) L"
    "client L 1 False [] False [] [ok_line] (''GET fruit kiwis'' @ newline # [])"
    "client L 2 False [] False [] [ok_line] (''CREATE fruit'' @ newline # [])"
    by (rule two_clients)
  obtain c L1 where L1: "scene waiting False (Server_new False) L1" "same_but 1 L L1"
    "L1 1 = Some (c, call_response_function_stmts (Message_new GET [''fruit'', ''kiwis'']))"
    by (rule client_request [OF L(1,2) _ _ decode_get_line]) (simp_all add: Message_new_def)
  have "client L1 2 False [] False [] [ok_line] (''CREATE fruit'' @ newline # [])" using L(3) L1(2) by simp
  then obtain d L2 where L2: "scene waiting False (Server_new False) L2" "same_but 2 L1 L2"
    "L2 2 = Some (d, call_response_function_stmts (Message_new CREATE [''fruit'']))" "between 2 False [] False [] [ok_line] [] d"
    by (rule client_request [OF L1(1) _ _ _ decode_create_line]) (simp_all add: Message_new_def)
  obtain k' where k': "advances 2 (call_response_function_stmts (Message_new CREATE [''fruit''])) (Server_new False, d) =
      Some (Create ''fruit'' k', ((Server_new False)\<lparr>s_mutex := Some 2, mutex_is_locked := True\<rparr>, d))"
    using create_inserts [of d] L2(4) by (auto simp: between_def)
  have "L2 1 = L1 1" using L2(2) by (simp add: same_but_def)
  moreover obtain k where "call_response_function_stmts (Message_new GET [''fruit'', ''kiwis'']) = Find ''fruit'' k"
    using get_searches by blast
  moreover have "tame False (call_response_function_stmts (Message_new CREATE [''fruit'']))"
    by (rule tame_request) (simp add: Message_new_def)
  ultimately show thesis
    using that [OF scene_within [OF L2(1,3) _ k']] L1(3) by simp
qed

text \<open>
  C13. The directory of tables is searched without its mutex. An execution exists in which no request failed and
  one thread is about to search the directory (for \<open>GET\<close> or \<open>SET\<close>) while another, which
  owns the server's mutex, is about to insert a table into it, and either may go first: in \<open>C++\<close> a data
  race on the \<open>std::unordered_map\<close>.
\<close>

theorem directory_race:
  "\<exists>s c d name k k'. freach s \<and> \<not> missed s \<and> \<not> stopped s \<and>
     live s 1 = Some (c, Find name k) \<and> \<not> owns_server 1 (shared s) \<and>
     live s 2 = Some (d, Create name k') \<and> owns_server 2 (shared s) \<and>
     (\<exists>s'. fstep 1 s s') \<and> (\<exists>s'. fstep 2 s s')"
proof -
  obtain L c k d k' where L:
    "scene waiting False ((Server_new False)\<lparr>s_mutex := Some 2, mutex_is_locked := True\<rparr>) L"
    "L 1 = Some (c, Find ''fruit'' k)" "L 2 = Some (d, Create ''fruit'' k')"
    by (rule directory_scene)
  let ?s = "\<lparr>shared = (Server_new False)\<lparr>s_mutex := Some 2, mutex_is_locked := True\<rparr>, live = L, missed = False, stopped = False\<rparr>"
  have "\<exists>s'. fstep 1 ?s s'" using f_statement [of ?s 1 c "Find ''fruit'' k"] L(2) by auto
  moreover have "\<exists>s'. fstep 2 ?s s'"
    using f_statement [of ?s 2 d "Create ''fruit'' k'"] L(3) by (auto simp: run_simps create_table_run)
  ultimately show ?thesis
    using scene_freach [OF L(1)] L(2,3)
    by (intro exI [of _ ?s] exI [of _ c] exI [of _ d] exI [of _ "''fruit''"] exI [of _ k] exI [of _ k']) simp
qed

theorem table_race_free_witness:
  "\<exists>(s::threads) d k. live s 2 = Some (d, Create ''fruit'' k) \<and> owns_server 2 (shared s) \<and>
     (\<forall>p d' pr. live s 1 = Some (d', pr) \<and> accesses (Create ''fruit'' k) p \<longrightarrow> \<not> accesses pr p)"
proof -
  obtain L c k d k' where L:
    "scene waiting False ((Server_new False)\<lparr>s_mutex := Some 2, mutex_is_locked := True\<rparr>) L"
    "L 1 = Some (c, Find ''fruit'' k)" "L 2 = Some (d, Create ''fruit'' k')"
    by (rule directory_scene)
  let ?s = "\<lparr>shared = (Server_new False)\<lparr>s_mutex := Some 2, mutex_is_locked := True\<rparr>, live = L, missed = False, stopped = False\<rparr>"
  have r: "freach ?s" by (rule scene_freach [OF L(1)])
  have "live ?s 2 = Some (d, Create ''fruit'' k')" using L(3) by simp
  with r have "(\<forall>p. accesses (Create ''fruit'' k') p \<longrightarrow> p \<in> owned 2 (shared ?s) \<and>
        (\<forall>u d pr'. u \<noteq> 2 \<and> live ?s u = Some (d, pr') \<longrightarrow> \<not> accesses pr' p)) \<and>
      (inserts (Create ''fruit'' k') \<longrightarrow> owns_server 2 (shared ?s)) \<and>
      (\<forall>u s' p. u \<noteq> 2 \<and> fstep u ?s s' \<and> p \<in> owned 2 (shared ?s) \<longrightarrow>
        heap (shared s') ! p = heap (shared ?s) ! p \<and> live s' 2 = Some (d, Create ''fruit'' k'))"
    by (intro table_race_free) simp_all
  then show ?thesis using \<open>live ?s 2 = _\<close>
    by (intro exI [of _ ?s] exI [of _ d] exI [of _ k']) (simp add: inserts_def accesses_def)
qed

section \<open>Waiting for a table\<close>

lemma get_locks:
  assumes "\<not> in_transaction c"
  shows "\<exists>k. goes (call_response_function_stmts (Message_new GET [''fruit'', ''kiwis''])) (proposed t, c) (Lock 0 k) (proposed t, c)"
proof -
  have "\<exists>k. call_response_function_stmts (Message_new GET [''fruit'', ''kiwis'']) = Find ''fruit'' k \<and>
      (\<exists>f g. k (Some 0) = Own f g \<and> f c = c \<and> (\<exists>r. g c = Lock 0 r))"
    using assms by (simp add: stmts_unfold handle_get_stmts_def askp_def own_cmd_def run_simps)
  then obtain k f g r where k: "call_response_function_stmts (Message_new GET [''fruit'', ''kiwis'']) = Find ''fruit'' k"
    "k (Some 0) = Own f g" "f c = c" "g c = Lock 0 r" by blast
  have "advance (Find ''fruit'' k) (proposed t, c) = Some (Own f g, (proposed t, c))"
    using k(2) by (simp add: proposed_def)
  moreover have "advance (Own f g) (proposed t, c) = Some (Lock 0 r, (proposed t, c))"
    using k(3,4) by simp
  moreover have "\<not> at_miss (Find ''fruit'' k)" "\<not> at_miss (Own f g)" by (simp_all add: at_miss_def)
  ultimately show ?thesis unfolding k(1) by (blast intro: goes.intros)
qed

lemma blocked_scene:
  obtains L c k where "scene waiting False (proposed 1) L" "L 2 = Some (c, Lock 0 k)" "me c = 2"
proof -
  obtain L where L: "scene waiting False (Server_new False) L"
    "client L 1 False [] False [] [ok_line] (''CREATE fruit'' @ newline # ''BEGIN'' @ newline # ''PUSH 3'' @ newline #
      ''SET fruit kiwis'' @ newline # [])"
    "client L 2 False [] False [] [ok_line] (''GET fruit kiwis'' @ newline # [])"
    by (rule two_clients)
  obtain L1 where L1: "scene waiting False example_server L1" "same_but 1 L L1"
    "client L1 1 False [] False [] ([ok_line] @ [ok_line]) (''BEGIN'' @ newline # ''PUSH 3'' @ newline # ''SET fruit kiwis'' @ newline # [])"
    by (rule client_creates [OF L(1,2)])
  obtain L2 where L2: "scene waiting False example_server L2" "same_but 1 L1 L2"
    "client L2 1 False [] True [] (([ok_line] @ [ok_line]) @ [ok_line]) (''PUSH 3'' @ newline # ''SET fruit kiwis'' @ newline # [])"
    by (rule client_begins [OF L1(1,3)])
  obtain L3 where L3: "scene waiting False example_server L3" "same_but 1 L2 L3"
    "client L3 1 False [''3''] True [] ((([ok_line] @ [ok_line]) @ [ok_line]) @ [ok_line]) (''SET fruit kiwis'' @ newline # [])"
    by (rule client_pushes [OF L2(1,3)])
  obtain L4 where L4: "scene waiting False (proposed 1) L4" "same_but 1 L3 L4"
    by (rule client_sets [OF L3(1,3)])
  have "client L4 2 False [] False [] [ok_line] (''GET fruit kiwis'' @ newline # [])"
    using L(3) L1(2) L2(2) L3(2) L4(2) by simp
  then obtain d L5 where L5: "scene waiting False (proposed 1) L5"
    "L5 2 = Some (d, call_response_function_stmts (Message_new GET [''fruit'', ''kiwis'']))" "between 2 False [] False [] [ok_line] [] d"
    by (rule client_request [OF L4(1) _ _ _ decode_get_line]) (simp_all add: Message_new_def)
  have "\<not> in_transaction d" "me d = 2" using L5(3) by (simp_all add: between_def)
  then obtain k where "goes (call_response_function_stmts (Message_new GET [''fruit'', ''kiwis''])) (proposed 1, d) (Lock 0 k) (proposed 1, d)"
    using get_locks by blast
  from scene_goes [OF this, of waiting False L5 2] L5(1,2)
  have "scene waiting False (proposed 1) (L5(2 \<mapsto> (d, Lock 0 k)))" by simp
  then show thesis using \<open>me d = 2\<close> that by simp
qed

lemma proposed_table [simp]:
  "t_mutex (heap (proposed t) ! 0) = Some t" "heap (proposed t) \<noteq> []" "length (heap (proposed t)) = Suc 0"
  by (simp_all add: proposed_def set_commutes_mutex at_table_def)

theorem statement_progress_witness:
  "\<exists>(s::threads) c k u. live s 2 = Some (c, Lock 0 k) \<and> advance (Lock 0 k) (shared s, c) = None \<and>
    u \<noteq> 2 \<and> 0 \<in> owned u (shared s) \<and> live s u \<noteq> None \<and> owned 2 (shared s) = {}"
proof -
  obtain L c k where L: "scene waiting False (proposed 1) L" "L 2 = Some (c, Lock 0 k)" "me c = 2"
    by (rule blocked_scene)
  let ?s = "\<lparr>shared = proposed 1, live = L, missed = False, stopped = False\<rparr>"
  have a: "advance (Lock 0 k) (proposed 1, c) = None"
    using L(3) by (simp add: lock_cases)
  have "\<not> owns_server 2 (shared ?s) \<and>
    (\<exists>u d pr'. u \<noteq> 2 \<and> live ?s u = Some (d, pr') \<and>
       ((\<exists>k'. Lock 0 k = Enter k') \<and> owns_server u (shared ?s) \<and> can_go ?s u \<or>
        (\<exists>p k'. Lock 0 k = Lock p k' \<and> p \<in> owned u (shared ?s)) \<and> owned 2 (shared ?s) = {} \<and>
        (can_go ?s u \<or>
          (\<exists>v k'. pr' = Enter k' \<and> v \<notin> {2, u} \<and> owns_server v (shared ?s) \<and> can_go ?s v))))"
    by (rule statement_progress [OF scene_freach [OF L(1)]]) (use L(2) a in simp_all)
  then obtain u where "u \<noteq> 2" "0 \<in> owned u (shared ?s)" "live ?s u \<noteq> None" "owned 2 (shared ?s) = {}" by auto
  with L(2) a show ?thesis
    by (intro exI [of _ ?s] exI [of _ c] exI [of _ k] exI [of _ u]) simp
qed

section \<open>A lost update\<close>

text \<open>
  Thread 1 asks for a missing key in a transaction: it has unlocked the table, and is about to roll
  the table back although it does not own it any more.
\<close>

lemma no_kiwis: "\<not> has_key ''kiwis'' (Table_new ''fruit'')"
  by code_simp

lemma locked_unlocked:
  "at_table 0 (t_mutex_update (\<lambda>_. None)) (at_table 0 (t_mutex_update (\<lambda>_. x)) example_server) = example_server"
  by (subst at_table_twice) (simp_all add: at_table_same Table_new_def mutex_init_def)

lemma get_misses:
  assumes "in_transaction c" "locked_tables c = []"
  shows "\<exists>k. advances 10 (call_response_function_stmts (Message_new GET [''fruit'', ''kiwis''])) (example_server, c) =
     Some (Write_table 0 rollback_changes k, (example_server, c\<lparr>locked_tables := [0]\<rparr>))"
  using assms
  by (simp add: stmts_unfold handle_get_stmts_def eval_nat_numeral askp_def changep_def own_cmd_def run_simps
    acquire_in_transaction_stmts_def rethrow_operation_stmts_def get_table_value_stmts_def trylock_cases unlock_cases read_table_run
    manage_exception_stmts_def fail_transaction_stmts_def no_kiwis locked_unlocked)

lemma early_scene:
  obtains m L c k where "scene waiting m example_server L" "L 1 = Some (c, Write_table 0 rollback_changes k)"
    "client L 2 False [''3''] True [] [ok_line, ok_line, ok_line] (''SET fruit kiwis'' @ newline # ''COMMIT'' @ newline # [])"
proof -
  obtain L where L: "scene waiting False (Server_new False) L"
    "client L 1 False [] False [] [ok_line] (''CREATE fruit'' @ newline # ''BEGIN'' @ newline # ''GET fruit kiwis'' @ newline # [])"
    "client L 2 False [] False [] [ok_line] (''BEGIN'' @ newline # ''PUSH 3'' @ newline # ''SET fruit kiwis'' @ newline #
      ''COMMIT'' @ newline # [])"
    by (rule two_clients)
  obtain L1 where L1: "scene waiting False example_server L1" "same_but 1 L L1"
    "client L1 1 False [] False [] ([ok_line] @ [ok_line]) (''BEGIN'' @ newline # ''GET fruit kiwis'' @ newline # [])"
    by (rule client_creates [OF L(1,2)])
  obtain L2 where L2: "scene waiting False example_server L2" "same_but 1 L1 L2"
    "client L2 1 False [] True [] (([ok_line] @ [ok_line]) @ [ok_line]) (''GET fruit kiwis'' @ newline # [])"
    by (rule client_begins [OF L1(1,3)])
  have "client L2 2 False [] False [] [ok_line] (''BEGIN'' @ newline # ''PUSH 3'' @ newline # ''SET fruit kiwis'' @ newline #
      ''COMMIT'' @ newline # [])" using L(3) L1(2) L2(2) by simp
  then obtain L3 where L3: "scene waiting False example_server L3" "same_but 2 L2 L3"
    "client L3 2 False [] True [] ([ok_line] @ [ok_line]) (''PUSH 3'' @ newline # ''SET fruit kiwis'' @ newline # ''COMMIT'' @ newline # [])"
    by (rule client_begins [OF L2(1)])
  obtain L4 where L4: "scene waiting False example_server L4" "same_but 2 L3 L4"
    "client L4 2 False [''3''] True [] (([ok_line] @ [ok_line]) @ [ok_line]) (''SET fruit kiwis'' @ newline # ''COMMIT'' @ newline # [])"
    by (rule client_pushes [OF L3(1,3)])
  have "client L4 1 False [] True [] (([ok_line] @ [ok_line]) @ [ok_line]) (''GET fruit kiwis'' @ newline # [])"
    using L2(3) L3(2) L4(2) by simp
  then obtain d L5 where L5: "scene waiting False example_server L5" "same_but 1 L4 L5"
    "L5 1 = Some (d, call_response_function_stmts (Message_new GET [''fruit'', ''kiwis'']))"
    "between 1 False [] True [] (([ok_line] @ [ok_line]) @ [ok_line]) [] d"
    by (rule client_request [OF L4(1) _ _ _ decode_get_line]) (simp_all add: Message_new_def)
  obtain k where k: "advances 10 (call_response_function_stmts (Message_new GET [''fruit'', ''kiwis''])) (example_server, d) =
     Some (Write_table 0 rollback_changes k, (example_server, d\<lparr>locked_tables := [0]\<rparr>))"
    using get_misses [of d] L5(4) by (auto simp: between_def)
  obtain m where "scene waiting m example_server (L5(1 \<mapsto> (d\<lparr>locked_tables := [0]\<rparr>, Write_table 0 rollback_changes k)))"
    by (rule scene_advances [OF L5(1,3) k])
  moreover have "client L5 2 False [''3''] True [] [ok_line, ok_line, ok_line] (''SET fruit kiwis'' @ newline # ''COMMIT'' @ newline # [])"
    using L4(3) L5(2) by simp
  ultimately show thesis
    using that [of m "L5(1 \<mapsto> (d\<lparr>locked_tables := [0]\<rparr>, Write_table 0 rollback_changes k))"] by (simp add: client_def)
qed

text \<open>The \<open>COMMIT\<close> of thread 2, after thread 1 has wiped its proposal.\<close>

lemma wiped:
  "at_table 0 (\<lambda>tb. (commit_changes tb)\<lparr>t_mutex := None\<rparr>) (at_table 0 rollback_changes (proposed t)) = example_server"
  unfolding proposed_def
  by (simp add: at_table_twice) (simp add: at_table_same Table_new_def mutex_init_def table_set_def rollback_changes_def commit_changes_def)

lemma client_commits_wiped:
  assumes "scene s0 m (at_table 0 rollback_changes (proposed t)) L" "client L t False st True [0] out (''COMMIT'' @ newline # rest)"
  obtains L' where "scene s0 m example_server L'" "same_but t L L'" "client L' t False st False [] (out @ [ok_line]) rest"
proof (rule client_answered [OF assms _ _ decode_commit_line])
  let ?srv = "at_table 0 rollback_changes (proposed t)"
  fix d assume d: "between t False st True [0] out rest d"
  let ?d = "answer ok_line (d\<lparr>locked_tables := [], in_transaction := False\<rparr>)"
  have "owns_all (locked_tables d) (?srv, d)"
    using d by (simp add: between_def owns_all_def rollback_changes_def)
  from handle_commit_run [OF this] d wiped
  have "handle_commit (?srv, d) = (Ret (), (example_server, ?d))"
    by (simp add: between_def release_all_def)
  then have "call_response_function (Message_new COMMIT []) (?srv, d) = (Ret (), (example_server, ?d))"
    by (intro call_response_done) (simp_all add: dispatch_def get_message_type_def Message_new_def)
  then show "\<exists>d'. call_response_function (Message_new COMMIT []) (?srv, d) = (Ret (), (example_server, d')) \<and>
      between t False st False [] (out @ [ok_line]) rest d'"
    using d by (simp add: between_def answer_def)
qed (simp_all add: Message_new_def that)

text \<open>
  C12. A committed update is lost. An execution exists in which a thread has asked for a
  missing key in its transaction; from there on another client sends \<open>SET\<close> and
  \<open>COMMIT\<close> in its own transaction, is answered \<open>OK\<close> to both, and the server is as it was
  before: the value it committed is not there. The cause is the early \<open>Unlock\<close> of \<open>GET\<close>:
  the first thread still rolls the table back, and so wipes the proposal of the second.
\<close>

theorem lost_update:
  "\<exists>s s'. freach s \<and> fsteps s s' \<and> \<not> stopped s' \<and>
     client (live s) 2 False [''3''] True [] [ok_line, ok_line, ok_line] (''SET fruit kiwis'' @ newline # ''COMMIT'' @ newline # []) \<and>
     client (live s') 2 False [] False [] [ok_line, ok_line, ok_line, ok_line, ok_line] [] \<and>
     shared s' = shared s \<and> find_table ''fruit'' (shared s') = Some 0 \<and> \<not> has_key ''kiwis'' (heap (shared s') ! 0)"
proof -
  obtain m L c k where L: "scene waiting m example_server L" "L 1 = Some (c, Write_table 0 rollback_changes k)"
    "client L 2 False [''3''] True [] [ok_line, ok_line, ok_line] (''SET fruit kiwis'' @ newline # ''COMMIT'' @ newline # [])"
    by (rule early_scene)
  let ?s = "\<lparr>shared = example_server, live = L, missed = m, stopped = False\<rparr>"
  have s: "scene ?s m example_server L" by (simp add: scene_def fsteps_none)
  obtain L1 where L1: "scene ?s m (proposed 2) L1" "same_but 2 L L1"
    "client L1 2 False [] True [0] ([ok_line, ok_line, ok_line] @ [ok_line]) (''COMMIT'' @ newline # [])"
    by (rule client_sets [OF s L(3)])
  have w: "advance (Write_table 0 rollback_changes k) (proposed 2, c) = Some (k, (at_table 0 rollback_changes (proposed 2), c))"
    by (simp add: modify_table_run)
  have "L1 1 = Some (c, Write_table 0 rollback_changes k)" using L(2) L1(2) by (simp add: same_but_def)
  from scene_statement [OF L1(1) this w]
  have "scene ?s m (at_table 0 rollback_changes (proposed 2)) (L1(1 \<mapsto> (c, k)))" by (simp add: at_miss_def)
  moreover have "client (L1(1 \<mapsto> (c, k))) 2 False [] True [0] ([ok_line, ok_line, ok_line] @ [ok_line]) (''COMMIT'' @ newline # [])"
    using L1(3) by (simp add: client_def)
  ultimately obtain L2 where L2: "scene ?s m example_server L2"
    "client L2 2 False [] False [] (([ok_line, ok_line, ok_line] @ [ok_line]) @ [ok_line]) []"
    by (rule client_commits_wiped)
  let ?s' = "\<lparr>shared = example_server, live = L2, missed = m, stopped = False\<rparr>"
  have "fsteps ?s ?s'" using L2(1) by (simp add: scene_def)
  with scene_freach [OF L(1)] L(3) L2(2) show ?thesis
    by (intro exI [of _ ?s] exI [of _ ?s']) (simp add: no_kiwis)
qed

end
