(* ===== verification/Clean_Tables.thy ===== *)
theory Clean_Tables
  imports Races
begin

text \<open>
  The data of the tables, between any two statements of any threads. The pairs of a table change in three
  ways only (\<open>table_set\<close>, \<open>commit_changes\<close>, \<open>rollback_changes\<close>), and a
  thread gives a table back only when nothing is proposed in it that is not committed. \<open>neat\<close> is a
  predicate transformer that follows which tables a program may have left with proposals.
\<close>

section \<open>The rule\<close>

definition settled :: "Table \<Rightarrow> bool" where
  "settled tb \<longleftrightarrow> Table.proposed tb \<subseteq>\<^sub>m committed tb"

type_synonym 'a draft_post = "'a res \<Rightarrow> table_ptr set \<Rightarrow> ClientConnection \<Rightarrow> bool"

text \<open>
  \<open>neat pr Q D c\<close>: a thread with connection \<open>c\<close> that may have proposals in the tables
  \<open>D\<close> unlocks none of these before it has committed them or rolled them back, and ends with \<open>Q\<close>.
\<close>

primrec neat :: "'a prog \<Rightarrow> 'a draft_post \<Rightarrow> table_ptr set \<Rightarrow> ClientConnection \<Rightarrow> bool" where
  "neat (Done r) Q D c = Q r D c"
| "neat (Own f k) Q D c = neat (k c) Q D (f c)"
| "neat (Lock p k) Q D c = neat k Q D c"
| "neat (Unlock p k) Q D c = (p \<notin> D \<and> neat k Q D c)"
| "neat (Trylock p k) Q D c = (\<forall>b. neat (k b) Q D c)"
| "neat (Read_table p k) Q D c = (\<forall>t. neat (k t) Q D c)"
| "neat (Write_table p f k) Q D c =
     ((f = commit_changes \<or> f = rollback_changes) \<and> neat k Q (D - {p}) c \<or>
      (\<exists>key v. f = table_set key v) \<and> neat k Q (insert p D) c)"
| "neat (Find n k) Q D c = (\<forall>r. neat (k r) Q D c)"
| "neat (Create n k) Q D c = neat k Q D c"
| "neat (Enter k) Q D c = neat k Q D c"
| "neat (Leave k) Q D c = neat k Q D c"
| "neat (Miss k) Q D c = True"

fun then_neat :: "('a \<Rightarrow> 'b prog) \<Rightarrow> 'b draft_post \<Rightarrow> 'a draft_post" where
  "then_neat f Q (Ret x) D c = neat (f x) Q D c"
| "then_neat f Q (Throw e) D c = Q (Throw e) D c"
| "then_neat f Q (Fault u) D c = Q (Fault u) D c"
| "then_neat f Q Block D c = Q Block D c"

fun else_neat :: "(exn \<Rightarrow> 'a prog option) \<Rightarrow> 'a draft_post \<Rightarrow> 'a draft_post" where
  "else_neat h Q (Throw e) D c = (case h e of None \<Rightarrow> Q (Throw e) D c | Some k \<Rightarrow> neat k Q D c)"
| "else_neat h Q (Ret x) D c = Q (Ret x) D c"
| "else_neat h Q (Fault u) D c = Q (Fault u) D c"
| "else_neat h Q Block D c = Q Block D c"

lemma neat_bindp [simp]: "neat (bindp m f) Q D c = neat m (then_neat f Q) D c"
  by (induction m arbitrary: D c) (auto simp: bindp.simps split: outcome.splits)

lemma neat_seqp [simp]: "neat (seqp m k) Q D c = neat m (then_neat (\<lambda>_. k) Q) D c"
  by (simp add: seqp_def)

lemma neat_catchp [simp]: "neat (catchp m h) Q D c = neat m (else_neat h Q) D c"
  by (induction m arbitrary: D c) (auto simp: catchp.simps split: outcome.splits option.splits)

lemma neat_mono: "neat m Q D c \<Longrightarrow> (\<And>r D c. Q r D c \<Longrightarrow> Q' r D c) \<Longrightarrow> neat m Q' D c"
  by (induction m arbitrary: D c) auto

section \<open>The member functions keep to the rule\<close>

text \<open>Proposals are only in tables that an open transaction has listed.\<close>

definition drafts :: "ClientConnection \<Rightarrow> table_ptr set \<Rightarrow> bool" where
  "drafts c D \<longleftrightarrow> D \<subseteq> set (locked_tables c) \<and> (\<not> in_transaction c \<longrightarrow> D = {})"

fun listed :: "'a draft_post" where
  "listed (Ret x) D c = drafts c D"
| "listed (Throw e) D c = drafts c D"
| "listed (Fault u) D c = True"
| "listed Block D c = True"

lemma listedI: "drafts c D \<Longrightarrow> listed r D c"
  by (cases r) simp_all

lemma neat_put_access: "neat k Q (insert p D) c \<Longrightarrow> neat (Write_table p (table_set key v) k) Q D c"
  by auto

lemma neat_settle_access:
  "f = commit_changes \<or> f = rollback_changes \<Longrightarrow> neat k Q (D - {p}) c \<Longrightarrow> neat (Write_table p f k) Q D c"
  by simp

declare neat.simps(7) [simp del]

text \<open>Programs that keep this up from any state in which it holds, and how they are composed.\<close>

definition careful :: "'a prog \<Rightarrow> bool" where
  "careful m \<longleftrightarrow> (\<forall>D c. drafts c D \<longrightarrow> neat m listed D c)"

lemma carefulI: "(\<And>D c. drafts c D \<Longrightarrow> neat m listed D c) \<Longrightarrow> careful m"
  by (simp add: careful_def)

lemma carefulD: "careful m \<Longrightarrow> drafts c D \<Longrightarrow> neat m listed D c"
  by (simp add: careful_def)

lemma careful_done [intro!]: "careful (Done r)"
  by (auto intro!: carefulI listedI)

lemma careful_accesses [intro!]:
  "careful k \<Longrightarrow> careful (Lock p k)" "(\<And>b. careful (kb b)) \<Longrightarrow> careful (Trylock p kb)"
  "(\<And>r. careful (kf r)) \<Longrightarrow> careful (Find n kf)" "careful k \<Longrightarrow> careful (Create n k)"
  "(\<And>t. careful (kt t)) \<Longrightarrow> careful (Read_table p kt)"
  "careful k \<Longrightarrow> careful (Enter k)" "careful k \<Longrightarrow> careful (Leave k)" "careful (Miss k)"
  by (auto simp: careful_def)

lemma careful_bindp [intro!]: "careful m \<Longrightarrow> (\<And>x. careful (f x)) \<Longrightarrow> careful (bindp m f)"
proof (rule carefulI)
  fix D c assume m: "careful m" "\<And>x. careful (f x)" and d: "drafts c D"
  have "then_neat f listed r D c" if "listed r D c" for r D c
    using that m(2) by (cases r) (auto simp: careful_def)
  with neat_mono [OF carefulD [OF m(1) d]] show "neat (bindp m f) listed D c" by simp
qed

lemma careful_seqp [intro!]: "careful m \<Longrightarrow> careful k \<Longrightarrow> careful (seqp m k)"
  by (auto simp: seqp_def)

lemma careful_catchp [intro!]: "careful m \<Longrightarrow> (\<And>e k. h e = Some k \<Longrightarrow> careful k) \<Longrightarrow> careful (catchp m h)"
proof (rule carefulI)
  fix D c assume m: "careful m" "\<And>e k. h e = Some k \<Longrightarrow> careful k" and d: "drafts c D"
  have "else_neat h listed r D c" if "listed r D c" for r D c
    using that m(2) by (cases r) (auto simp: careful_def split: option.splits)
  with neat_mono [OF carefulD [OF m(1) d]] show "neat (catchp m h) listed D c" by simp
qed

lemma drafts_own [simp]:
  "drafts (c\<lparr>stack := x\<rparr>) D = drafts c D" "drafts (c\<lparr>written := y\<rparr>) D = drafts c D"
  "drafts (c\<lparr>loop_in_progress := b\<rparr>) D = drafts c D" "drafts (c\<lparr>first_valid_message := b\<rparr>) D = drafts c D"
  "drafts (c\<lparr>client_msg := m\<rparr>) D = drafts c D" "drafts (c\<lparr>fd_closed := b\<rparr>) D = drafts c D"
  "drafts (c\<lparr>m_fdbuf := f, incoming := i\<rparr>) D = drafts c D" "drafts c {}"
  by (simp_all add: drafts_def)

lemma neat_own_cmd [simp]: "neat (own_cmd m) Q D c = Q (fst (m c)) D (snd (m c))"
  by (simp add: own_cmd_def)

lemma neat_own [simp]:
  "neat (askp f) Q D c = Q (Ret (f c)) D c" "neat (changep g) R D c = R (Ret ()) D (g c)"
  "neat stack_get_top_stmts QS D c = QS (get_top (stack c)) D c"
  "neat (stack_push_stmts v) R D c = R (Ret ()) D (c\<lparr>stack := v # stack c\<rparr>)"
  by (simp_all add: askp_def changep_def stack_get_top_stmts_def stack_push_stmts_def run_simps push_def)

lemma neat_stack_pop [simp]:
  "neat stack_pop_stmts Q D c =
     (case stack c of
        [] \<Rightarrow> Q (Throw (OperationException ''Tried to call POP on an empty operations stack.'')) D c
      | v # vs \<Rightarrow> Q (Ret ()) D (c\<lparr>stack := vs\<rparr>))"
  by (simp add: stack_pop_stmts_def run_simps pop_def split: list.splits)

lemma careful_own [intro!]:
  "careful (askp f)" "careful stack_get_top_stmts" "careful (stack_push_stmts v)" "careful stack_pop_stmts"
  "(\<And>c D. drafts c D \<Longrightarrow> drafts (g c) D) \<Longrightarrow> careful (changep g)"
  by (auto simp: careful_def listedI split: list.splits)

lemma careful_send [intro!]: "careful (send_stmts msg)" "careful write_ok_stmts"
  unfolding write_ok_stmts_def send_stmts_def by auto

lemma neat_release:
  assumes "f = commit_changes \<or> f = rollback_changes" "D \<subseteq> set ps" "Q (Ret ()) {} c"
  shows "neat (for_eachp (\<lambda>p. Write_table p f (Unlock p (retp ()))) ps) Q D c"
  using assms(2)
proof (induction ps arbitrary: D)
  case (Cons p ps)
  have "neat (for_eachp (\<lambda>p. Write_table p f (Unlock p (retp ()))) ps) Q (D - {p}) c"
    by (rule Cons.IH) (use Cons.prems in auto)
  then show ?case using assms(1) by (simp add: neat_settle_access)
qed (use assms(3) in simp)

lemma careful_release:
  "f = commit_changes \<or> f = rollback_changes \<Longrightarrow> careful (bindp (askp locked_tables)
     (for_eachp (\<lambda>p. Write_table p f (Unlock p (retp ())))))"
  by (rule carefulI) (auto simp: drafts_def intro!: neat_release)

text \<open>After the release nothing is left, so the list may be cleared and the transaction closed.\<close>

lemma careful_close:
  assumes "f = commit_changes \<or> f = rollback_changes" "careful k"
  shows "careful (seqp (bindp (askp locked_tables) (for_eachp (\<lambda>p. Write_table p f (Unlock p (retp ())))))
    (seqp (changep (\<lambda>c. c\<lparr>locked_tables := []\<rparr>)) (seqp (changep (\<lambda>c. c\<lparr>in_transaction := False\<rparr>)) k)))"
  using assms by (intro carefulI) (auto simp: drafts_def intro!: neat_release carefulD)

lemma careful_fail [intro!]: "careful fail_transaction_stmts"
  unfolding fail_transaction_stmts_def by (rule carefulI) (auto simp: drafts_def intro!: neat_release)

lemma careful_exception [intro!]: "careful (manage_exception_stmts ex b)"
  unfolding manage_exception_stmts_def Let_def by (auto split: if_splits)

text \<open>The handlers that do not write to a table.\<close>

lemma careful_rethrow [intro!]: "careful m \<Longrightarrow> careful (rethrow_operation_stmts m)"
  unfolding rethrow_operation_stmts_def by (auto split: if_splits)

lemma careful_arith [intro!]: "careful (arith_stmts text f)"
  unfolding arith_stmts_def pop_operands_stmts_def pop_operand_stmts_def by (auto split: if_splits prod.splits)

lemma careful_simple [intro!]:
  "careful (handle_create_stmts msg)" "careful handle_begin_stmts" "careful handle_pop_stmts"
  "careful handle_top_stmts" "careful (handle_push_stmts msg)" "careful handle_bye_stmts" "careful handle_commit_stmts"
proof -
  have "drafts c D \<Longrightarrow> \<not> in_transaction c \<Longrightarrow> drafts (c\<lparr>in_transaction := True\<rparr>) D" for c D by (simp add: drafts_def)
  then show "careful handle_begin_stmts"
    by (intro carefulI) (auto simp: handle_begin_stmts_def intro!: carefulD careful_send)
qed (auto simp: handle_create_stmts_def handle_pop_stmts_def handle_top_stmts_def handle_push_stmts_def
    handle_bye_stmts_def handle_commit_stmts_def intro!: careful_close)

text \<open>\<open>SET\<close> and \<open>GET\<close>.\<close>

lemma neat_acquire:
  assumes "drafts c D" "in_transaction c"
    and "\<And>e. Q (Throw e) D c"
    and "\<And>c'. drafts c' D \<Longrightarrow> stack c' = stack c \<Longrightarrow> in_transaction c' \<Longrightarrow> p \<in> set (locked_tables c') \<Longrightarrow> Q (Ret ()) D c'"
  shows "neat (acquire_in_transaction_stmts p) Q D c"
  using assms by (auto simp: acquire_in_transaction_stmts_def drafts_def intro!: assms(4))

lemma drafts_more: "drafts c D \<Longrightarrow> drafts (c\<lparr>locked_tables := locked_tables c @ [p]\<rparr>) D"
  by (auto simp: drafts_def)

lemma careful_acquire [intro!]: "careful (acquire_in_transaction_stmts p)"
  unfolding acquire_in_transaction_stmts_def by (auto simp: drafts_more)

lemma neat_put:
  assumes "stack c = v # vs" "drafts c D" "in_transaction c" "p \<in> set (locked_tables c)"
  shows "neat (set_table_value_stmts msg p) listed D c"
  unfolding set_table_value_stmts_def using assms
  by (cases "get_arg msg 1") (auto simp: get_top_def drafts_def intro!: neat_put_access)

lemma neat_put_commit:
  assumes "stack c = v # vs" "\<not> in_transaction c"
  shows "neat (seqp (set_table_value_stmts msg p) (Write_table p commit_changes (Unlock p (retp ())))) listed {} c"
  unfolding set_table_value_stmts_def using assms
  by (cases "get_arg msg 1") (auto simp: get_top_def intro!: neat_put_access neat_settle_access)

lemma careful_set [intro!]: "careful (handle_set_stmts msg)"
proof (rule carefulI)
  fix D c assume d: "drafts c D"
  show "neat (handle_set_stmts msg) listed D c"
  proof (cases "get_size (stack c) < 1")
    case True
    then show ?thesis using d by (simp add: handle_set_stmts_def)
  next
    case False
    then obtain v vs where s: "stack c = v # vs" using stack_size_pos by blast
    let ?now = "\<lambda>p. Lock p (seqp (set_table_value_stmts msg p) (Write_table p commit_changes (Unlock p (retp ()))))"
    let ?tx = "\<lambda>p. seqp (acquire_in_transaction_stmts p) (set_table_value_stmts msg p)"
    have body: "neat (if \<not> in_transaction c then ?now p else ?tx p) listed D c" for p
      using neat_put_commit [OF s] d s by (auto simp: drafts_def intro!: neat_acquire neat_put)
    have "neat (seqp (if \<not> in_transaction c then ?now p else ?tx p) write_ok_stmts) listed D c" for p
    proof -
      have "then_neat (\<lambda>_. write_ok_stmts) listed r D c" if "listed r D c" for r D c
        using that carefulD [OF careful_send(2)] by (cases r) auto
      from neat_mono [OF body this] show ?thesis by (simp only: neat_seqp)
    qed
    moreover have "handle_set_stmts msg = bindp (askp (\<lambda>c. get_size (stack c))) (\<lambda>size.
       if size < 1 then throwp (OperationException ''No value on stack.'')
       else bindp (Done (get_arg msg 0)) (\<lambda>n. Find n (\<lambda>found. case found of
           None \<Rightarrow> throwp (OperationException ''Could not find table.'')
         | Some p \<Rightarrow> bindp (askp in_transaction) (\<lambda>b. seqp (if \<not> b then ?now p else ?tx p) write_ok_stmts))))"
      by (simp add: handle_set_stmts_def)
    ultimately show ?thesis using False d
      by (cases "get_arg msg 0") (auto simp del: neat_seqp split: option.splits)
  qed
qed

lemma careful_get_value [intro!]: "careful (get_table_value_stmts msg p)"
  unfolding get_table_value_stmts_def by auto

lemma neat_get_value:
  assumes "\<And>v. Q (Ret ()) D (c\<lparr>stack := v # stack c\<rparr>)" "\<And>e. Q (Throw e) D c" "\<And>u. Q (Fault u) D c" "Q Block D c"
  shows "neat (get_table_value_stmts msg p) Q D c"
proof -
  have "then_neat stack_push_stmts Q r D c" for r using assms by (cases r) simp_all
  then show ?thesis using assms by (cases "get_arg msg 1") (simp_all add: get_table_value_stmts_def)
qed

lemma careful_get [intro!]: "careful (handle_get_stmts msg)"
proof (rule carefulI)
  fix D c assume d: "drafts c D"
  let ?now = "\<lambda>p. Lock p (seqp (catchp (get_table_value_stmts msg p)
      (\<lambda>ex. if is_OperationException ex then Some (Unlock p (throwp (OperationException (what ex)))) else None)) (Unlock p (retp ())))"
  let ?tx = "\<lambda>p. seqp (acquire_in_transaction_stmts p) (rethrow_operation_stmts (get_table_value_stmts msg p))"
  have body: "neat (if \<not> in_transaction c then ?now p else ?tx p) listed D c" for p
  proof (cases "in_transaction c")
    case True
    have "careful (?tx p)" by auto
    from carefulD [OF this d] True show ?thesis by (simp del: neat_seqp)
  next
    case False
    then have "D = {}" using d by (simp add: drafts_def)
    with False show ?thesis by (auto intro!: neat_get_value)
  qed
  have "neat (seqp (if \<not> in_transaction c then ?now p else ?tx p) write_ok_stmts) listed D c" for p
  proof -
    have "then_neat (\<lambda>_. write_ok_stmts) listed r D c" if "listed r D c" for r D c
      using that carefulD [OF careful_send(2)] by (cases r) auto
    from neat_mono [OF body this] show ?thesis by (simp only: neat_seqp)
  qed
  moreover have "handle_get_stmts msg = bindp (Done (get_arg msg 0)) (\<lambda>n. Find n (\<lambda>found. case found of
         None \<Rightarrow> throwp (OperationException ''Could not find table.'')
       | Some p \<Rightarrow> bindp (askp in_transaction) (\<lambda>b. seqp (if \<not> b then ?now p else ?tx p) write_ok_stmts)))"
    by (simp add: handle_get_stmts_def)
  ultimately show "neat (handle_get_stmts msg) listed D c" using d
    by (cases "get_arg msg 0") (auto simp del: neat_seqp split: option.splits)
qed

section \<open>Lines, iterations, and the end of a thread\<close>

lemma careful_request [intro!]: "careful (call_response_function_stmts msg)"
  unfolding call_response_function_stmts_def dispatch_stmts_def by (auto split: MessageType.splits if_splits)

lemma careful_serve [intro!]: "careful serve_request_stmts"
  unfolding serve_request_stmts_def handle_login_stmts_def by (auto split: if_splits)

lemma careful_iteration: "careful chat_iteration_stmts"
proof -
  have "careful (decode_request_stmts buf)" for buf
    by (auto simp: decode_request_stmts_def careful_def listedI split: prod.splits)
  then have "careful (handle_line_stmts buf)" for buf
    unfolding handle_line_stmts_def by (auto split: if_splits)
  moreover have "careful read_request_stmts"
    by (auto simp: read_request_stmts_def careful_def listedI split: prod.splits)
  ultimately show ?thesis unfolding chat_iteration_stmts_def by (auto split: if_splits prod.splits)
qed

lemma careful_finish: "careful finish_stmts"
  unfolding finish_stmts_def by (auto split: if_splits)

section \<open>The invariant\<close>

definition tables_clean :: "Server \<Rightarrow> bool" where
  "tables_clean srv \<longleftrightarrow>
     (\<forall>p<length (heap srv). table_wf (heap srv ! p) \<and> (t_mutex (heap srv ! p) = None \<longrightarrow> settled (heap srv ! p)))"

definition neat_threads :: "threads \<Rightarrow> bool" where
  "neat_threads s \<longleftrightarrow>
     tables_clean (shared s) \<and>
     (\<forall>t c pr. live s t = Some (c, pr) \<longrightarrow>
        (\<exists>D. neat pr listed D c \<and> (\<forall>p\<in>owned t (shared s) - D. settled (heap (shared s) ! p))))"

lemma settled_simps [simp]:
  "settled (tb\<lparr>t_mutex := m\<rparr>) = settled tb" "settled (t_mutex_update f tb) = settled tb"
  "settled (Table_new n)" "settled (rollback_changes tb)"
  "table_wf (tb\<lparr>t_mutex := m\<rparr>) = table_wf tb" "table_wf (t_mutex_update f tb) = table_wf tb"
  by (simp_all add: settled_def committed_def Table.proposed_def table_wf_def Table_new_def rollback_changes_def)

lemma settled_commit: "table_wf tb \<Longrightarrow> settled (commit_changes tb)"
  unfolding settled_def by (rule ts.commit_settles)

text \<open>The three ways in which the pairs of a table change, by the thread that owns it.\<close>

definition table_moves :: "bool \<Rightarrow> Table \<Rightarrow> Table \<Rightarrow> bool" where
  "table_moves mine tb tb' \<longleftrightarrow> (\<exists>m. tb' = tb\<lparr>t_mutex := m\<rparr>) \<or>
     mine \<and> ((\<exists>k v. tb' = table_set k v tb) \<or> tb' = commit_changes tb \<or> tb' = rollback_changes tb)"

text \<open>What one statement does to a table, and what it leaves to be settled.\<close>

definition neat_step :: "thread_id \<Rightarrow> Server \<Rightarrow> unit prog \<Rightarrow> Server \<Rightarrow> ClientConnection \<Rightarrow> bool" where
  "neat_step t srv pr' srv' c' \<longleftrightarrow>
     (\<exists>D. neat pr' listed D c' \<and> (\<forall>p\<in>owned t srv' - D. settled (heap srv' ! p))) \<and> tables_clean srv' \<and>
     (\<forall>p<length (heap srv). heap srv' ! p = heap srv ! p \<or> table_moves (p \<in> owned t srv) (heap srv ! p) (heap srv' ! p)) \<and>
     length (heap srv) \<le> length (heap srv')"

lemma neat_stepI:
  assumes "neat pr' listed D c'" "\<And>p. p \<in> owned t srv' \<Longrightarrow> p \<notin> D \<Longrightarrow> settled (heap srv' ! p)" "tables_clean srv'"
    and "\<And>p. p < length (heap srv) \<Longrightarrow> heap srv' ! p = heap srv ! p \<or> table_moves (p \<in> owned t srv) (heap srv ! p) (heap srv' ! p)"
    and "length (heap srv) \<le> length (heap srv')"
  shows "neat_step t srv pr' srv' c'"
  using assms unfolding neat_step_def by blast

text \<open>A statement that works on one table.\<close>

lemma neat_step_at:
  assumes c: "tables_clean srv" and p: "p < length (heap srv)" and s: "\<forall>q\<in>owned t srv - D. settled (heap srv ! q)"
    and f: "table_moves (p \<in> owned t srv) (heap srv ! p) (f (heap srv ! p))" "t_mutex (f (heap srv ! p)) = None \<Longrightarrow> settled (f (heap srv ! p))"
    and n: "neat pr' listed D' c'" "D - {p} \<subseteq> D'" "t_mutex (f (heap srv ! p)) = Some t \<Longrightarrow> p \<notin> D' \<Longrightarrow> settled (f (heap srv ! p))"
  shows "neat_step t srv pr' (at_table p f srv) c'"
proof (rule neat_stepI [OF n(1)])
  have "table_wf (f (heap srv ! p))"
    using c p f(1) by (auto simp: tables_clean_def table_moves_def ts.wf_put ts.wf_commit ts.wf_rollback)
  then show "tables_clean (at_table p f srv)" using c p f(2) by (simp add: tables_clean_def)
  show "settled (heap (at_table p f srv) ! q)" if "q \<in> owned t (at_table p f srv)" "q \<notin> D'" for q
    using that s n(2,3) p by (auto simp: in_owned split: if_splits)
qed (use p f(1) in auto)

lemma neat_step_same:
  assumes "tables_clean srv" "\<forall>q\<in>owned t srv - D. settled (heap srv ! q)" "heap srv' = heap srv" "neat pr' listed D c'"
  shows "neat_step t srv pr' srv' c'"
  using assms by (intro neat_stepI [where D = D]) (auto simp: tables_clean_def in_owned)

lemma neat_step_stay:
  "tables_clean srv \<Longrightarrow> \<forall>q\<in>owned t srv - D. settled (heap srv ! q) \<Longrightarrow> neat pr' listed D c' \<Longrightarrow> neat_step t srv pr' srv c'"
  by (rule neat_step_same) simp_all

lemma neat_step_mutex:
  assumes "tables_clean srv" "\<forall>q\<in>owned t srv - D. settled (heap srv ! q)" "p < length (heap srv)" "neat pr' listed D c'"
    and "t_mutex (heap srv ! p) = None \<or> t_mutex (heap srv ! p) = Some t \<and> p \<notin> D"
  shows "neat_step t srv pr' (at_table p (t_mutex_update (\<lambda>_. m)) srv) c'"
proof -
  have "settled (heap srv ! p)" using assms(1,2,3,5) by (auto simp: tables_clean_def in_owned)
  then show ?thesis
    using assms(4) by (intro neat_step_at [OF assms(1,3,2)]) (auto simp: table_moves_def)
qed

lemma neat_advance:
  assumes n: "neat pr listed D c" "\<forall>p\<in>owned t srv - D. settled (heap srv ! p)" and c: "tables_clean srv"
    and w: "wp pr Q (owned t srv) (owns_server t srv) c" "me c = t" "\<not> at_miss pr"
    and a: "advance pr (srv, c) = Some (pr', (srv', c'))"
  shows "neat_step t srv pr' srv' c'"
proof (cases pr)
  case (Lock p k)
  then show ?thesis using assms
    by (auto simp: access_cases split: if_splits option.splits
        intro!: neat_step_stay [where D = D] neat_step_mutex [where D = D])
next
  case (Unlock p k)
  then show ?thesis using assms
    by (auto simp: access_cases split: if_splits option.splits
        intro!: neat_step_stay [where D = D] neat_step_mutex [where D = D])
next
  case (Trylock p k)
  then show ?thesis using assms
    by (auto simp: access_cases split: if_splits option.splits
        intro!: neat_step_stay [where D = D] neat_step_mutex [where D = D])
next
  case (Read_table p k)
  then show ?thesis using assms by (auto simp: read_table_run in_owned intro!: neat_step_stay [where D = D])
next
  case (Write_table p f k)
  then have p: "p < length (heap srv)" "t_mutex (heap srv ! p) = Some t" using w(1) by (auto simp: in_owned)
  have wf: "table_wf (heap srv ! p)" using c p(1) by (simp add: tables_clean_def)
  have e: "pr' = k" "srv' = at_table p f srv" "c' = c" using a Write_table p(1) by (auto simp: modify_table_run)
  consider (over) "f = commit_changes \<or> f = rollback_changes" "neat k listed (D - {p}) c"
    | (put) key v where "f = table_set key v" "neat k listed (insert p D) c"
    using n(1) Write_table by (auto simp: neat.simps(7))
  then show ?thesis
  proof cases
    case over
    then show ?thesis unfolding e using p wf settled_commit
      by (intro neat_step_at [OF c p(1) n(2) _ _ over(2)]) (auto simp: table_moves_def in_owned)
  next
    case (put key v)
    then show ?thesis unfolding e using p
      by (intro neat_step_at [OF c p(1) n(2) _ _ put(2)]) (auto simp: table_moves_def table_frame in_owned)
  qed
next
  case (Create m k)
  have "neat_step t srv k (srv\<lparr>heap := heap srv @ [Table_new m], table_names := x\<rparr>) c" for x
    using n c Create
    by (intro neat_stepI [where D = D])
      (auto simp: tables_clean_def in_owned nth_append less_Suc_eq table_wf_new split: if_splits)
  then show ?thesis using a Create by (auto simp: run_simps create_table_run)
next
  case (Enter k)
  then show ?thesis using assms
    by (auto simp: access_cases split: if_splits option.splits intro!: neat_step_stay [where D = D] neat_step_same [where D = D])
next
  case (Leave k)
  then show ?thesis using assms
    by (auto simp: access_cases split: if_splits option.splits intro!: neat_step_stay [where D = D] neat_step_same [where D = D])
next
  case (Miss k)
  then show ?thesis using w(3) by (simp add: at_miss_def)
qed (use assms in \<open>auto intro!: neat_step_stay [where D = D] neat_step_same [where D = D]\<close>)

lemma table_pairs_mutex:
  "committed (tb\<lparr>t_mutex := m\<rparr>) = committed tb" "Table.proposed (tb\<lparr>t_mutex := m\<rparr>) = Table.proposed tb"
  by (simp_all add: committed_def Table.proposed_def)

lemma table_moves_pairs:
  assumes "table_moves mine tb tb'" "table_wf tb"
  shows "(committed tb' = committed tb \<or> committed tb' = committed tb ++ Table.proposed tb) \<and>
    (Table.proposed tb' = Table.proposed tb \<or> Table.proposed tb' = Map.empty \<or>
       (\<exists>k v. Table.proposed tb' = (Table.proposed tb)(k \<mapsto> v))) \<and>
    (committed tb' \<noteq> committed tb \<or> Table.proposed tb' \<noteq> Table.proposed tb \<longrightarrow> mine)"
  using assms(1) unfolding table_moves_def
proof (elim disjE exE conjE)
  fix k v assume "mine" "tb' = table_set k v tb"
  then show ?thesis unfolding ts.base_put ts.pending_put by (metis ts.base_put ts.pending_put)
qed (use assms(2) in \<open>simp_all add: table_pairs_mutex ts.base_commit ts.pending_commit ts.base_rollback ts.pending_rollback\<close>)

lemma neat_threads_start: "server_main ol g argv = Ret (Serving s) \<Longrightarrow> neat_threads (threads_start (server s))"
  by (erule server_main_serving)
    (simp add: neat_threads_def threads_start_def system_start_def Server_new_def tables_clean_def)

text \<open>A thread gets a careful program where nothing is open, or goes away.\<close>

lemma neat_threads_live:
  assumes "neat_threads s" "\<And>c pr. x = Some (c, pr) \<Longrightarrow>
      \<exists>D. neat pr listed D c \<and> (\<forall>p\<in>owned t (shared s) - D. settled (heap (shared s) ! p))"
  shows "neat_threads (s\<lparr>live := (live s)(t := x)\<rparr>)"
  using assms unfolding neat_threads_def by auto

lemma neat_threads_careful:
  assumes "neat_threads s" "live s t = Some (c, retp ())" "careful pr"
  shows "neat_threads (s\<lparr>live := (live s)(t \<mapsto> (c, pr))\<rparr>)"
proof (rule neat_threads_live [OF assms(1)])
  obtain D where "drafts c D" "\<forall>p\<in>owned t (shared s) - D. settled (heap (shared s) ! p)"
    using assms(1,2) unfolding neat_threads_def by fastforce
  then show "\<exists>D. neat pr' listed D c' \<and> (\<forall>p\<in>owned t (shared s) - D. settled (heap (shared s) ! p))"
    if "Some (c, pr) = Some (c', pr')" for c' pr'
    using that carefulD [OF assms(3)] by auto
qed

lemma neat_statement:
  assumes s: "by_rule s" "neat_threads s" and l: "live s t = Some (c, pr)" "\<not> at_miss pr"
    and a: "advance pr (shared s, c) = Some (pr', (srv', c'))"
  shows "neat_step t (shared s) pr' srv' c'"
proof -
  obtain D where D: "neat pr listed D c" "\<forall>p\<in>owned t (shared s) - D. settled (heap (shared s) ! p)"
    and c: "tables_clean (shared s)"
    using s(2) l(1) unfolding neat_threads_def by blast
  show ?thesis by (rule neat_advance [OF D c by_ruleD(2,1) [OF s(1) l(1)] l(2) a])
qed

lemma neat_threads_step:
  assumes s: "by_rule s" "neat_threads s" and step: "fstep t s s'" and ok: "\<not> missed s'" "\<not> stopped s'"
  shows "neat_threads s'"
  using step
proof cases
  case (f_accept fd g inp)
  have "owned t (shared s) = {}" using s(1) f_accept by (simp add: by_rule_def)
  then show ?thesis unfolding f_accept by (intro neat_threads_live [OF s(2)]) (auto intro: exI [of _ "{}"])
next
  case (f_iterate c)
  then show ?thesis using neat_threads_careful [OF s(2) _ careful_iteration] by simp
next
  case (f_finish c)
  then show ?thesis using neat_threads_careful [OF s(2) _ careful_finish] by simp
next
  case (f_exit c)
  then show ?thesis using neat_threads_live [OF s(2), of None] by simp
next
  case (f_statement c pr pr' srv' c')
  have nm: "\<not> at_miss pr" using ok(1) f_statement(1) by simp
  have n: "neat_step t (shared s) pr' srv' c'" by (rule neat_statement [OF s f_statement(3) nm f_statement(4)])
  have "\<exists>D. neat pr2 listed D d \<and> (\<forall>p\<in>owned u srv' - D. settled (heap srv' ! p))"
    if u: "u \<noteq> t" "live s u = Some (d, pr2)" for u d pr2
  proof -
    have "owned u srv' = owned u (shared s)" "\<forall>p\<in>owned u (shared s). heap srv' ! p = heap (shared s) ! p"
      using advance_others [OF by_ruleD(2,1) [OF s(1) f_statement(3)] f_statement(4) u(1)] by blast+
    moreover obtain D where "neat pr2 listed D d" "\<forall>p\<in>owned u (shared s) - D. settled (heap (shared s) ! p)"
      using s(2) u(2) unfolding neat_threads_def by blast
    ultimately show ?thesis by (intro exI [of _ D]) simp
  qed
  then show ?thesis using n unfolding f_statement(1) neat_threads_def neat_step_def by auto
next
  case f_crash
  then show ?thesis using ok(2) by simp
qed

lemma freach_neat: "freach s \<Longrightarrow> \<not> missed s \<Longrightarrow> \<not> stopped s \<Longrightarrow> neat_threads s"
proof (induction rule: freach.induct)
  case (f_start ol g argv s)
  then show ?case using neat_threads_start by blast
next
  case (f_next s t s')
  then show ?case using neat_threads_step freach_by_rule fstep_monotone by blast
qed

section \<open>Properties\<close>

text \<open>
  C14. No uncommitted data is left lying about, at the level of single statements. As long as no \<open>GET\<close> met a missing key:
  a table in which something is proposed that is not committed is owned by a live thread. If that thread is
  between two requests, it is in a transaction that has listed the table, so that its next \<open>COMMIT\<close> installs the proposals and a
  refusal or the end of the thread drops them. Whoever finds a table free therefore finds committed values only.
\<close>

theorem drafts_owned:
  assumes "freach s" "\<not> missed s" "\<not> stopped s" "p < length (heap (shared s))"
    and "\<not> Table.proposed (heap (shared s) ! p) \<subseteq>\<^sub>m committed (heap (shared s) ! p)"
  shows "\<exists>t c pr. t_mutex (heap (shared s) ! p) = Some t \<and> live s t = Some (c, pr) \<and>
    (pr = retp () \<longrightarrow> in_transaction c \<and> p \<in> set (locked_tables c))"
proof -
  have n: "neat_threads s" and r: "by_rule s" using assms(1-3) by (rule freach_neat, rule freach_by_rule)
  obtain t where t: "t_mutex (heap (shared s) ! p) = Some t"
    using n assms(4,5) by (auto simp: neat_threads_def tables_clean_def settled_def)
  then have p: "p \<in> owned t (shared s)" using assms(4) by (simp add: in_owned)
  then obtain c pr where l: "live s t = Some (c, pr)" using by_rule_owner_live [OF r] by metis
  obtain D where D: "neat pr listed D c" "\<forall>q\<in>owned t (shared s) - D. settled (heap (shared s) ! q)"
    using n l unfolding neat_threads_def by blast
  have "p \<in> D" using D(2) p assms(5) by (auto simp: settled_def)
  then have "pr = retp () \<longrightarrow> in_transaction c \<and> p \<in> set (locked_tables c)" using D(1) by (auto simp: drafts_def)
  with t l show ?thesis by blast
qed

text \<open>
  C15. Tables change by whole commits only, at the level of single statements. As long as no \<open>GET\<close> met a missing key:
  whatever statement of whatever thread comes next, the committed values of a table stay, or they are
  overridden by all that is proposed in it, at once; what is proposed stays, or is extended by one pair, or is dropped; and
  a statement that changes either is one of the thread that owns the table's mutex. No table disappears.
\<close>

theorem commits_whole:
  assumes "freach s" "\<not> missed s" "\<not> stopped s" "fstep t s s'" "p < length (heap (shared s))"
  shows "let tb = heap (shared s) ! p; tb' = heap (shared s') ! p in
    p < length (heap (shared s')) \<and>
    (committed tb' = committed tb \<or> committed tb' = committed tb ++ Table.proposed tb) \<and>
    (Table.proposed tb' = Table.proposed tb \<or> Table.proposed tb' = Map.empty \<or>
       (\<exists>k v. Table.proposed tb' = (Table.proposed tb)(k \<mapsto> v))) \<and>
    (committed tb' \<noteq> committed tb \<or> Table.proposed tb' \<noteq> Table.proposed tb \<longrightarrow> t_mutex tb = Some t)"
  using assms(4)
proof cases
  case (f_statement c pr pr' srv' c')
  have n: "neat_threads s" and r: "by_rule s" using assms(1-3) by (rule freach_neat, rule freach_by_rule)
  show ?thesis
  proof (cases "at_miss pr")
    case True
    then have "srv' = shared s" using f_statement(4) by (auto simp: at_miss_def split: prog.splits)
    then show ?thesis using f_statement(1) assms(5) by simp
  next
    case False
    have st: "neat_step t (shared s) pr' srv' c'" by (rule neat_statement [OF r n f_statement(3) False f_statement(4)])
    have wf: "table_wf (heap (shared s) ! p)" using n assms(5) by (simp add: neat_threads_def tables_clean_def)
    from st assms(5) have "p < length (heap srv')"
      "heap srv' ! p = heap (shared s) ! p \<or> table_moves (p \<in> owned t (shared s)) (heap (shared s) ! p) (heap srv' ! p)"
      unfolding neat_step_def by auto
    then show ?thesis using f_statement(1) table_moves_pairs [OF _ wf] by (auto simp: in_owned Let_def)
  qed
qed (use assms(5) in simp_all)

theorem drafts_owned_witness:
  "\<exists>s t c pr. freach s \<and> t_mutex (heap (shared s) ! 0) = Some t \<and> live s t = Some (c, pr) \<and>
    Table.proposed (heap (shared s) ! 0) ''kiwis'' = Some ''3'' \<and> committed (heap (shared s) ! 0) ''kiwis'' = None"
proof -
  obtain L c k where L: "scene waiting False (proposed 1) L" "L 2 = Some (c, Lock 0 k)" "me c = 2"
    by (rule blocked_scene)
  let ?s = "\<lparr>shared = proposed 1, live = L, missed = False, stopped = False\<rparr>"
  have v: "Table.proposed (heap (proposed 1) ! 0) ''kiwis'' = Some ''3''" "committed (heap (proposed 1) ! 0) ''kiwis'' = None"
    by (simp_all add: proposed_def set_commutes_mutex committed_new)
  then have "\<not> Table.proposed (heap (shared ?s) ! 0) \<subseteq>\<^sub>m committed (heap (shared ?s) ! 0)"
    by (auto simp: map_le_def dom_def)
  from drafts_owned [OF scene_freach [OF L(1)] _ _ _ this] obtain t d pr where
    "t_mutex (heap (shared ?s) ! 0) = Some t" "live ?s t = Some (d, pr)" by auto
  with scene_freach [OF L(1)] v show ?thesis
    by (intro exI [of _ ?s] exI [of _ t] exI [of _ d] exI [of _ pr]) simp
qed

text \<open>Client 1 has written in a transaction and is about to commit the table.\<close>

lemma commit_reaches:
  assumes "in_transaction c" "locked_tables c = [0]"
  shows "\<exists>k. advances 2 (call_response_function_stmts (Message_new COMMIT [])) (proposed t, c) =
     Some (Write_table 0 commit_changes k, (proposed t, c))"
  using assms
  by (simp add: stmts_unfold handle_commit_stmts_def eval_nat_numeral askp_def own_cmd_def run_simps)

lemma commit_scene:
  obtains L c k where "scene waiting False (proposed 1) L" "L 1 = Some (c, Write_table 0 commit_changes k)" "me c = 1"
proof -
  obtain L where L: "scene waiting False (Server_new False) L"
    "client L 1 False [] False [] [ok_line] (''CREATE fruit'' @ newline # ''BEGIN'' @ newline # ''PUSH 3'' @ newline #
      ''SET fruit kiwis'' @ newline # ''COMMIT'' @ newline # [])"
    by (rule two_clients)
  obtain L1 where L1: "scene waiting False example_server L1"
    "client L1 1 False [] False [] ([ok_line] @ [ok_line]) (''BEGIN'' @ newline # ''PUSH 3'' @ newline #
      ''SET fruit kiwis'' @ newline # ''COMMIT'' @ newline # [])"
    by (rule client_creates [OF L])
  obtain L2 where L2: "scene waiting False example_server L2"
    "client L2 1 False [] True [] (([ok_line] @ [ok_line]) @ [ok_line]) (''PUSH 3'' @ newline #
      ''SET fruit kiwis'' @ newline # ''COMMIT'' @ newline # [])"
    by (rule client_begins [OF L1])
  obtain L3 where L3: "scene waiting False example_server L3"
    "client L3 1 False [''3''] True [] ((([ok_line] @ [ok_line]) @ [ok_line]) @ [ok_line])
      (''SET fruit kiwis'' @ newline # ''COMMIT'' @ newline # [])"
    by (rule client_pushes [OF L2])
  obtain L4 where L4: "scene waiting False (proposed 1) L4"
    "client L4 1 False [] True [0] (((([ok_line] @ [ok_line]) @ [ok_line]) @ [ok_line]) @ [ok_line]) (''COMMIT'' @ newline # [])"
    by (rule client_sets [OF L3])
  obtain d L5 where L5: "scene waiting False (proposed 1) L5" "L5 1 = Some (d, call_response_function_stmts (Message_new COMMIT []))"
    "between 1 False [] True [0] (((([ok_line] @ [ok_line]) @ [ok_line]) @ [ok_line]) @ [ok_line]) [] d"
    by (rule client_request [OF L4 _ _ decode_commit_line]) (simp_all add: Message_new_def)
  obtain k where k: "advances 2 (call_response_function_stmts (Message_new COMMIT [])) (proposed 1, d) =
     Some (Write_table 0 commit_changes k, (proposed 1, d))"
    using commit_reaches [of d] L5(3) by (auto simp: between_def)
  have "tame False (call_response_function_stmts (Message_new COMMIT []))" by (rule tame_request) (simp add: Message_new_def)
  from scene_within [OF L5(1,2) this k] show thesis
    using that [of "L5(1 \<mapsto> (d, Write_table 0 commit_changes k))"] L5(3) by (simp add: between_def)
qed

theorem commits_whole_witness:
  "\<exists>s s'. freach s \<and> fstep 1 s s' \<and> t_mutex (heap (shared s) ! 0) = Some 1 \<and>
    committed (heap (shared s) ! 0) ''kiwis'' = None \<and> committed (heap (shared s') ! 0) ''kiwis'' = Some ''3'' \<and>
    committed (heap (shared s') ! 0) = committed (heap (shared s) ! 0) ++ Table.proposed (heap (shared s) ! 0)"
proof -
  obtain L c k where L: "scene waiting False (proposed 1) L" "L 1 = Some (c, Write_table 0 commit_changes k)" "me c = 1"
    by (rule commit_scene)
  let ?s = "\<lparr>shared = proposed 1, live = L, missed = False, stopped = False\<rparr>"
  let ?s' = "?s\<lparr>shared := at_table 0 commit_changes (proposed 1), live := L(1 \<mapsto> (c, k)),
    missed := False \<or> at_miss (Write_table 0 commit_changes k)\<rparr>"
  have step: "fstep 1 ?s ?s'"
    using f_statement [of ?s 1 c "Write_table 0 commit_changes k" k "at_table 0 commit_changes (proposed 1)" c] L(2)
    by (simp add: modify_table_run)
  have v: "committed (heap (proposed 1) ! 0) ''kiwis'' = None"
    by (simp add: proposed_def set_commutes_mutex committed_new)
  have c: "committed (heap (shared ?s') ! 0) ''kiwis'' = Some ''3''"
    by (simp add: proposed_def) code_simp
  with v have "committed (heap (shared ?s') ! 0) \<noteq> committed (heap (shared ?s) ! 0)" by auto
  with commits_whole [OF scene_freach [OF L(1)] _ _ step, of 0]
  have "committed (heap (shared ?s') ! 0) = committed (heap (shared ?s) ! 0) ++ Table.proposed (heap (shared ?s) ! 0)"
    by (simp add: Let_def)
  with scene_freach [OF L(1)] step v c show ?thesis
    by (intro exI [of _ ?s] exI [of _ ?s']) simp
qed

end
