(* ===== verification/Refusals.thy ===== *)
theory Refusals
  imports Requests
begin

text \<open>
  Requests that are refused inside a transaction. \<open>refusal\<close> says, from the state alone, which
  requests these are and with which text; the handlers of \<open>Client_Connection\<close> raise an exception in
  exactly these cases, and the transaction then ends without a trace.
\<close>

section \<open>Which requests are refused\<close>

text \<open>In a transaction a table that is missing or held by another thread is refused.\<close>

definition table_refusal :: "string \<Rightarrow> world \<Rightarrow> string option" where
  "table_refusal name w =
     (case find_table name (fst w) of
        None \<Rightarrow> Some ''Could not find table.''
      | Some p \<Rightarrow>
          if t_mutex (heap (fst w) ! p) \<in> {None, Some (me (snd w))} then None
          else Some ''Could not gain access to table.'')"

text \<open>Both operands must be there and must be numbers; one out of the range of \<open>int\<close> is not refused.\<close>

definition operand_refusal :: "string \<Rightarrow> ValueStack \<Rightarrow> string option" where
  "operand_refusal not_enough st =
     (let no_number = Some ''Value on stack could not be converted to an integer.'' in
      case st of
        r # l # rest \<Rightarrow>
          (case stoi r of
             Ret i \<Rightarrow> (case stoi l of Throw e \<Rightarrow> if is_Invalid_argument e then no_number else None | _ \<Rightarrow> None)
           | Throw e \<Rightarrow> if is_Invalid_argument e then no_number else None
           | _ \<Rightarrow> None)
      | _ \<Rightarrow> Some not_enough)"

definition refusal :: "Message \<Rightarrow> world \<Rightarrow> string option" where
  "refusal msg w =
     (let st = stack (snd w) in
      case m_message_type msg of
        BEGIN \<Rightarrow> Some ''Nested transactions are not supported.''
      | CREATE \<Rightarrow> if find_table (m_args msg ! 0) (fst w) = None then None else Some ''A table with this name already exists.''
      | POP \<Rightarrow> if st = [] then Some ''Tried to call POP on an empty operations stack.'' else None
      | TOP \<Rightarrow> if st = [] then Some ''Tried to call TOP on an empty operations stack.'' else None
      | SET \<Rightarrow> if st = [] then Some ''No value on stack.'' else table_refusal (m_args msg ! 0) w
      | GET \<Rightarrow> table_refusal (m_args msg ! 0) w
      | ADD \<Rightarrow> operand_refusal ''There are not enough operands to add with.'' st
      | SUB \<Rightarrow> operand_refusal ''There are not enough operands to subtract with.'' st
      | MUL \<Rightarrow> operand_refusal ''There are not enough operands to multiply with.'' st
      | DIV \<Rightarrow> operand_refusal ''There are not enough operands to divide with.'' st
      | COMMIT \<Rightarrow> None | PUSH \<Rightarrow> None | BYE \<Rightarrow> None
      | _ \<Rightarrow> Some ''Please only enter standardized requests.'')"

section \<open>The handlers raise exactly these\<close>

text \<open>
  What a handler does when a request is refused with a text, and when it is not: it has changed nothing but its own
  stack, or it answers \<open>OK\<close> or data and keeps the transaction open, if it is not \<open>COMMIT\<close>.
\<close>

definition settles :: "Message \<Rightarrow> world \<Rightarrow> unit res \<times> world \<Rightarrow> string option \<Rightarrow> bool" where
  "settles msg w out ref \<longleftrightarrow>
     (case ref of
        Some t \<Rightarrow> \<exists>e b vs. out = (Throw e, ((fst w)\<lparr>mutex_is_locked := b\<rparr>, (snd w)\<lparr>stack := vs\<rparr>)) \<and>
          is_runtime_error e \<and> \<not> is_InvalidMessage e \<and> what e = t \<and> length t \<le> 1000 \<and> list_all value_ok vs \<and>
          (arith_fun (m_message_type msg) = None \<longrightarrow> vs = stack (snd w))
      | None \<Rightarrow> (\<forall>e. fst out = Throw e \<longrightarrow> e = Out_of_range ''stoi'') \<and>
          (fst out = Ret () \<longrightarrow> (\<exists>l. written (snd (snd out)) = written (snd w) @ [l] \<and> (l = ok_line \<or> (\<exists>v. l = data_line v))) \<and>
             (in_transaction (snd (snd out)) \<longleftrightarrow> m_message_type msg \<noteq> COMMIT)))"

lemma settles_raise:
  assumes "is_runtime_error e" "\<not> is_InvalidMessage e" "what e = t" "length t \<le> 1000" "list_all value_ok vs"
    and "arith_fun (m_message_type msg) = None \<Longrightarrow> vs = stack c"
  shows "settles msg (srv, c) (Throw e, (srv\<lparr>mutex_is_locked := b\<rparr>, c\<lparr>stack := vs\<rparr>)) (Some t)"
  using assms unfolding settles_def by auto

lemma settles_throw:
  assumes "is_runtime_error e" "\<not> is_InvalidMessage e" "what e = t" "length t \<le> 1000" "list_all value_ok (stack c)"
  shows "settles msg (srv, c) (Throw e, (srv, c)) (Some t)"
  using settles_raise [OF assms, where msg = msg and c = c and srv = srv and b = "mutex_is_locked srv"] by simp

lemma settles_escape: "settles msg w (Throw (Out_of_range ''stoi''), w') None"
  by (simp add: settles_def)

lemma settles_answer:
  assumes "written c' = written c" "l = ok_line \<or> (\<exists>v. l = data_line v)" "in_transaction c' \<longleftrightarrow> m_message_type msg \<noteq> COMMIT"
  shows "settles msg (srv, c) (Ret (), (srv', answer l c')) None"
  using assms by (simp add: settles_def)

lemma settles_fault: "settles msg w (Fault u, w') None"
  by (simp add: settles_def)

lemma settles_arith:
  assumes ok: "conn_ok (srv, c)" "in_transaction c" and f: "arith_fun (m_message_type msg) = Some (ne, f)"
    and len: "length (stack c) < 2147483648"
  shows "settles msg (srv, c) (arith_handler ne f (srv, c)) (operand_refusal ne (stack c))"
proof (cases "\<exists>r l rest. stack c = r # l # rest")
  case False
  then have "operand_refusal ne (stack c) = Some ne" "length (stack c) < 2"
    by (cases "stack c"; cases "tl (stack c)"; auto simp: operand_refusal_def)+
  moreover have "get_size (stack c) < 2" using get_size_small [OF len] calculation(2) by simp
  ultimately show ?thesis
    using arith_text [OF f] conn_okD(7) [OF ok(1)] by (simp add: arith_short settles_throw)
next
  case True
  then obtain r l rest where st: "stack c = r # l # rest" by blast
  then have size: "2 \<le> get_size (stack c)" using get_size_small [OF len] by simp
  have vals: "list_all value_ok (r # l # rest)" using conn_okD(7) [OF ok(1)] st by simp
  have not_commit: "m_message_type msg \<noteq> COMMIT" using f by auto
  consider (fine) i j where "stoi r = Ret i" "stoi l = Ret j"
    | (left) i e where "stoi r = Ret i" "stoi l = Throw e" | (right) e where "stoi r = Throw e"
    using stoi_cases [of r] stoi_cases [of l] by blast
  then show ?thesis
  proof cases
    case (fine i j)
    from arith_fun_result [OF f stoi_range [OF fine(2)] stoi_range [OF fine(1)]] show ?thesis
      using fine ok(2) not_commit
      by (auto simp: arith_operands [OF st size fine] st operand_refusal_def settles_fault intro!: settles_answer)
  next
    case (left i e)
    have "list_all value_ok (to_string i # l # rest)"
      using vals value_ok_to_string [OF stoi_range [OF left(1)]] by simp
    then have "settles msg (srv, c) (Throw conversion_error, (srv\<lparr>mutex_is_locked := mutex_is_locked srv\<rparr>,
        c\<lparr>stack := to_string i # l # rest\<rparr>)) (Some (what conversion_error))"
      by (intro settles_raise) (simp_all add: conversion_error_def f)
    with stoi_ThrowD [OF left(2)] left show ?thesis
      by (auto simp: arith_left_bad [OF st size left] st operand_refusal_def settles_escape conversion_error_def)
  next
    case (right e)
    have "settles msg (srv, c) (Throw conversion_error, (srv, c)) (Some (what conversion_error))"
      using vals st by (intro settles_throw) (simp_all add: conversion_error_def)
    with stoi_ThrowD [OF right] right show ?thesis
      by (auto simp: arith_right_bad [OF st size right] st operand_refusal_def settles_escape conversion_error_def)
  qed
qed

lemma settles_set:
  assumes ok: "conn_ok (srv, c)" "in_transaction c" and msg: "m_message_type msg = SET" "m_args msg = [name, key]"
    and len: "length (stack c) < 2147483648"
  shows "settles msg (srv, c) (handle_set msg (srv, c))
    (if stack c = [] then Some ''No value on stack.'' else table_refusal name (srv, c))"
proof (cases "stack c")
  case Nil
  then show ?thesis using get_size_small [OF len] by (simp add: handle_set_empty settles_throw)
next
  case (Cons v vs)
  then have size: "1 \<le> get_size (stack c)" using get_size_small [OF len] by simp
  note s = msg(2) Cons size and v = conn_okD(7) [OF ok(1)]
  show ?thesis
  proof (cases "find_table name srv")
    case None
    then show ?thesis using Cons v by (simp add: handle_set_table [OF s] table_refusal_def settles_throw)
  next
    case p: (Some p)
    have pl: "p < length (heap srv)" using p conn_okD(1) [OF ok(1)] find_table_valid by blast
    from ok(1) pl show ?thesis
    proof (cases rule: table_cases)
      case free
      then show ?thesis
        using p Cons ok(2) msg(1)
        by (simp add: handle_set_acquire [OF s p pl ok(2) free(2,1)] table_refusal_def settles_answer)
    next
      case mine
      then show ?thesis
        using p Cons ok(2) msg(1)
        by (simp add: handle_set_held [OF s p pl mine(3,2)] table_refusal_def settles_answer)
    next
      case (other u)
      then show ?thesis
        using p Cons v by (simp add: handle_set_refused [OF s p pl ok(2) other(3,1)] table_refusal_def settles_throw)
    qed
  qed
qed

lemma settles_get:
  assumes ok: "conn_ok (srv, c)" "in_transaction c" and msg: "m_message_type msg = GET" "m_args msg = [name, key]"
    and nb: "\<not> get_breaks msg (srv, c)"
  shows "settles msg (srv, c) (handle_get msg (srv, c)) (table_refusal name (srv, c))"
proof (cases "find_table name srv")
  case None
  then show ?thesis
    using conn_okD(7) [OF ok(1)] by (simp add: handle_get_table [OF msg(2)] table_refusal_def settles_throw)
next
  case p: (Some p)
  have pl: "p < length (heap srv)" using p conn_okD(1) [OF ok(1)] find_table_valid by blast
  have val: "\<exists>v. table_get key (heap srv ! p) = Ret v" if "t_mutex (heap srv ! p) \<in> {None, Some (me c)}"
    using nb p that msg ts.present_read by (auto simp: get_breaks_def)
  from ok(1) pl show ?thesis
  proof (cases rule: table_cases)
    case free
    then obtain v where "table_get key (heap srv ! p) = Ret v" using val by auto
    then show ?thesis
      using p ok(2) msg(1) free(1)
      by (simp add: handle_get_acquire [OF msg(2) p pl ok(2) free(2,1)] table_refusal_def settles_answer)
  next
    case mine
    then obtain v where "table_get key (heap srv ! p) = Ret v" using val by auto
    then show ?thesis
      using p ok(2) msg(1) mine(1)
      by (simp add: handle_get_held [OF msg(2) p pl ok(2) mine(2)] table_refusal_def settles_answer)
  next
    case (other u)
    then show ?thesis
      using p conn_okD(7) [OF ok(1)]
      by (simp add: handle_get_refused [OF msg(2) p pl ok(2) other(3,1)] table_refusal_def settles_throw)
  qed
qed

lemma settles_commit:
  assumes "conn_ok (srv, c)" "in_transaction c" "m_message_type msg = COMMIT"
  shows "settles msg (srv, c) (handle_commit (srv, c)) None"
  using assms by (simp add: handle_commit_run [OF conn_ok_owns] settles_answer)

lemma settles_create:
  assumes ok: "conn_ok (srv, c)" "in_transaction c" and msg: "m_message_type msg = CREATE" "m_args msg = [name]"
  shows "settles msg (srv, c) (handle_create msg (srv, c))
    (if find_table name srv = None then None else Some ''A table with this name already exists.'')"
  using ok msg conn_okD(7) [OF ok(1)] settles_raise [of _ _ "stack c" msg c srv False]
  by (auto simp: handle_create_run [OF msg(2) conn_okD(2) [OF ok(1)]] intro!: settles_answer)

lemma settles_simple:
  assumes ok: "conn_ok (srv, c)" "in_transaction c" and len: "length (stack c) < 2147483648"
  shows "m_message_type msg = POP \<Longrightarrow> settles msg (srv, c) (handle_pop (srv, c))
      (if stack c = [] then Some ''Tried to call POP on an empty operations stack.'' else None)"
    and "m_message_type msg = TOP \<Longrightarrow> settles msg (srv, c) (handle_top (srv, c))
      (if stack c = [] then Some ''Tried to call TOP on an empty operations stack.'' else None)"
    and "m_message_type msg = PUSH \<Longrightarrow> m_args msg = [v] \<Longrightarrow> settles msg (srv, c) (handle_push msg (srv, c)) None"
    and "m_message_type msg = BYE \<Longrightarrow> settles msg (srv, c) (handle_bye (srv, c)) None"
    and "m_message_type msg = BEGIN \<Longrightarrow>
      settles msg (srv, c) (handle_begin (srv, c)) (Some ''Nested transactions are not supported.'')"
  using ok conn_okD(7) [OF ok(1)]
  by (auto simp: handle_pop_run handle_top_run handle_push_run handle_begin_run handle_bye_def run_simps value_ok_def
      split: list.splits intro!: settles_answer settles_throw)

lemma settles_dispatch:
  assumes ok: "conn_ok (srv, c)" "in_transaction c" and msg: "request_ok msg" "\<not> get_breaks msg (srv, c)"
    and len: "length (stack c) < 2147483648"
  shows "settles msg (srv, c) (dispatch msg (srv, c)) (refusal msg (srv, c))"
proof (cases "arith_fun (m_message_type msg)")
  case (Some nf)
  then obtain ne f where f: "arith_fun (m_message_type msg) = Some (ne, f)" by (cases nf) auto
  then have "refusal msg (srv, c) = operand_refusal ne (stack c)" by (cases "m_message_type msg") (auto simp: refusal_def)
  then show ?thesis using settles_arith [OF ok f len] by (simp add: dispatch_arith [OF f])
next
  case None
  note d = dispatch_def get_message_type_def refusal_def
  note args = request_args [OF msg(1)]
  have other: "settles msg (srv, c) (throw (OperationException ''Please only enter standardized requests.'') (srv, c))
      (Some ''Please only enter standardized requests.'')"
    using conn_okD(7) [OF ok(1)] by (simp add: run_simps settles_throw)
  show ?thesis
  proof (cases "m_message_type msg")
    case CREATE
    then obtain name where n: "m_args msg = [name]" using args(1) by auto
    then show ?thesis using CREATE settles_create [OF ok CREATE n] by (simp add: d)
  next
    case PUSH
    then show ?thesis using args(1) settles_simple(3) [OF ok len] by (auto simp: d)
  next
    case SET
    then show ?thesis using args(2) settles_set [OF ok SET _ len] by (auto simp: d)
  next
    case GET
    then show ?thesis using args(2) settles_get [OF ok GET _ msg(2)] by (auto simp: d)
  qed (use None other settles_simple [OF ok len, of msg] settles_commit [OF ok] in \<open>simp_all add: d\<close>)
qed

section \<open>The end of a transaction that is refused\<close>

lemma release_flag:
  "release_all f ps (srv\<lparr>mutex_is_locked := b\<rparr>) = (release_all f ps srv)\<lparr>mutex_is_locked := b\<rparr>"
proof -
  have "at_table p g (srv\<lparr>mutex_is_locked := b\<rparr>) = (at_table p g srv)\<lparr>mutex_is_locked := b\<rparr>" for p g srv
    by (simp add: at_table_def)
  then show ?thesis by (induction ps arbitrary: srv) (simp_all add: release_all_def)
qed

lemma refused_response:
  assumes ok: "conn_ok (srv, c)" "in_transaction c" and msg: "request_ok msg" "refusal msg (srv, c) = Some t"
    and len: "length (stack c) < 2147483648"
  obtains b vs c' where
    "call_response_function msg (srv, c) = (Ret (), ((release_all rollback_changes (locked_tables c) srv)\<lparr>mutex_is_locked := b\<rparr>, c'))"
    "conn_ok ((release_all rollback_changes (locked_tables c) srv)\<lparr>mutex_is_locked := b\<rparr>, c')" "\<not> in_transaction c'"
    "written c' = written c @ [failed_line t]" "arith_fun (m_message_type msg) = None \<Longrightarrow> stack c' = stack c"
proof -
  have nb: "\<not> get_breaks msg (srv, c)"
    using msg(2) by (auto simp: get_breaks_def refusal_def table_refusal_def split: option.splits if_splits)
  obtain e b vs where d: "dispatch msg (srv, c) = (Throw e, (srv\<lparr>mutex_is_locked := b\<rparr>, c\<lparr>stack := vs\<rparr>))"
    and e: "is_runtime_error e" "\<not> is_InvalidMessage e" "what e = t" "length t \<le> 1000" and vs: "list_all value_ok vs"
    and same: "arith_fun (m_message_type msg) = None \<Longrightarrow> vs = stack c"
    using settles_dispatch [OF ok msg(1) nb len] by (auto simp: settles_def msg(2))
  have ok': "conn_ok (srv\<lparr>mutex_is_locked := b\<rparr>, c\<lparr>stack := vs\<rparr>)" by (rule conn_ok_flag [OF conn_ok_stack [OF ok(1) vs]])
  let ?c' = "answer (failed_line t) (c\<lparr>stack := vs, locked_tables := [], in_transaction := False\<rparr>)"
  have "call_response_function msg (srv, c) = failed_with t (srv\<lparr>mutex_is_locked := b\<rparr>, c\<lparr>stack := vs\<rparr>)"
    using call_response_failed [OF d e(1,2) _ ok'] e by simp
  then have "call_response_function msg (srv, c) =
      (Ret (), ((release_all rollback_changes (locked_tables c) srv)\<lparr>mutex_is_locked := b\<rparr>, ?c'))"
    by (simp add: failed_with_def aborted_def release_flag)
  moreover have "conn_ok ((release_all rollback_changes (locked_tables c) srv)\<lparr>mutex_is_locked := b\<rparr>, ?c')"
    using conn_ok_answer conn_ok_aborted [OF ok'] by (simp add: aborted_def release_flag)
  ultimately show thesis using that [of b ?c'] same by simp
qed

lemma accepted_response:
  assumes ok: "conn_ok (srv, c)" "in_transaction c" and msg: "request_ok msg" "refusal msg (srv, c) = None"
    and len: "length (stack c) < 2147483648" and run: "call_response_function msg (srv, c) = (Ret (), (srv', c'))"
  shows "(\<exists>l. written c' = written c @ [l] \<and> (l = ok_line \<or> (\<exists>v. l = data_line v))) \<and>
    (in_transaction c' \<longleftrightarrow> m_message_type msg \<noteq> COMMIT)"
proof -
  have nb: "\<not> get_breaks msg (srv, c)" using get_breaks_faults [OF ok(1) msg(1)] run by auto
  note s = settles_dispatch [OF ok msg(1) nb len, unfolded msg(2)]
  obtain r w where d: "dispatch msg (srv, c) = (r, w)" by (rule prod.exhaust)
  have "r = Ret () \<and> w = (srv', c')"
  proof (cases r)
    case (Throw e)
    then have "e = Out_of_range ''stoi''" using s d by (simp add: settles_def)
    then show ?thesis using call_response_escapes [of msg "(srv, c)" e w] d Throw run by simp
  qed (use call_response_done [OF d] run in auto)
  then show ?thesis using s d by (simp add: settles_def)
qed

section \<open>Property\<close>

text \<open>Every table has the committed values and the owner it had.\<close>

definition untouched :: "Server \<Rightarrow> Server \<Rightarrow> bool" where
  "untouched srv srv' \<longleftrightarrow>
     (\<forall>name p. find_table name srv = Some p \<longrightarrow>
        find_table name srv' = Some p \<and> t_mutex (heap srv' ! p) = t_mutex (heap srv ! p) \<and>
        committed (heap srv' ! p) = committed (heap srv ! p))"

text \<open>
  C2. A transaction that is given up leaves no trace. A client sends \<open>BEGIN\<close> and any writes
  to free tables. Then every request that must be refused in the state reached (\<open>refusal\<close>: a second \<open>BEGIN\<close>, \<open>POP\<close> and
  \<open>TOP\<close> on an empty stack, arithmetic on too few values or on words that are no numbers, \<open>SET\<close> without a
  value, a table that does not exist, exists already or is held by another client, a request that is none) is answered
  \<open>FAILED\<close> with its text and ends the transaction: every table has the committed values and the owner
  it had before \<open>BEGIN\<close>. Every other request that is answered is answered \<open>OK\<close> or with data, and the
  transaction goes on unless the request is \<open>COMMIT\<close>. A client that goes away instead has its
  transaction undone in the same way by the destructor.
\<close>

theorem transaction_aborts:
  assumes "conn_ok (srv, c)" "\<not> in_transaction c" "writes_ok (srv, c) ws"
    and "length (stack c) < 2147483647"
  shows "\<exists>srv1 c1.
    serve_all (Message_new BEGIN [] # write_requests ws) (srv, c) = (Ret (), (srv1, c1)) \<and>
    stack c1 = stack c \<and> written c1 = written c @ replicate (2 * length ws + 1) ok_line \<and>
    (\<forall>msg t. request_ok msg \<and> refusal msg (srv1, c1) = Some t \<longrightarrow>
       (\<exists>srv' c'. call_response_function msg (srv1, c1) = (Ret (), (srv', c')) \<and>
          conn_ok (srv', c') \<and> \<not> in_transaction c' \<and> written c' = written c1 @ [failed_line t] \<and>
          (m_message_type msg \<notin> {ADD, SUB, MUL, DIV} \<longrightarrow> stack c' = stack c) \<and> untouched srv srv')) \<and>
    (\<forall>msg srv' c'. request_ok msg \<and> refusal msg (srv1, c1) = None \<and>
       call_response_function msg (srv1, c1) = (Ret (), (srv', c')) \<longrightarrow>
       (\<exists>l. written c' = written c1 @ [l] \<and> (l = ok_line \<or> (\<exists>v. l = data_line v))) \<and>
       (in_transaction c' \<longleftrightarrow> m_message_type msg \<noteq> COMMIT)) \<and>
    (\<exists>srv' c'. ClientConnection_destroy (srv1, c1) = (Ret (), (srv', c')) \<and> \<not> in_transaction c' \<and> untouched srv srv')"
proof -
  let ?c0 = "answer ok_line (c\<lparr>in_transaction := True\<rparr>)"
  obtain srv1 c1 where run: "serve_all (Message_new BEGIN [] # write_requests ws) (srv, c) = (Ret (), (srv1, c1))"
    and inp: "in_progress ws (srv, ?c0) (srv1, c1)"
    using assms by (rule transaction_runs)
  note D = in_progressD [OF inp]
  let ?srv = "release_all rollback_changes (locked_tables c1) srv1"
  have "find_table name (s\<lparr>mutex_is_locked := b\<rparr>) = find_table name s" for name s b by (simp add: find_table_def)
  then have un: "untouched srv (?srv\<lparr>mutex_is_locked := b\<rparr>)" for b
    using D(7) transaction_end(2,4) [OF inp assms(1) _ assms(2,3)] by (simp add: untouched_def)
  have st: "stack c1 = stack c" and len: "length (stack c1) < 2147483648" using D(4) assms(4) by simp_all
  have arith: "arith_fun m = None \<longleftrightarrow> m \<notin> {ADD, SUB, MUL, DIV}" for m by (cases m) simp_all
  have refused: "\<exists>srv' c'. call_response_function msg (srv1, c1) = (Ret (), (srv', c')) \<and>
      conn_ok (srv', c') \<and> \<not> in_transaction c' \<and> written c' = written c1 @ [failed_line t] \<and>
      (m_message_type msg \<notin> {ADD, SUB, MUL, DIV} \<longrightarrow> stack c' = stack c) \<and> untouched srv srv'"
    if "request_ok msg" "refusal msg (srv1, c1) = Some t" for msg t
    using refused_response [OF D(1,2) that len] un arith st by metis
  have accepted: "(\<exists>l. written c' = written c1 @ [l] \<and> (l = ok_line \<or> (\<exists>v. l = data_line v))) \<and>
      (in_transaction c' \<longleftrightarrow> m_message_type msg \<noteq> COMMIT)"
    if "request_ok msg" "refusal msg (srv1, c1) = None" "call_response_function msg (srv1, c1) = (Ret (), (srv', c'))" for msg srv' c'
    by (rule accepted_response [OF D(1,2) that(1,2) len that(3)])
  have "ClientConnection_destroy (srv1, c1) = (Ret (), (?srv, c1\<lparr>locked_tables := [], in_transaction := False\<rparr>))"
    using D(2) fail_transaction_run [OF conn_ok_owns [OF D(1)]]
    by (simp add: ClientConnection_destroy_def bind_cmd_run ask_run aborted_def)
  moreover have "untouched srv ?srv" using un [of "mutex_is_locked ?srv"] by simp
  ultimately have gone: "\<exists>srv' c'. ClientConnection_destroy (srv1, c1) = (Ret (), (srv', c')) \<and> \<not> in_transaction c' \<and> untouched srv srv'"
    by (intro exI [of _ ?srv] exI [of _ "c1\<lparr>locked_tables := [], in_transaction := False\<rparr>"]) simp
  have "written c1 = written c @ replicate (2 * length ws + 1) ok_line" using D(5) by simp
  with run st gone show ?thesis
    by - (rule exI [of _ srv1], rule exI [of _ c1], intro conjI allI impI; (elim conjE)?; (rule refused accepted [THEN conjunct1] accepted [THEN conjunct2])?; assumption)
qed

theorem transaction_aborts_witness:
  "\<exists>srv1 c1 srv' c'.
    serve_all (Message_new BEGIN [] # write_requests [(''fruit'', ''apples'', ''1'')]) (example_server, example_conn) =
      (Ret (), (srv1, c1)) \<and>
    call_response_function (Message_new POP []) (srv1, c1) = (Ret (), (srv', c')) \<and>
    written c' = [ok_line, ok_line, ok_line, failed_line ''Tried to call POP on an empty operations stack.''] \<and>
    \<not> in_transaction c' \<and> committed (heap srv' ! 0) ''apples'' = None \<and> t_mutex (heap srv' ! 0) = None"
proof -
  let ?ws = "[(''fruit'', ''apples'', ''1'')]"
  have "writes_ok (example_server, example_conn) ?ws"
    by (simp add: writes_ok_def usable_def value_ok_def word_char_def isspace_def)
  from transaction_aborts [OF example_ok _ this] obtain srv1 c1 where
    run: "serve_all (Message_new BEGIN [] # write_requests ?ws) (example_server, example_conn) = (Ret (), (srv1, c1))"
    and st: "stack c1 = stack example_conn" "written c1 = written example_conn @ replicate (2 * length ?ws + 1) ok_line"
    and refused: "\<forall>msg t. request_ok msg \<and> refusal msg (srv1, c1) = Some t \<longrightarrow>
       (\<exists>srv' c'. call_response_function msg (srv1, c1) = (Ret (), (srv', c')) \<and>
          conn_ok (srv', c') \<and> \<not> in_transaction c' \<and> written c' = written c1 @ [failed_line t] \<and>
          (m_message_type msg \<notin> {ADD, SUB, MUL, DIV} \<longrightarrow> stack c' = stack example_conn) \<and> untouched example_server srv')"
    by auto
  have "request_ok (Message_new POP [])" by code_simp
  moreover have "refusal (Message_new POP []) (srv1, c1) = Some ''Tried to call POP on an empty operations stack.''"
    using st(1) by (simp add: refusal_def Message_new_def)
  ultimately obtain srv' c' where r: "call_response_function (Message_new POP []) (srv1, c1) = (Ret (), (srv', c'))"
    "\<not> in_transaction c'" "written c' = written c1 @ [failed_line ''Tried to call POP on an empty operations stack.'']"
    "untouched example_server srv'"
    using refused by blast
  have "committed (heap srv' ! 0) ''apples'' = None \<and> t_mutex (heap srv' ! 0) = None"
    using r(4) by (auto simp: untouched_def committed_new dest!: spec [of _ "''fruit''"])
  moreover have "written c1 = [ok_line, ok_line, ok_line]" using st(2) by (simp add: numeral_3_eq_3)
  ultimately show ?thesis using run r(1-3) by (intro exI [of _ srv1] exI [of _ c1] exI [of _ srv'] exI [of _ c']) simp
qed

end
