(* ===== verification/Clients.thy ===== *)
theory Clients
  imports Chat
begin

text \<open>
  The three client programs \<open>get_value.cpp\<close>, \<open>set_value.cpp\<close> and
  \<open>incr_value.cpp\<close>. Each connects, sends requests and reads one line of reply to
  each. What lies on the other side of the socket is a parameter \<open>respond\<close>: from a
  line that was sent and the state of the peer it gives what the kernel will deliver and the
  peer's new state. Each program has its own functions; that those of the same name agree are
  \<open>same_responses\<close> and \<open>same_functions\<close>. An exception that leaves \<open>main\<close> ends the program abnormally.
\<close>

section \<open>State and input/output\<close>

record 'p client =
  peer :: 'p
  pending :: "read_event list"
  std_out :: string
  std_err :: string

type_synonym 'p responder = "string \<Rightarrow> 'p \<Rightarrow> read_event list \<times> 'p"
type_synonym ('p, 'a) ccmd = "('p client, 'a) xcmd"

definition print_out :: "string \<Rightarrow> ('p, unit) ccmd" where
  "print_out text = modify (\<lambda>s. s\<lparr>std_out := std_out s @ text\<rparr>)"

definition print_err :: "string \<Rightarrow> ('p, unit) ccmd" where
  "print_err text = modify (\<lambda>s. s\<lparr>std_err := std_err s @ text\<rparr>)"

definition send_request :: "'p responder \<Rightarrow> Message \<Rightarrow> ('p, unit) ccmd" where
  "send_request respond msg =
     bind_cmd (lift_res (encode msg)) (\<lambda>line.
     modify (\<lambda>s. case respond line (peer s) of (ev, p) \<Rightarrow> s\<lparr>peer := p, pending := pending s @ ev\<rparr>))"

text \<open>
  A new \<open>rio_t\<close> for every reply, on the stack and uninitialised but for
  \<open>rio_readinitb\<close>; the buffer has \<open>MAX_ENCODED_LEN\<close> bytes.
\<close>

definition read_reply :: "rio_t \<Rightarrow> int \<Rightarrow> ('p, int \<times> string) ccmd" where
  "read_reply garbage fd = (\<lambda>s.
     case rio_readlineb MAX_ENCODED_LEN (rio_readinitb fd garbage) (pending s) of (n, buf, rp, inp) \<Rightarrow>
       (Ret (n, buf), s\<lparr>pending := inp\<rparr>))"

definition decode_buf :: "string \<Rightarrow> Message res" where
  "decode_buf buf = (case decode (c_str buf) Message_default of (r, m) \<Rightarrow> bind_res r (\<lambda>_. Ret m))"

section \<open>Operations\<close>

definition handle_possible_ok_response :: "string \<Rightarrow> ('p, int) ccmd" where
  "handle_possible_ok_response buf =
     bind_cmd (lift_res (decode_buf buf)) (\<lambda>response.
     let response_type = get_message_type response in
     if response_type = OK then ret 0
     else if response_type = FAILED \<or> response_type = ERROR
     then bind_cmd (lift_res (get_arg response 0)) (\<lambda>error_message.
          seq_cmd (print_err (''Error: '' @ error_message @ [newline])) (ret (- 1)))
     else seq_cmd (print_err (''Error: confirmation from server not received.'' @ [newline])) (ret (- 1)))"

definition handle_top_response :: "string \<Rightarrow> ('p, int) ccmd" where
  "handle_top_response buf =
     bind_cmd (lift_res (decode_buf buf)) (\<lambda>top_response.
     if get_message_type top_response = DATA
     then (if get_num_args top_response < 1
           then seq_cmd (print_err (''Error: response does not contain necessary information.'' @ [newline]))
                  (ret (- 1))
           else bind_cmd (lift_res (get_arg top_response 0)) (\<lambda>data.
                seq_cmd (print_out (data @ [newline])) (ret 0)))
     else if get_message_type top_response = ERROR \<or> get_message_type top_response = FAILED
     then bind_cmd (lift_res (get_arg top_response 0)) (\<lambda>error_message.
          seq_cmd (print_err (''Error: '' @ error_message @ [newline])) (ret (- 1)))
     else seq_cmd (print_err (''Error: confirmation from server not received.'' @ [newline])) (ret (- 1)))"

definition exchange ::
  "'p responder \<Rightarrow> rio_t \<Rightarrow> int \<Rightarrow> Message \<Rightarrow> (string \<Rightarrow> ('p, int) ccmd) \<Rightarrow> ('p, int) ccmd" where
  "exchange respond garbage fd msg handle =
     seq_cmd (send_request respond msg)
       (bind_cmd (read_reply garbage fd) (\<lambda>(n, buf).
        if n \<le> 0
        then seq_cmd (print_err (''Error: could not read server's response.'' @ [newline])) (ret (- 1))
        else handle buf))"

definition login_operation :: "'p responder \<Rightarrow> rio_t \<Rightarrow> string \<Rightarrow> int \<Rightarrow> ('p, int) ccmd" where
  "login_operation respond garbage username fd =
     exchange respond garbage fd (push_arg username (Message_new LOGIN [])) handle_possible_ok_response"

definition get_operation :: "'p responder \<Rightarrow> rio_t \<Rightarrow> string \<Rightarrow> string \<Rightarrow> int \<Rightarrow> ('p, int) ccmd" where
  "get_operation respond garbage table key fd =
     exchange respond garbage fd (push_arg key (push_arg table (Message_new GET []))) handle_possible_ok_response"

definition top_operation :: "'p responder \<Rightarrow> rio_t \<Rightarrow> int \<Rightarrow> ('p, int) ccmd" where
  "top_operation respond garbage fd = exchange respond garbage fd (Message_new TOP []) handle_top_response"

definition bye_operation :: "'p responder \<Rightarrow> rio_t \<Rightarrow> int \<Rightarrow> ('p, int) ccmd" where
  "bye_operation respond garbage fd =
     exchange respond garbage fd (Message_new BYE []) handle_possible_ok_response"

text \<open>The functions of \<open>set_value.cpp\<close>.\<close>

definition set_value_ok_response :: "string \<Rightarrow> ('p, int) ccmd" where
  "set_value_ok_response buf =
     bind_cmd (lift_res (decode_buf buf)) (\<lambda>response.
     let response_type = get_message_type response in
     if response_type = OK then ret 0
     else if response_type = FAILED \<or> response_type = ERROR
     then bind_cmd (lift_res (get_arg response 0)) (\<lambda>error_message.
          seq_cmd (print_err (''Error: '' @ error_message @ [newline])) (ret (- 1)))
     else seq_cmd (print_err (''Error: confirmation from server not received.'' @ [newline])) (ret (- 1)))"

definition set_value_login_operation :: "'p responder \<Rightarrow> rio_t \<Rightarrow> string \<Rightarrow> int \<Rightarrow> ('p, int) ccmd" where
  "set_value_login_operation respond garbage username fd =
     exchange respond garbage fd (push_arg username (Message_new LOGIN [])) set_value_ok_response"

definition push_operation :: "'p responder \<Rightarrow> rio_t \<Rightarrow> string \<Rightarrow> int \<Rightarrow> ('p, int) ccmd" where
  "push_operation respond garbage value fd =
     exchange respond garbage fd (push_arg value (Message_new PUSH [])) set_value_ok_response"

definition set_operation :: "'p responder \<Rightarrow> rio_t \<Rightarrow> string \<Rightarrow> string \<Rightarrow> int \<Rightarrow> ('p, int) ccmd" where
  "set_operation respond garbage table key fd =
     exchange respond garbage fd (push_arg key (push_arg table (Message_new SET []))) set_value_ok_response"

definition set_value_bye_operation :: "'p responder \<Rightarrow> rio_t \<Rightarrow> int \<Rightarrow> ('p, int) ccmd" where
  "set_value_bye_operation respond garbage fd =
     exchange respond garbage fd (Message_new BYE []) set_value_ok_response"

text \<open>The functions of \<open>incr_value.cpp\<close>.\<close>

definition incr_value_ok_response :: "string \<Rightarrow> ('p, int) ccmd" where
  "incr_value_ok_response buf =
     bind_cmd (lift_res (decode_buf buf)) (\<lambda>response.
     let response_type = get_message_type response in
     if response_type = OK then ret 0
     else if response_type = FAILED \<or> response_type = ERROR
     then bind_cmd (lift_res (get_arg response 0)) (\<lambda>error_message.
          seq_cmd (print_err (''Error: '' @ error_message @ [newline])) (ret (- 1)))
     else seq_cmd (print_err (''Error: confirmation from server not received.'' @ [newline])) (ret (- 1)))"

definition incr_value_login_operation :: "'p responder \<Rightarrow> rio_t \<Rightarrow> string \<Rightarrow> int \<Rightarrow> ('p, int) ccmd" where
  "incr_value_login_operation respond garbage username fd =
     exchange respond garbage fd (push_arg username (Message_new LOGIN [])) incr_value_ok_response"

definition begin_operation :: "'p responder \<Rightarrow> rio_t \<Rightarrow> int \<Rightarrow> ('p, int) ccmd" where
  "begin_operation respond garbage fd =
     exchange respond garbage fd (Message_new BEGIN []) incr_value_ok_response"

definition incr_value_get_operation :: "'p responder \<Rightarrow> rio_t \<Rightarrow> string \<Rightarrow> string \<Rightarrow> int \<Rightarrow> ('p, int) ccmd" where
  "incr_value_get_operation respond garbage table key fd =
     exchange respond garbage fd (push_arg key (push_arg table (Message_new GET []))) incr_value_ok_response"

definition push_one_operation :: "'p responder \<Rightarrow> rio_t \<Rightarrow> int \<Rightarrow> ('p, int) ccmd" where
  "push_one_operation respond garbage fd =
     exchange respond garbage fd (push_arg ''1'' (Message_new PUSH [])) incr_value_ok_response"

definition add_operation :: "'p responder \<Rightarrow> rio_t \<Rightarrow> int \<Rightarrow> ('p, int) ccmd" where
  "add_operation respond garbage fd =
     exchange respond garbage fd (Message_new ADD []) incr_value_ok_response"

definition incr_value_set_operation :: "'p responder \<Rightarrow> rio_t \<Rightarrow> string \<Rightarrow> string \<Rightarrow> int \<Rightarrow> ('p, int) ccmd" where
  "incr_value_set_operation respond garbage table key fd =
     exchange respond garbage fd (push_arg key (push_arg table (Message_new SET []))) incr_value_ok_response"

definition commit_operation :: "'p responder \<Rightarrow> rio_t \<Rightarrow> int \<Rightarrow> ('p, int) ccmd" where
  "commit_operation respond garbage fd =
     exchange respond garbage fd (Message_new COMMIT []) incr_value_ok_response"

text \<open>\<open>bye_operation\<close> of \<open>incr_value.cpp\<close> decodes the reply once more before.\<close>

definition incr_bye_operation :: "'p responder \<Rightarrow> rio_t \<Rightarrow> int \<Rightarrow> ('p, int) ccmd" where
  "incr_bye_operation respond garbage fd =
     exchange respond garbage fd (Message_new BYE [])
       (\<lambda>buf. bind_cmd (lift_res (decode_buf buf)) (\<lambda>bye_response. incr_value_ok_response buf))"

text \<open>What the programs have in common.\<close>

lemma same_responses [simp]:
  "set_value_ok_response = handle_possible_ok_response" "incr_value_ok_response = handle_possible_ok_response"
  by (simp_all add: fun_eq_iff set_value_ok_response_def incr_value_ok_response_def handle_possible_ok_response_def)

lemma same_functions [simp]:
  "set_value_login_operation = login_operation" "incr_value_login_operation = login_operation"
  "set_value_bye_operation = bye_operation" "incr_value_get_operation = get_operation"
  "incr_value_set_operation = set_operation"
  by (simp_all add: fun_eq_iff set_value_login_operation_def incr_value_login_operation_def login_operation_def
      set_value_bye_operation_def bye_operation_def incr_value_get_operation_def get_operation_def
      incr_value_set_operation_def set_operation_def)

section \<open>The programs\<close>

definition check_zero :: "('p, int) ccmd \<Rightarrow> ('p, int) ccmd \<Rightarrow> ('p, int) ccmd" where
  "check_zero m k = bind_cmd m (\<lambda>result. if result \<noteq> 0 then ret 1 else k)"

definition connected ::
  "(string \<Rightarrow> string \<Rightarrow> int) \<Rightarrow> string \<Rightarrow> string \<Rightarrow> (int \<Rightarrow> ('p, int) ccmd) \<Rightarrow> ('p, int) ccmd" where
  "connected open_clientfd hostname port k =
     (let fd = open_clientfd hostname port in
      if fd < 0 then seq_cmd (print_err (''Error: Could not connect to server.'' @ [newline])) (ret 1)
      else k fd)"

definition get_value_main ::
  "(string \<Rightarrow> string \<Rightarrow> int) \<Rightarrow> 'p responder \<Rightarrow> rio_t \<Rightarrow> string list \<Rightarrow> ('p, int) ccmd" where
  "get_value_main open_clientfd respond garbage argv =
     (if length argv \<noteq> 6
      then seq_cmd (print_err (''Usage: ./get_value <hostname> <port> <username> <table> <key>'' @ [newline])) (ret 1)
      else
        connected open_clientfd (argv ! 1) (argv ! 2) (\<lambda>fd.
        check_zero (login_operation respond garbage (argv ! 3) fd)
       (check_zero (get_operation respond garbage (argv ! 4) (argv ! 5) fd)
       (check_zero (top_operation respond garbage fd)
       (check_zero (bye_operation respond garbage fd)
       (ret 0))))))"

definition set_value_main ::
  "(string \<Rightarrow> string \<Rightarrow> int) \<Rightarrow> 'p responder \<Rightarrow> rio_t \<Rightarrow> string list \<Rightarrow> ('p, int) ccmd" where
  "set_value_main open_clientfd respond garbage argv =
     (if length argv \<noteq> 7
      then seq_cmd (print_err (''Usage: ./set_value <hostname> <port> <username> <table> <key> <value>'' @ [newline]))
             (ret 1)
      else
        connected open_clientfd (argv ! 1) (argv ! 2) (\<lambda>fd.
        check_zero (set_value_login_operation respond garbage (argv ! 3) fd)
       (check_zero (push_operation respond garbage (argv ! 6) fd)
       (check_zero (set_operation respond garbage (argv ! 4) (argv ! 5) fd)
       (check_zero (set_value_bye_operation respond garbage fd)
       (ret 0))))))"

definition incr_value_main ::
  "(string \<Rightarrow> string \<Rightarrow> int) \<Rightarrow> 'p responder \<Rightarrow> rio_t \<Rightarrow> string list \<Rightarrow> ('p, int) ccmd" where
  "incr_value_main open_clientfd respond garbage argv =
     (if length argv \<noteq> 6 \<and> (length argv \<noteq> 7 \<or> argv ! 1 \<noteq> ''-t'')
      then seq_cmd (print_err (''Usage: ./incr_value [-t] <hostname> <port> <username> <table> <key>'' @ [newline] @
             ''Options:'' @ [newline] @ ''  -t      execute the increment as a transaction'' @ [newline])) (ret 1)
      else
        let use_transaction = (length argv = 7);
            count = (if use_transaction then 2 else 1)
        in connected open_clientfd (argv ! count) (argv ! (count + 1)) (\<lambda>fd.
        check_zero (incr_value_login_operation respond garbage (argv ! (count + 2)) fd)
       (check_zero (if use_transaction then begin_operation respond garbage fd else ret 0)
       (check_zero (incr_value_get_operation respond garbage (argv ! (count + 3)) (argv ! (count + 4)) fd)
       (check_zero (push_one_operation respond garbage fd)
       (check_zero (add_operation respond garbage fd)
       (check_zero (incr_value_set_operation respond garbage (argv ! (count + 3)) (argv ! (count + 4)) fd)
       (check_zero (if use_transaction then commit_operation respond garbage fd else ret 0)
       (check_zero (incr_bye_operation respond garbage fd)
       (ret 0))))))))))"

section \<open>Exchanges with a peer that answers\<close>

text \<open>A line that the other side reads as it was sent: it fits the buffer there and has no NUL bytes.\<close>

definition reply_line :: "string \<Rightarrow> bool" where
  "reply_line l \<longleftrightarrow>
     l \<noteq> [] \<and> last l = newline \<and> newline \<notin> set (butlast l) \<and> nul \<notin> set l \<and> length l \<le> 1023"

definition quiet :: "read_event list \<Rightarrow> bool" where
  "quiet inp \<longleftrightarrow> clean inp \<and> stream_of inp = []"

lemma stream_of_append: "stream_of (a @ b) = stream_of a @ stream_of b"
  by (induction a rule: stream_of.induct) auto

lemma clean_append: "clean (a @ b) \<longleftrightarrow> clean a \<and> clean b"
  by (auto simp: clean_def)

lemma fresh_rio_ok: "clean inp \<Longrightarrow> rio_ok (rio_readinitb fd g, inp)"
  by (simp add: rio_ok_def rio_wf_def rio_readinitb_def)

lemma fresh_remaining: "remaining (rio_readinitb fd g, inp) = stream_of inp"
  by (simp add: remaining_def buffered_def rio_readinitb_def)

lemma read_reply_run:
  assumes "clean (pending s)" "stream_of (pending s) = l" "reply_line l"
  obtains inp where "read_reply g fd s = (Ret (int (length l), l @ [nul]), s\<lparr>pending := inp\<rparr>)" "quiet inp"
proof -
  have l: "l = butlast l @ [newline]" "newline \<notin> set (butlast l)" "length (butlast l) < 1023"
    using assms(3) append_butlast_last_id [of l] by (auto simp: reply_line_def)
  have "line_upto 1023 l = l"
    using line_upto_line [OF l(2,3), of "[]"] l(1) by simp
  then obtain rp inp where r: "rio_readlineb (Suc 1023) (rio_readinitb fd g) (pending s) =
      (int (length l), l @ [nul], rp, inp)" "rio_ok (rp, inp)" "l = l @ remaining (rp, inp)"
    using rio_readlineb_line [OF fresh_rio_ok [OF assms(1)], of 1023 fd g] assms(2,3)
    by (auto simp: fresh_remaining reply_line_def)
  then have "remaining (rp, inp) = []" by simp
  then have "quiet inp" using r(2) by (simp add: quiet_def rio_ok_def remaining_def)
  moreover have "read_reply g fd s = (Ret (int (length l), l @ [nul]), s\<lparr>pending := inp\<rparr>)"
    using r(1) by (simp add: read_reply_def MAX_ENCODED_LEN_def)
  ultimately show thesis using that by blast
qed

text \<open>
  What the client programs rely on: when the peer is in a state that serves a request, the
  line sent for it is answered by one line, delivered in pieces of any size.
\<close>

locale answering_peer =
  fixes respond :: "'p responder"
    and serves :: "Message \<Rightarrow> 'p \<Rightarrow> string \<Rightarrow> 'p \<Rightarrow> bool"
  assumes serves_sends: "serves msg p l p' \<Longrightarrow> \<exists>line. encode msg = Ret line"
    and serves_answers: "serves msg p l p' \<Longrightarrow> encode msg = Ret line \<Longrightarrow>
      \<exists>ev. respond line p = (ev, p') \<and> clean ev \<and> stream_of ev = l"
    and serves_line: "serves msg p l p' \<Longrightarrow> reply_line l"
begin

lemma exchange_reply:
  assumes "serves msg (peer s) l p'" "quiet (pending s)"
  obtains inp where "exchange respond g fd msg h s = h (l @ [nul]) (s\<lparr>peer := p', pending := inp\<rparr>)" "quiet inp"
proof -
  obtain line ev where e: "encode msg = Ret line" "respond line (peer s) = (ev, p')" "clean ev" "stream_of ev = l"
    using serves_sends [OF assms(1)] serves_answers [OF assms(1)] by blast
  let ?s = "s\<lparr>peer := p', pending := pending s @ ev\<rparr>"
  have "clean (pending ?s)" "stream_of (pending ?s) = l"
    using e assms(2) by (simp_all add: clean_append stream_of_append quiet_def)
  then obtain inp where r: "read_reply g fd ?s = (Ret (int (length l), l @ [nul]), ?s\<lparr>pending := inp\<rparr>)" "quiet inp"
    using read_reply_run serves_line [OF assms(1)] by metis
  have "0 < length l" using serves_line [OF assms(1)] by (simp add: reply_line_def)
  then have "exchange respond g fd msg h s = h (l @ [nul]) (s\<lparr>peer := p', pending := inp\<rparr>)"
    using e r(1) by (simp add: exchange_def send_request_def run_simps)
  with r(2) that show thesis by blast
qed

lemma exchange_ok:
  assumes "serves msg (peer s) ok_line p'" "quiet (pending s)"
  obtains inp where
    "exchange respond g fd msg handle_possible_ok_response s = (Ret 0, s\<lparr>peer := p', pending := inp\<rparr>)" "quiet inp"
proof -
  have "decode_buf (ok_line @ [nul]) = Ret (Message_new OK [])" by code_simp
  then have "handle_possible_ok_response (ok_line @ [nul]) x = (Ret 0, x)" for x :: "'p client"
    by (simp add: handle_possible_ok_response_def run_simps get_message_type_def Message_new_def)
  with exchange_reply [OF assms] that show thesis by metis
qed

text \<open>The reply to an error cannot be decoded, and nobody catches the exception.\<close>

lemma exchange_failed:
  assumes "serves msg (peer s) l p'" "quiet (pending s)" "decode_buf (l @ [nul]) = Throw e"
  shows "\<exists>s'. exchange respond g fd msg handle_possible_ok_response s = (Throw e, s')"
proof -
  obtain inp where "exchange respond g fd msg handle_possible_ok_response s =
      handle_possible_ok_response (l @ [nul]) (s\<lparr>peer := p', pending := inp\<rparr>)"
    by (rule exchange_reply [OF assms(1,2)])
  with assms(3) show ?thesis by (simp add: handle_possible_ok_response_def run_simps)
qed

lemma check_zero_ok:
  assumes "m s = (Ret 0, s')"
  shows "check_zero m k s = k s'"
  using assms by (simp add: check_zero_def run_simps)

end

end
