(* ===== verification/Client_Sessions.thy ===== *)
theory Client_Sessions
  imports Clients
begin

text \<open>
  The client programs against the server. \<open>server_serves\<close> says how the server answers a request; the
  lemmas \<open>session_...\<close> say it for each request of the programs, with what it does to the
  table. The locale \<open>server_peer\<close> is what the programs need of whatever lies between them and
  the server, and has the runs of whole programs.
\<close>

section \<open>The server as the clients see it\<close>

text \<open>
  The request \<open>msg\<close>, as the line that encodes it, is handled by the connection's loop and answered
  by the line \<open>l\<close>. What is in the connection's input is left open.
\<close>

definition server_serves :: "Message \<Rightarrow> world \<Rightarrow> string \<Rightarrow> world \<Rightarrow> bool" where
  "server_serves msg w l w' \<longleftrightarrow>
     (case encode msg of Ret line \<Rightarrow> reply_line line \<and> handle_line (line @ [nul]) w = (Ret (), w') | _ \<Rightarrow> False) \<and>
     loop_in_progress (snd w) \<and> written (snd w') = written (snd w) @ [l] \<and> reply_line l"

text \<open>Requests that the client programs send: words that fit a line, obeying the protocol.\<close>

definition sendable :: "Message \<Rightarrow> bool" where
  "sendable msg \<longleftrightarrow>
     protocol_ok msg \<and> list_all value_ok (m_args msg) \<and> length (m_args msg) \<le> 2 \<and>
     m_message_type msg \<notin> {NONE, FAILED, ERROR} \<and> (\<Sum>a\<leftarrow>m_args msg. Suc (length a)) \<le> 1016"

lemma value_ok_word: "value_ok v \<Longrightarrow> word_arg v"
  by (simp add: value_ok_def word_arg_def word_charD)

lemma value_ok_no_nul: "value_ok v \<Longrightarrow> nul \<notin> set v"
  by (auto simp: value_ok_def list_all_iff word_char_def)

lemma sendable_line:
  assumes "sendable msg"
  obtains line where "encode msg = Ret line" "reply_line line" "\<forall>m0. decode (c_str (line @ [nul])) m0 = (Ret (), msg)"
proof -
  obtain name where name: "type_name (m_message_type msg) = Ret name"
    using assms by (cases "m_message_type msg") (auto simp: sendable_def)
  note nm = type_name_word [OF name]
  let ?line = "message_line name (m_args msg)"
  have len: "length (m_args msg) < 2147483648" using assms by (simp add: sendable_def)
  have enc: "encode msg = Ret ?line"
    using assms nm by (simp add: encode_small [OF name len] message_line_length sendable_def MAX_ENCODED_LEN_def)
  have words: "list_all word_arg (m_args msg)"
    using assms value_ok_word unfolding sendable_def list_all_iff by blast
  have "nul \<notin> set (concat (m_args msg))"
    using assms value_ok_no_nul by (auto simp: sendable_def list_all_iff)
  moreover have "nul \<notin> set name" using nm by (auto simp: list_all_iff word_char_def)
  ultimately have "nul \<notin> set ?line" by (auto simp: message_line_def)
  moreover have "newline \<notin> set name" "\<forall>a\<in>set (m_args msg). newline \<notin> set a"
    using words nm isspace_newline unfolding list_all_iff word_arg_def word_char_def by metis+
  then have "newline \<notin> set (butlast ?line)" by (auto simp: message_line_def butlast_append)
  ultimately have "reply_line ?line"
    using assms nm message_line_length [of name "m_args msg"]
    by (simp add: reply_line_def message_line_def sendable_def)
  moreover from \<open>nul \<notin> set ?line\<close> have "c_str (?line @ [nul]) = ?line"
    unfolding c_str_def by (subst takeWhile_append2) auto
  moreover have "decode ?line m0 = (Ret (), msg)" for m0
    using assms decode_of_encode [OF enc _ words len] by (simp add: sendable_def)
  ultimately show thesis using that [OF enc] by simp
qed

lemma ok_reply: "reply_line ok_line"
  by (simp add: reply_line_def message_line_def)

lemma data_reply: "value_ok v \<Longrightarrow> length v \<le> 1017 \<Longrightarrow> reply_line (data_line v)"
proof -
  assume v: "value_ok v" and len: "length v \<le> 1017"
  have "newline \<notin> set v" "nul \<notin> set v"
    using v by (metis isspace_newline list_all_iff value_ok_def word_char_def)+
  with len show ?thesis by (simp add: reply_line_def message_line_def butlast_append)
qed

lemma serves_login:
  assumes "sendable (Message_new LOGIN [user])" "loop_in_progress c"
  shows "server_serves (Message_new LOGIN [user]) (srv, c) ok_line
    (srv, answer ok_line (c\<lparr>client_msg := Message_new LOGIN [user], first_valid_message := False\<rparr>))"
proof -
  obtain line where "encode (Message_new LOGIN [user]) = Ret line" "reply_line line"
    "\<forall>m0. decode (c_str (line @ [nul])) m0 = (Ret (), Message_new LOGIN [user])"
    using assms(1) by (rule sendable_line)
  then show ?thesis
    using handle_line_login [of "line @ [nul]" c "Message_new LOGIN [user]" srv] ok_reply assms(2)
    by (simp add: server_serves_def Message_new_def)
qed

lemma serves_request:
  assumes "sendable msg" "m_message_type msg \<noteq> LOGIN" "\<not> first_valid_message c" "reply_line l"
    and "call_response_function msg (srv, c\<lparr>client_msg := msg\<rparr>) = (Ret (), (srv', answer l c'))"
    and "written c' = written c" "loop_in_progress c"
  shows "server_serves msg (srv, c) l (srv', answer l c')"
proof -
  obtain line where "encode msg = Ret line" "reply_line line" "\<forall>m0. decode (c_str (line @ [nul])) m0 = (Ret (), msg)"
    using assms(1) by (rule sendable_line)
  then show ?thesis
    using handle_line_request [of "line @ [nul]" c msg srv] assms by (simp add: server_serves_def)
qed

text \<open>A client that is logged in and served, with its stack and whether it is in a transaction.\<close>

definition session :: "world \<Rightarrow> ValueStack \<Rightarrow> bool \<Rightarrow> bool" where
  "session w st tx \<longleftrightarrow>
     conn_ok w \<and> \<not> first_valid_message (snd w) \<and> loop_in_progress (snd w) \<and> stack (snd w) = st \<and> in_transaction (snd w) = tx"

lemma sendable_request: "sendable msg \<Longrightarrow> request_ok msg"
  by (simp add: sendable_def request_ok_def)

lemma session_serves:
  assumes s: "session (srv, c) st tx" and m: "sendable msg" "m_message_type msg \<noteq> LOGIN" and l: "reply_line l"
    and run: "call_response_function msg (srv, c\<lparr>client_msg := msg\<rparr>) = (Ret (), (srv', answer l c'))"
    and w: "written c' = written c"
  shows "server_serves msg (srv, c) l (srv', answer l c') \<and>
    conn_ok (srv', answer l c') \<and> me c' = me c \<and>
    (loop_in_progress c' \<longrightarrow> session (srv', answer l c') (stack c') (in_transaction c'))"
proof -
  let ?c = "c\<lparr>client_msg := msg\<rparr>"
  have c: "conn_ok (srv, c)" "\<not> first_valid_message c" "loop_in_progress c" using s by (simp_all add: session_def)
  have ok: "conn_ok (srv, ?c)" using progress_conn [OF c(1), of ?c] by (simp add: progress_def)
  have "\<not> get_breaks msg (srv, ?c)"
    using get_breaks_faults [OF ok sendable_request [OF m(1)]] run by auto
  from response_ok [OF ok sendable_request [OF m(1)] this] run
  have "step_ok (srv, ?c) (srv', answer l c')" by (simp add: response_ok_def)
  then show ?thesis
    using serves_request [OF m c(2) l run w c(3)] c(2) by (simp add: step_ok_def session_def same_io_def)
qed

lemma session_step:
  assumes "session (srv, c) st tx" "sendable msg" "m_message_type msg \<noteq> LOGIN" "reply_line l"
    and "call_response_function msg (srv, c\<lparr>client_msg := msg\<rparr>) = (Ret (), (srv', answer l c'))"
    and "written c' = written c" "loop_in_progress c' = loop_in_progress c"
  shows "server_serves msg (srv, c) l (srv', answer l c') \<and>
    session (srv', answer l c') (stack c') (in_transaction c') \<and> me c' = me c"
  using session_serves [OF assms(1-6)] assms(1,7) by (simp add: session_def)

lemma session_login:
  assumes "conn_ok (srv, c)" "loop_in_progress c" "sendable (Message_new LOGIN [user])"
  obtains c' where "server_serves (Message_new LOGIN [user]) (srv, c) ok_line (srv, c')"
    "session (srv, c') (stack c) (in_transaction c)" "me c' = me c"
proof -
  let ?c = "answer ok_line (c\<lparr>client_msg := Message_new LOGIN [user], first_valid_message := False\<rparr>)"
  have "conn_ok (srv, ?c)" using progress_conn [OF assms(1), of ?c] by (simp add: progress_def)
  then have "session (srv, ?c) (stack c) (in_transaction c)" using assms(2) by (simp add: session_def)
  then show thesis using that [of ?c] serves_login [OF assms(3,2)] by simp
qed

lemma session_push:
  assumes "session (srv, c) st tx" "sendable (Message_new PUSH [v])"
  obtains c' where "server_serves (Message_new PUSH [v]) (srv, c) ok_line (srv, c')"
    "session (srv, c') (v # st) tx" "me c' = me c"
proof -
  let ?c = "c\<lparr>client_msg := Message_new PUSH [v], stack := v # stack c\<rparr>"
  have "server_serves (Message_new PUSH [v]) (srv, c) ok_line (srv, answer ok_line ?c) \<and>
      session (srv, answer ok_line ?c) (stack ?c) (in_transaction ?c) \<and> me ?c = me c"
    by (rule session_step [OF assms _ ok_reply]) (simp_all add: push_response, simp add: Message_new_def)
  then show thesis using that [of "answer ok_line ?c"] assms(1) by (simp add: session_def)
qed

lemma session_set:
  assumes s: "session (srv, c) (v # st) False" and m: "sendable (Message_new SET [name, key])"
    and p: "find_table name srv = Some p" "t_mutex (heap srv ! p) = None" and len: "length st < 2147483647"
  obtains c' where "server_serves (Message_new SET [name, key]) (srv, c) ok_line
      (at_table p (\<lambda>t. commit_changes (table_set key v t)) srv, c')"
    "session (at_table p (\<lambda>t. commit_changes (table_set key v t)) srv, c') st False" "me c' = me c"
proof -
  let ?m = "Message_new SET [name, key]"
  let ?d = "c\<lparr>client_msg := ?m\<rparr>" and ?c = "c\<lparr>client_msg := ?m, stack := st\<rparr>"
  let ?srv = "at_table p (\<lambda>t. commit_changes (table_set key v t)) srv"
  have c: "conn_ok (srv, c)" "stack c = v # st" "\<not> in_transaction c" using s by (simp_all add: session_def)
  have "handle_set ?m (srv, ?d) = (Ret (), (?srv, answer ok_line (?d\<lparr>stack := st\<rparr>)))"
    using p c(2,3) find_table_valid [OF conn_okD(1) [OF c(1)] p(1)] len
    by (intro handle_set_now) (simp_all add: Message_new_def get_size_small)
  then have run: "call_response_function ?m (srv, ?d) = (Ret (), (?srv, answer ok_line ?c))"
    by (intro call_response_done) (simp_all add: dispatch_def get_message_type_def Message_new_def)
  have "server_serves ?m (srv, c) ok_line (?srv, answer ok_line ?c) \<and>
      session (?srv, answer ok_line ?c) (stack ?c) (in_transaction ?c) \<and> me ?c = me c"
    by (rule session_step [OF s m _ ok_reply run]) (simp_all add: Message_new_def)
  then show thesis using that [of "answer ok_line ?c"] c(3) by simp
qed

lemma session_get:
  assumes s: "session (srv, c) st False" and m: "sendable (Message_new GET [name, key])"
    and p: "find_table name srv = Some p" "t_mutex (heap srv ! p) = None" "table_get key (heap srv ! p) = Ret v"
  obtains c' where "server_serves (Message_new GET [name, key]) (srv, c) ok_line (srv, c')"
    "session (srv, c') (v # st) False" "me c' = me c"
proof -
  let ?m = "Message_new GET [name, key]"
  let ?d = "c\<lparr>client_msg := ?m\<rparr>" and ?c = "c\<lparr>client_msg := ?m, stack := v # stack c\<rparr>"
  have c: "conn_ok (srv, c)" "stack c = st" "\<not> in_transaction c" using s by (simp_all add: session_def)
  have "handle_get ?m (srv, ?d) = (Ret (), (srv, answer ok_line (?d\<lparr>stack := v # stack ?d\<rparr>)))"
    using p c(3) find_table_valid [OF conn_okD(1) [OF c(1)] p(1)]
    by (intro handle_get_now) (simp_all add: Message_new_def)
  then have run: "call_response_function ?m (srv, ?d) = (Ret (), (srv, answer ok_line ?c))"
    by (intro call_response_done) (simp_all add: dispatch_def get_message_type_def Message_new_def)
  have "server_serves ?m (srv, c) ok_line (srv, answer ok_line ?c) \<and>
      session (srv, answer ok_line ?c) (stack ?c) (in_transaction ?c) \<and> me ?c = me c"
    by (rule session_step [OF s m _ ok_reply run]) (simp_all add: Message_new_def)
  then show thesis using that [of "answer ok_line ?c"] c(2,3) by simp
qed

lemma session_top:
  assumes s: "session (srv, c) (v # st) tx" and v: "length v \<le> 1017"
  obtains c' where "server_serves (Message_new TOP []) (srv, c) (data_line v) (srv, c')"
    "session (srv, c') (v # st) tx" "me c' = me c"
proof -
  let ?m = "Message_new TOP []"
  let ?d = "c\<lparr>client_msg := ?m\<rparr>"
  have c: "conn_ok (srv, c)" "stack c = v # st" "in_transaction c = tx" using s by (simp_all add: session_def)
  have m: "sendable ?m" by (simp add: sendable_def Message_new_def protocol_ok_def)
  have "value_ok v" using conn_okD(7) [OF c(1)] c(2) by simp
  then have l: "reply_line (data_line v)" using v by (rule data_reply)
  have run: "call_response_function ?m (srv, ?d) = (Ret (), (srv, answer (data_line v) ?d))"
    using v c(2) by (intro call_response_done) (simp_all add: dispatch_def get_message_type_def Message_new_def handle_top_run)
  have "server_serves ?m (srv, c) (data_line v) (srv, answer (data_line v) ?d) \<and>
      session (srv, answer (data_line v) ?d) (stack ?d) (in_transaction ?d) \<and> me ?d = me c"
    by (rule session_step [OF s m _ l run]) (simp_all add: Message_new_def)
  then show thesis using that [of "answer (data_line v) ?d"] c(2,3) by simp
qed

lemma session_bye:
  assumes s: "session (srv, c) st tx"
  obtains c' where "server_serves (Message_new BYE []) (srv, c) ok_line (srv, c')"
    "conn_ok (srv, c')" "\<not> loop_in_progress c'" "in_transaction c' = tx"
proof -
  let ?m = "Message_new BYE []"
  let ?c = "c\<lparr>client_msg := ?m, loop_in_progress := False\<rparr>"
  have m: "sendable ?m" by (simp add: sendable_def Message_new_def protocol_ok_def)
  have run: "call_response_function ?m (srv, c\<lparr>client_msg := ?m\<rparr>) = (Ret (), (srv, answer ok_line ?c))"
    by (intro call_response_done)
      (simp_all add: dispatch_def get_message_type_def Message_new_def handle_bye_def run_simps)
  have "server_serves ?m (srv, c) ok_line (srv, answer ok_line ?c) \<and>
      conn_ok (srv, answer ok_line ?c)"
    using session_serves [OF s m _ ok_reply run] by (simp add: Message_new_def)
  then show thesis using that [of "answer ok_line ?c"] s by (simp add: session_def)
qed

lemma session_add:
  assumes s: "session (srv, c) (a # b # st) tx" and i: "stoi a = Ret r" "stoi b = Ret l" "in_int (l + r)"
    and len: "length st < 2147483646"
  obtains c' where "server_serves (Message_new ADD []) (srv, c) ok_line (srv, c')"
    "session (srv, c') (to_string (l + r) # st) tx" "me c' = me c"
proof -
  let ?m = "Message_new ADD []"
  let ?d = "c\<lparr>client_msg := ?m\<rparr>" and ?c = "c\<lparr>client_msg := ?m, stack := to_string (l + r) # st\<rparr>"
  have c: "stack ?d = a # b # st" "in_transaction c = tx" using s by (simp_all add: session_def)
  have m: "sendable ?m" by (simp add: sendable_def Message_new_def protocol_ok_def)
  have "2 \<le> get_size (stack ?d)" using len c(1) get_size_small [of "stack ?d"] by simp
  then have run: "call_response_function ?m (srv, ?d) = (Ret (), (srv, answer ok_line ?c))"
    using arith_response(1) [OF c(1) i(1,2)] i(3) by (simp add: int_result_def ok_with_def)
  have "server_serves ?m (srv, c) ok_line (srv, answer ok_line ?c) \<and>
      session (srv, answer ok_line ?c) (stack ?c) (in_transaction ?c) \<and> me ?c = me c"
    by (rule session_step [OF s m _ ok_reply run]) (simp_all add: Message_new_def)
  then show thesis using that [of "answer ok_line ?c"] c(2) by simp
qed

section \<open>Requests of a transaction\<close>

lemma session_begin:
  assumes s: "session (srv, c) st False"
  obtains c' where "server_serves (Message_new BEGIN []) (srv, c) ok_line (srv, c')"
    "session (srv, c') st True" "me c' = me c"
proof -
  let ?m = "Message_new BEGIN []"
  let ?c = "c\<lparr>client_msg := ?m, in_transaction := True\<rparr>"
  have m: "sendable ?m" by (simp add: sendable_def Message_new_def protocol_ok_def)
  have run: "call_response_function ?m (srv, c\<lparr>client_msg := ?m\<rparr>) = (Ret (), (srv, answer ok_line ?c))"
    using s by (subst begin_response) (simp_all add: session_def)
  have "server_serves ?m (srv, c) ok_line (srv, answer ok_line ?c) \<and>
      session (srv, answer ok_line ?c) (stack ?c) (in_transaction ?c) \<and> me ?c = me c"
    by (rule session_step [OF s m _ ok_reply run]) (simp_all add: Message_new_def)
  then show thesis using that [of "answer ok_line ?c"] s by (simp add: session_def)
qed

lemma session_get_tx:
  assumes s: "session (srv, c) st True" and m: "sendable (Message_new GET [name, key])"
    and p: "find_table name srv = Some p" "t_mutex (heap srv ! p) = None" "table_get key (heap srv ! p) = Ret v"
  obtains c' where "server_serves (Message_new GET [name, key]) (srv, c) ok_line
      (at_table p (t_mutex_update (\<lambda>_. Some (me c))) srv, c')"
    "session (at_table p (t_mutex_update (\<lambda>_. Some (me c))) srv, c') (v # st) True" "me c' = me c"
proof -
  let ?m = "Message_new GET [name, key]" and ?srv = "at_table p (t_mutex_update (\<lambda>_. Some (me c))) srv"
  let ?d = "c\<lparr>client_msg := ?m\<rparr>"
  let ?c = "c\<lparr>client_msg := ?m, locked_tables := locked_tables c @ [p], stack := v # stack c\<rparr>"
  have c: "conn_ok (srv, c)" "stack c = st" "in_transaction c" using s by (simp_all add: session_def)
  have pl: "p < length (heap srv)" using find_table_valid [OF conn_okD(1) [OF c(1)] p(1)] .
  have "p \<notin> set (locked_tables c)" using conn_ok_held [OF c(1) pl] p(2) by simp
  then have "handle_get ?m (srv, ?d) = (Ret (), (at_table p (t_mutex_update (\<lambda>_. Some (me ?d))) srv,
      answer ok_line (?d\<lparr>locked_tables := locked_tables ?d @ [p], stack := v # stack ?d\<rparr>)))"
    using p c(3) pl by (intro handle_get_acquire) (simp_all add: Message_new_def)
  then have run: "call_response_function ?m (srv, ?d) = (Ret (), (?srv, answer ok_line ?c))"
    by (intro call_response_done) (simp_all add: dispatch_def get_message_type_def Message_new_def)
  have "server_serves ?m (srv, c) ok_line (?srv, answer ok_line ?c) \<and>
      session (?srv, answer ok_line ?c) (stack ?c) (in_transaction ?c) \<and> me ?c = me c"
    by (rule session_step [OF s m _ ok_reply run]) (simp_all add: Message_new_def)
  then show thesis using that [of "answer ok_line ?c"] c(2,3) by simp
qed

lemma session_set_tx:
  assumes s: "session (srv, c) (v # st) True" and m: "sendable (Message_new SET [name, key])"
    and p: "find_table name srv = Some p" "t_mutex (heap srv ! p) = Some (me c)" and len: "length st < 2147483647"
  obtains c' where "server_serves (Message_new SET [name, key]) (srv, c) ok_line (at_table p (table_set key v) srv, c')"
    "session (at_table p (table_set key v) srv, c') st True" "me c' = me c"
proof -
  let ?m = "Message_new SET [name, key]"
  let ?d = "c\<lparr>client_msg := ?m\<rparr>" and ?c = "c\<lparr>client_msg := ?m, stack := st\<rparr>"
  have c: "conn_ok (srv, c)" "stack c = v # st" "in_transaction c" using s by (simp_all add: session_def)
  have pl: "p < length (heap srv)" using find_table_valid [OF conn_okD(1) [OF c(1)] p(1)] .
  have "p \<in> set (locked_tables c)" using conn_ok_held [OF c(1) pl] p(2) by simp
  then have "handle_set ?m (srv, ?d) = (Ret (), (at_table p (table_set key v) srv, answer ok_line (?d\<lparr>stack := st\<rparr>)))"
    using p c(2,3) pl len by (intro handle_set_held) (simp_all add: Message_new_def get_size_small)
  then have run: "call_response_function ?m (srv, ?d) = (Ret (), (at_table p (table_set key v) srv, answer ok_line ?c))"
    by (intro call_response_done) (simp_all add: dispatch_def get_message_type_def Message_new_def)
  have "server_serves ?m (srv, c) ok_line (at_table p (table_set key v) srv, answer ok_line ?c) \<and>
      session (at_table p (table_set key v) srv, answer ok_line ?c) (stack ?c) (in_transaction ?c) \<and> me ?c = me c"
    by (rule session_step [OF s m _ ok_reply run]) (simp_all add: Message_new_def)
  then show thesis using that [of "answer ok_line ?c"] c(3) by simp
qed

lemma session_commit:
  assumes s: "session (srv, c) st True"
  obtains c' where "server_serves (Message_new COMMIT []) (srv, c) ok_line
      (release_all commit_changes (locked_tables c) srv, c')"
    "session (release_all commit_changes (locked_tables c) srv, c') st False" "me c' = me c"
proof -
  let ?m = "Message_new COMMIT []" and ?srv = "release_all commit_changes (locked_tables c) srv"
  let ?d = "c\<lparr>client_msg := ?m\<rparr>" and ?c = "c\<lparr>client_msg := ?m, locked_tables := [], in_transaction := False\<rparr>"
  have c: "conn_ok (srv, c)" "in_transaction c" using s by (simp_all add: session_def)
  have m: "sendable ?m" by (simp add: sendable_def Message_new_def protocol_ok_def)
  have "conn_ok (srv, ?d)" using progress_conn [OF c(1), of ?d] by (simp add: progress_def)
  then have run: "call_response_function ?m (srv, ?d) = (Ret (), (?srv, answer ok_line ?c))"
    using c(2) by (subst commit_response) simp_all
  have "server_serves ?m (srv, c) ok_line (?srv, answer ok_line ?c) \<and>
      session (?srv, answer ok_line ?c) (stack ?c) (in_transaction ?c) \<and> me ?c = me c"
    by (rule session_step [OF s m _ ok_reply run]) (simp_all add: Message_new_def)
  then show thesis using that [of "answer ok_line ?c"] s by (simp add: session_def)
qed

text \<open>A client that held no table and now owns one holds that one.\<close>

lemma only_table_held:
  assumes "conn_ok (srv, c)" "\<not> in_transaction c" "p < length (heap srv)" "conn_ok (srv', c')" "me c' = me c"
    and "length (heap srv') = length (heap srv)" "t_mutex (heap srv' ! p) = Some (me c)"
    and "\<forall>q<length (heap srv). q \<noteq> p \<longrightarrow> t_mutex (heap srv' ! q) = t_mutex (heap srv ! q)"
  shows "set (locked_tables c') = {p}" "distinct (locked_tables c')"
proof -
  have "t_mutex (heap srv ! q) \<noteq> Some (me c)" if "q < length (heap srv)" for q
    using conn_ok_held [OF assms(1) that] conn_okD(5) [OF assms(1)] assms(2) by auto
  then show "set (locked_tables c') = {p}"
    using assms by (auto simp: conn_ok_def owned_tables_def)
  show "distinct (locked_tables c')" using assms(4) by (simp add: conn_ok_def)
qed

section \<open>What the programs need\<close>

abbreviation client_state :: "'p \<Rightarrow> read_event list \<Rightarrow> string \<Rightarrow> string \<Rightarrow> 'p client" where
  "client_state p inp out err \<equiv> \<lparr>peer = p, pending = inp, std_out = out, std_err = err\<rparr>"

lemma push_arg_new [simp]: "push_arg a (Message_new t args) = Message_new t (args @ [a])"
  by (simp add: push_arg_def Message_new_def)

lemmas client_defs =
  set_value_main_def get_value_main_def incr_value_main_def connected_def login_operation_def push_operation_def
  set_operation_def bye_operation_def get_operation_def top_operation_def add_operation_def
  push_one_operation_def begin_operation_def commit_operation_def Let_def

lemma ok_response: "handle_possible_ok_response (ok_line @ [nul]) x = (Ret 0, x)"
proof -
  have "decode_buf (ok_line @ [nul]) = Ret (Message_new OK [])" by code_simp
  then show ?thesis by (simp add: handle_possible_ok_response_def run_simps get_message_type_def Message_new_def)
qed

lemma decode_data:
  assumes "value_ok v" "length v \<le> 1017"
  shows "decode_buf (data_line v @ [nul]) = Ret (Message_new DATA [v])"
proof -
  let ?m = "Message_new DATA [v]"
  have args: "m_args ?m = [v]" "m_message_type ?m = DATA" by (simp_all add: Message_new_def)
  have enc: "encode ?m = Ret (data_line v)"
    using assms encode_small [of ?m "''DATA''"] args
    by (simp add: value_ok_def message_line_length MAX_ENCODED_LEN_def)
  have "nul \<notin> set (data_line v)" using value_ok_no_nul [OF assms(1)] by (simp add: message_line_def)
  then have "c_str (data_line v @ [nul]) = data_line v"
    unfolding c_str_def by (subst takeWhile_append2) auto
  moreover have "decode (data_line v) Message_default = (Ret (), ?m)"
    using decode_of_encode [OF enc] args value_ok_word [OF assms(1)] by (simp add: protocol_ok_def)
  ultimately show ?thesis by (simp add: decode_buf_def)
qed

lemma sendable_one: "sendable (Message_new PUSH [''1''])"
  by (simp add: sendable_def Message_new_def protocol_ok_def value_ok_def word_char_def isspace_def)

section \<open>Refused requests\<close>

abbreviation unquoted_error :: exn where
  "unquoted_error \<equiv> InvalidMessage ''Message whose type requires a quoted text argument does not contain a quotation.''"

abbreviation table_refusal :: string where
  "table_refusal \<equiv> failed_line ''Could not find table.''"

lemma table_refusal_reply: "reply_line table_refusal" "decode_buf (table_refusal @ [nul]) = Throw unquoted_error"
  by code_simp+

lemma table_refused:
  assumes s: "session (srv, c) st False" and m: "sendable msg" "m_message_type msg \<noteq> LOGIN"
    and run: "dispatch msg (srv, c\<lparr>client_msg := msg\<rparr>) = (Throw table_missing, (srv, c\<lparr>client_msg := msg\<rparr>))"
  shows "server_serves msg (srv, c) table_refusal (srv, answer table_refusal (c\<lparr>client_msg := msg\<rparr>))"
proof -
  let ?c = "c\<lparr>client_msg := msg\<rparr>"
  have c: "conn_ok (srv, c)" "\<not> in_transaction c" using s by (simp_all add: session_def)
  have ok: "conn_ok (srv, ?c)" using progress_conn [OF c(1), of ?c] by (simp add: progress_def)
  have "aborted (srv, ?c) = (srv, ?c)" using c conn_ok_unlocked [OF c] by (intro aborted_idle) simp_all
  then have "call_response_function msg (srv, ?c) = (Ret (), (srv, answer table_refusal ?c))"
    using call_response_failed [OF run _ _ _ ok] by (simp add: failed_with_def)
  then show ?thesis using session_step [OF s m table_refusal_reply(1)] by simp
qed

section \<open>The programs, with any peer that serves as the server does\<close>

text \<open>
  A peer whose state is seen as one of the server and the connection by \<open>view\<close>: from a state that is
  \<open>ready\<close>, whatever the server would serve is served, and the peer is ready again.
\<close>

locale server_peer = answering_peer respond serves
  for respond :: "'p responder" and serves :: "Message \<Rightarrow> 'p \<Rightarrow> string \<Rightarrow> 'p \<Rightarrow> bool" +
  fixes view :: "'p \<Rightarrow> world" and ready :: "'p \<Rightarrow> bool"
  assumes follows: "ready p \<Longrightarrow> server_serves msg (view p) l w \<Longrightarrow> \<exists>p'. serves msg p l p' \<and> view p' = w \<and> ready p'"
begin

text \<open>
  \<open>runs_to k w out err r w' out' err'\<close>: with no bytes pending and the peer at \<open>w\<close>, \<open>k\<close> ends with
  result \<open>r\<close>, no bytes pending, the peer at \<open>w'\<close>, and these outputs.
\<close>

definition runs_to ::
  "('p, int) ccmd \<Rightarrow> world \<Rightarrow> string \<Rightarrow> string \<Rightarrow> int \<Rightarrow> world \<Rightarrow> string \<Rightarrow> string \<Rightarrow> bool" where
  "runs_to k w out err r w' out' err' \<longleftrightarrow>
     (\<forall>p inp. ready p \<and> view p = w \<and> quiet inp \<longrightarrow>
        (\<exists>p' inp'. view p' = w' \<and> quiet inp' \<and>
          k (client_state p inp out err) = (Ret r, client_state p' inp' out' err')))"

lemma runs_to_ret: "runs_to (ret r) w out err r w out err"
  by (auto simp: runs_to_def run_simps)

text \<open>An exchange with the peer, whatever follows it.\<close>

lemma runs_to_exchange:
  assumes s: "server_serves msg w l w1"
    and h: "\<And>p inp. h (l @ [nul]) (client_state p inp out err) = (Ret 0, client_state p inp out1 err1)"
    and k: "runs_to k w1 out1 err1 r w' out' err'"
  shows "runs_to (check_zero (exchange respond g fd msg h) k) w out err r w' out' err'"
  unfolding runs_to_def
proof (intro allI impI; elim conjE)
  fix p inp assume p: "ready p" "view p = w" and q: "quiet inp"
  obtain p1 where p1: "serves msg p l p1" "view p1 = w1" "ready p1" using follows [of p msg l w1] p s by blast
  obtain inp1 where "exchange respond g fd msg h (client_state p inp out err) =
      h (l @ [nul]) (client_state p1 inp1 out err)" "quiet inp1"
    using exchange_reply [of msg "client_state p inp out err" l p1 g fd h] p1(1) q by auto
  then show "\<exists>p' inp'. view p' = w' \<and> quiet inp' \<and>
      check_zero (exchange respond g fd msg h) k (client_state p inp out err) = (Ret r, client_state p' inp' out' err')"
    using h k p1(2,3) by (simp add: check_zero_ok runs_to_def)
qed

lemma runs_to_ok:
  assumes "server_serves msg w ok_line w1" "runs_to k w1 out err r w' out' err'"
  shows "runs_to (check_zero (exchange respond g fd msg handle_possible_ok_response) k) w out err r w' out' err'"
  using assms(1) ok_response assms(2) by (rule runs_to_exchange)

lemma runs_to_top:
  assumes s: "server_serves (Message_new TOP []) w (data_line v) w1" and v: "value_ok v"
    and k: "runs_to k w1 (out @ v @ [newline]) err r w' out' err'"
  shows "runs_to (check_zero (exchange respond g fd (Message_new TOP []) handle_top_response) k) w out err r w' out' err'"
  using s _ k
proof (rule runs_to_exchange)
  fix p inp
  have "length v \<le> 1017" using s by (simp add: server_serves_def reply_line_def message_line_length)
  then have "decode_buf (data_line v @ [nul]) = Ret (Message_new DATA [v])"
    using v by (intro decode_data) 
  then show "handle_top_response (data_line v @ [nul]) (client_state p inp out err) =
      (Ret 0, client_state p inp (out @ v @ [newline]) err)"
    by (simp add: handle_top_response_def run_simps get_message_type_def get_num_args_def get_arg_def
        vec_at_def print_out_def Message_new_def)
qed

lemma runs_to_incr_bye:
  assumes "server_serves (Message_new BYE []) w ok_line w1"
  shows "runs_to (check_zero (incr_bye_operation respond g fd) (ret 0)) w out err 0 w1 out err"
proof -
  have "decode_buf (ok_line @ [nul]) = Ret (Message_new OK [])" by code_simp
  then have "bind_cmd (lift_res (decode_buf (ok_line @ [nul]))) (\<lambda>r. handle_possible_ok_response (ok_line @ [nul]))
      (client_state p inp out err) = (Ret 0, client_state p inp out err)" for p inp
    by (simp add: ok_response run_simps)
  then show ?thesis
    unfolding incr_bye_operation_def same_responses by (intro runs_to_exchange [OF assms _ runs_to_ret])
qed

lemma runs_to_skip: "runs_to k w out err r w' out' err' \<Longrightarrow> runs_to (check_zero (ret 0) k) w out err r w' out' err'"
  by (simp add: runs_to_def check_zero_def run_simps)

lemma set_value_run:
  assumes ok: "conn_ok (srv, c)" "\<not> in_transaction c" "stack c = []" "loop_in_progress c"
    and m: "sendable (Message_new LOGIN [user])" "sendable (Message_new PUSH [v])"
      "sendable (Message_new SET [name, key])"
    and p: "find_table name srv = Some p" "t_mutex (heap srv ! p) = None" and fd: "0 \<le> connect host port"
  shows "\<exists>c'. runs_to (set_value_main connect respond g [prog, host, port, user, name, key, v])
      (srv, c) out err 0 (at_table p (\<lambda>t. commit_changes (table_set key v t)) srv, c') out err \<and>
    conn_ok (at_table p (\<lambda>t. commit_changes (table_set key v t)) srv, c') \<and> \<not> loop_in_progress c'"
proof -
  let ?srv = "at_table p (\<lambda>t. commit_changes (table_set key v t)) srv"
  obtain c1 where 1: "server_serves (Message_new LOGIN [user]) (srv, c) ok_line (srv, c1)" "session (srv, c1) [] False"
    using session_login [OF ok(1,4) m(1)] ok(2,3) by auto
  obtain c2 where 2: "server_serves (Message_new PUSH [v]) (srv, c1) ok_line (srv, c2)" "session (srv, c2) [v] False"
    using session_push [OF 1(2) m(2)] by auto
  obtain c3 where 3: "server_serves (Message_new SET [name, key]) (srv, c2) ok_line (?srv, c3)" "session (?srv, c3) [] False"
    using session_set [OF 2(2) m(3) p] by auto
  obtain c4 where 4: "server_serves (Message_new BYE []) (?srv, c3) ok_line (?srv, c4)" "conn_ok (?srv, c4)" "\<not> loop_in_progress c4"
    using session_bye [OF 3(2)] by auto
  have "runs_to (set_value_main connect respond g [prog, host, port, user, name, key, v])
      (srv, c) out err 0 (?srv, c4) out err"
    using fd by (simp add: client_defs)
      (intro runs_to_ok [OF 1(1)] runs_to_ok [OF 2(1)] runs_to_ok [OF 3(1)] runs_to_ok [OF 4(1)] runs_to_ret)
  with 4(2,3) show ?thesis by auto
qed

lemma get_value_run:
  assumes ok: "conn_ok (srv, c)" "\<not> in_transaction c" "stack c = []" "loop_in_progress c"
    and m: "sendable (Message_new LOGIN [user])" "sendable (Message_new GET [name, key])"
    and p: "find_table name srv = Some p" "t_mutex (heap srv ! p) = None" "table_get key (heap srv ! p) = Ret v"
      "length v \<le> 1017"
    and fd: "0 \<le> connect host port"
  shows "\<exists>c'. runs_to (get_value_main connect respond g [prog, host, port, user, name, key])
      (srv, c) out err 0 (srv, c') (out @ v @ [newline]) err \<and> conn_ok (srv, c') \<and> \<not> loop_in_progress c'"
proof -
  obtain c1 where 1: "server_serves (Message_new LOGIN [user]) (srv, c) ok_line (srv, c1)" "session (srv, c1) [] False"
    using session_login [OF ok(1,4) m(1)] ok(2,3) by auto
  obtain c2 where 2: "server_serves (Message_new GET [name, key]) (srv, c1) ok_line (srv, c2)" "session (srv, c2) [v] False"
    using session_get [OF 1(2) m(2) p(1-3)] by auto
  obtain c3 where 3: "server_serves (Message_new TOP []) (srv, c2) (data_line v) (srv, c3)" "session (srv, c3) [v] False"
    using session_top [OF 2(2) p(4)] by auto
  obtain c4 where 4: "server_serves (Message_new BYE []) (srv, c3) ok_line (srv, c4)" "conn_ok (srv, c4)" "\<not> loop_in_progress c4"
    using session_bye [OF 3(2)] by auto
  have v: "value_ok v" using 3(2) conn_okD(7) by (fastforce simp: session_def)
  have "runs_to (get_value_main connect respond g [prog, host, port, user, name, key])
      (srv, c) out err 0 (srv, c4) (out @ v @ [newline]) err"
    using fd by (simp add: client_defs)
      (intro runs_to_ok [OF 1(1)] runs_to_ok [OF 2(1)] runs_to_top [OF 3(1) v] runs_to_ok [OF 4(1)] runs_to_ret)
  with 4(2,3) show ?thesis by auto
qed

text \<open>The value after an increment outside a transaction.\<close>

lemma incr_value_run:
  assumes ok: "conn_ok (srv, c)" "\<not> in_transaction c" "stack c = []" "loop_in_progress c"
    and m: "sendable (Message_new LOGIN [user])" "sendable (Message_new GET [name, key])"
      "sendable (Message_new SET [name, key])"
    and p: "find_table name srv = Some p" "t_mutex (heap srv ! p) = None" "table_get key (heap srv ! p) = Ret v"
    and i: "stoi v = Ret i" "in_int (i + 1)" and fd: "0 \<le> connect host port"
  shows "\<exists>c'. runs_to (incr_value_main connect respond g [prog, host, port, user, name, key])
      (srv, c) out err 0 (at_table p (\<lambda>t. commit_changes (table_set key (to_string (i + 1)) t)) srv, c') out err \<and>
    conn_ok (at_table p (\<lambda>t. commit_changes (table_set key (to_string (i + 1)) t)) srv, c') \<and> \<not> loop_in_progress c'"
proof -
  let ?srv = "at_table p (\<lambda>t. commit_changes (table_set key (to_string (i + 1)) t)) srv"
  obtain c1 where 1: "server_serves (Message_new LOGIN [user]) (srv, c) ok_line (srv, c1)" "session (srv, c1) [] False"
    using session_login [OF ok(1,4) m(1)] ok(2,3) by auto
  obtain c2 where 2: "server_serves (Message_new GET [name, key]) (srv, c1) ok_line (srv, c2)" "session (srv, c2) [v] False"
    using session_get [OF 1(2) m(2) p] by auto
  obtain c3 where 3: "server_serves (Message_new PUSH [''1'']) (srv, c2) ok_line (srv, c3)"
    "session (srv, c3) [''1'', v] False"
    using session_push [OF 2(2) sendable_one] by auto
  have one: "stoi ''1'' = Ret 1" by code_simp
  obtain c4 where 4: "server_serves (Message_new ADD []) (srv, c3) ok_line (srv, c4)"
    "session (srv, c4) [to_string (i + 1)] False"
    using session_add [OF 3(2) one i] by auto
  obtain c5 where 5: "server_serves (Message_new SET [name, key]) (srv, c4) ok_line (?srv, c5)" "session (?srv, c5) [] False"
    using session_set [OF 4(2) m(3) p(1,2)] by auto
  obtain c6 where 6: "server_serves (Message_new BYE []) (?srv, c5) ok_line (?srv, c6)" "conn_ok (?srv, c6)" "\<not> loop_in_progress c6"
    using session_bye [OF 5(2)] by auto
  have "runs_to (incr_value_main connect respond g [prog, host, port, user, name, key])
      (srv, c) out err 0 (?srv, c6) out err"
    using fd by (simp add: client_defs)
      (intro runs_to_ok [OF 1(1)] runs_to_skip runs_to_ok [OF 2(1)] runs_to_ok [OF 3(1)] runs_to_ok [OF 4(1)]
        runs_to_ok [OF 5(1)] runs_to_incr_bye [OF 6(1)])
  with 6(2,3) show ?thesis by auto
qed

lemma incr_value_tx_run:
  assumes ok: "conn_ok (srv, c)" "\<not> in_transaction c" "stack c = []" "loop_in_progress c"
    and m: "sendable (Message_new LOGIN [user])" "sendable (Message_new GET [name, key])"
      "sendable (Message_new SET [name, key])"
    and p: "find_table name srv = Some p" "t_mutex (heap srv ! p) = None" "table_get key (heap srv ! p) = Ret v"
    and i: "stoi v = Ret i" "in_int (i + 1)" and fd: "0 \<le> connect host port"
  shows "\<exists>c' ps. set ps = {p} \<and> distinct ps \<and>
    (let srv' = release_all commit_changes ps (at_table p (\<lambda>t. table_set key (to_string (i + 1)) (t\<lparr>t_mutex := Some (me c)\<rparr>)) srv)
     in runs_to (incr_value_main connect respond g [prog, ''-t'', host, port, user, name, key])
          (srv, c) out err 0 (srv', c') out err \<and> conn_ok (srv', c') \<and> \<not> loop_in_progress c')"
proof -
  let ?s1 = "at_table p (t_mutex_update (\<lambda>_. Some (me c))) srv"
  let ?s2 = "at_table p (table_set key (to_string (i + 1))) ?s1"
  have pl: "p < length (heap srv)" using find_table_valid [OF conn_okD(1) [OF ok(1)] p(1)] .
  obtain c1 where 1: "server_serves (Message_new LOGIN [user]) (srv, c) ok_line (srv, c1)" "session (srv, c1) [] False"
      "me c1 = me c"
    using session_login [OF ok(1,4) m(1)] ok(2,3) by auto
  obtain c2 where 2: "server_serves (Message_new BEGIN []) (srv, c1) ok_line (srv, c2)" "session (srv, c2) [] True"
      "me c2 = me c"
    using session_begin [OF 1(2)] 1(3) by auto
  obtain c3 where 3: "server_serves (Message_new GET [name, key]) (srv, c2) ok_line (?s1, c3)"
      "session (?s1, c3) [v] True" "me c3 = me c"
    using session_get_tx [OF 2(2) m(2) p] 2(3) by auto
  obtain c4 where 4: "server_serves (Message_new PUSH [''1'']) (?s1, c3) ok_line (?s1, c4)"
      "session (?s1, c4) [''1'', v] True" "me c4 = me c"
    using session_push [OF 3(2) sendable_one] 3(3) by auto
  have one: "stoi ''1'' = Ret 1" by code_simp
  obtain c5 where 5: "server_serves (Message_new ADD []) (?s1, c4) ok_line (?s1, c5)"
      "session (?s1, c5) [to_string (i + 1)] True" "me c5 = me c"
    using session_add [OF 4(2) one i] 4(3) by auto
  have f: "find_table name ?s1 = Some p" "t_mutex (heap ?s1 ! p) = Some (me c5)"
    using p(1) pl 5(3) by simp_all
  obtain c6 where 6: "server_serves (Message_new SET [name, key]) (?s1, c5) ok_line (?s2, c6)"
      "session (?s2, c6) [] True" "me c6 = me c"
    using session_set_tx [OF 5(2) m(3) f] 5(3) by auto
  let ?ps = "locked_tables c6" and ?s3 = "release_all commit_changes (locked_tables c6) ?s2"
  obtain c7 where 7: "server_serves (Message_new COMMIT []) (?s2, c6) ok_line (?s3, c7)" "session (?s3, c7) [] False"
    using session_commit [OF 6(2)] by auto
  obtain c8 where 8: "server_serves (Message_new BYE []) (?s3, c7) ok_line (?s3, c8)" "conn_ok (?s3, c8)" "\<not> loop_in_progress c8"
    using session_bye [OF 7(2)] by auto
  have "runs_to (incr_value_main connect respond g [prog, ''-t'', host, port, user, name, key])
      (srv, c) out err 0 (?s3, c8) out err"
    using fd by (simp add: client_defs)
      (intro runs_to_ok [OF 1(1)] runs_to_ok [OF 2(1)] runs_to_ok [OF 3(1)] runs_to_ok [OF 4(1)] runs_to_ok [OF 5(1)]
        runs_to_ok [OF 6(1)] runs_to_ok [OF 7(1)] runs_to_incr_bye [OF 8(1)])
  moreover note 8(2,3)
  moreover have "?s2 = at_table p (\<lambda>t. table_set key (to_string (i + 1)) (t\<lparr>t_mutex := Some (me c)\<rparr>)) srv"
    using pl by (simp add: at_table_twice)
  moreover have "set ?ps = {p}" "distinct ?ps"
    using only_table_held [OF ok(1,2) pl, of ?s2 c6] 6(2,3) pl by (simp_all add: session_def table_frame)
  ultimately show ?thesis by (metis (no_types, lifting))
qed

text \<open>A program whose next request is refused ends there, by an exception that it does not catch.\<close>

definition aborts :: "('p, int) ccmd \<Rightarrow> world \<Rightarrow> exn \<Rightarrow> bool" where
  "aborts k w ex \<longleftrightarrow>
     (\<forall>p inp. ready p \<and> view p = w \<and> quiet inp \<longrightarrow>
        (\<exists>s'. k (client_state p inp [] []) = (Throw ex, s') \<and> std_out s' = [] \<and> std_err s' = []))"

lemma aborts_refused:
  assumes "server_serves msg w table_refusal w1"
  shows "aborts (check_zero (exchange respond g fd msg handle_possible_ok_response) k) w unquoted_error"
  unfolding aborts_def
proof (intro allI impI; elim conjE)
  fix p inp assume p: "ready p" "view p = w" and q: "quiet inp"
  obtain p1 where "serves msg p table_refusal p1" using follows [of p msg table_refusal w1] p assms by blast
  then obtain inp1 where "exchange respond g fd msg handle_possible_ok_response (client_state p inp [] []) =
      handle_possible_ok_response (table_refusal @ [nul]) (client_state p1 inp1 [] [])"
    using exchange_reply [of msg "client_state p inp [] []" table_refusal p1 g fd] q by auto
  then show "\<exists>s'. check_zero (exchange respond g fd msg handle_possible_ok_response) k (client_state p inp [] []) =
      (Throw unquoted_error, s') \<and> std_out s' = [] \<and> std_err s' = []"
    using table_refusal_reply(2) by (simp add: handle_possible_ok_response_def check_zero_def run_simps)
qed

lemma aborts_ok:
  assumes "server_serves msg w ok_line w1" "aborts k w1 ex"
  shows "aborts (check_zero (exchange respond g fd msg handle_possible_ok_response) k) w ex"
  unfolding aborts_def
proof (intro allI impI; elim conjE)
  fix p inp assume p: "ready p" "view p = w" and q: "quiet inp"
  obtain p1 where p1: "serves msg p ok_line p1" "view p1 = w1" "ready p1" using follows [of p msg ok_line w1] p assms by blast
  obtain inp1 where "exchange respond g fd msg handle_possible_ok_response (client_state p inp [] []) =
      handle_possible_ok_response (ok_line @ [nul]) (client_state p1 inp1 [] [])" "quiet inp1"
    using exchange_reply [of msg "client_state p inp [] []" ok_line p1 g fd] p1(1) q by auto
  then show "\<exists>s'. check_zero (exchange respond g fd msg handle_possible_ok_response) k (client_state p inp [] []) =
      (Throw ex, s') \<and> std_out s' = [] \<and> std_err s' = []"
    using assms(2) p1(2,3) by (simp add: ok_response check_zero_ok aborts_def)
qed

lemma get_value_aborts:
  assumes ok: "conn_ok (srv, c)" "\<not> in_transaction c" "stack c = []" "loop_in_progress c"
    and m: "sendable (Message_new LOGIN [user])" "sendable (Message_new GET [name, key])"
    and t: "find_table name srv = None" and fd: "0 \<le> connect host port"
  shows "aborts (get_value_main connect respond g [prog, host, port, user, name, key]) (srv, c) unquoted_error"
proof -
  obtain c1 where 1: "server_serves (Message_new LOGIN [user]) (srv, c) ok_line (srv, c1)" "session (srv, c1) [] False"
    using session_login [OF ok(1,4) m(1)] ok(2,3) by auto
  have "server_serves (Message_new GET [name, key]) (srv, c1) table_refusal
      (srv, answer table_refusal (c1\<lparr>client_msg := Message_new GET [name, key]\<rparr>))"
    using t by (intro table_refused [OF 1(2) m(2)])
      (simp_all add: dispatch_def get_message_type_def Message_new_def handle_get_table)
  then show ?thesis using fd by (simp add: client_defs) (intro aborts_ok [OF 1(1)] aborts_refused)
qed

lemma set_value_aborts:
  assumes ok: "conn_ok (srv, c)" "\<not> in_transaction c" "stack c = []" "loop_in_progress c"
    and m: "sendable (Message_new LOGIN [user])" "sendable (Message_new PUSH [v])"
      "sendable (Message_new SET [name, key])"
    and t: "find_table name srv = None" and fd: "0 \<le> connect host port"
  shows "aborts (set_value_main connect respond g [prog, host, port, user, name, key, v]) (srv, c) unquoted_error"
proof -
  obtain c1 where 1: "server_serves (Message_new LOGIN [user]) (srv, c) ok_line (srv, c1)" "session (srv, c1) [] False"
    using session_login [OF ok(1,4) m(1)] ok(2,3) by auto
  obtain c2 where 2: "server_serves (Message_new PUSH [v]) (srv, c1) ok_line (srv, c2)" "session (srv, c2) [v] False"
    using session_push [OF 1(2) m(2)] by auto
  have st: "stack c2 = [v]" using 2(2) by (simp add: session_def)
  have "server_serves (Message_new SET [name, key]) (srv, c2) table_refusal
      (srv, answer table_refusal (c2\<lparr>client_msg := Message_new SET [name, key]\<rparr>))"
    using t st by (intro table_refused [OF 2(2) m(3)])
      (simp_all add: dispatch_def get_message_type_def Message_new_def handle_set_table get_size_small)
  then show ?thesis using fd by (simp add: client_defs) (intro aborts_ok [OF 1(1)] aborts_ok [OF 2(1)] aborts_refused)
qed

end

end
