(* ===== verification/Network.thy ===== *)
theory Network
  imports Client_Sessions Disciplines
begin

text \<open>
  A client program and the thread that serves it, with the connection between them. The bytes
  of a line arrive in pieces of any size, in both directions; the server's thread reads them with its
  own \<open>rio_t\<close>, in an iteration of \<open>chat_with_client\<close>. The locale of
  \<open>Client_Sessions\<close> is interpreted here, and the properties of the programs follow.
\<close>

section \<open>The connection\<close>

text \<open>
  How a line is cut into pieces, and where a read is interrupted, is a parameter, for each direction;
  it may depend on all that happened.
\<close>

type_synonym delivery = "world \<Rightarrow> string \<Rightarrow> read_event list"

definition delivers :: "delivery \<Rightarrow> bool" where
  "delivers d \<longleftrightarrow> (\<forall>w l. clean (d w l) \<and> stream_of (d w l) = l)"

definition whole_lines :: delivery where
  "whole_lines w l = (if l = [] then [] else [Bytes l])"

definition byte_by_byte :: delivery where
  "byte_by_byte w l = concat (map (\<lambda>ch. [Interrupted, Bytes [ch]]) l)"

lemma delivers_whole: "delivers whole_lines"
  by (simp add: delivers_def whole_lines_def clean_def)

lemma delivers_bytes: "delivers byte_by_byte"
proof -
  have "clean (byte_by_byte w l) \<and> stream_of (byte_by_byte w l) = l" for w l
    by (induction l) (simp_all add: byte_by_byte_def clean_def)
  then show ?thesis by (simp add: delivers_def)
qed

text \<open>
  One request: its line arrives, the thread goes once through its loop, and what it has sent arrives at
  the client. After the loop has ended nothing is read any more. A thread that ends abnormally answers nothing, and
  the client's read fails.
\<close>

definition net_respond :: "delivery \<Rightarrow> delivery \<Rightarrow> world responder" where
  "net_respond to_server to_client line w =
     (if loop_in_progress (snd w)
      then case chat_iteration (fst w, (snd w)\<lparr>incoming := incoming (snd w) @ to_server w line\<rparr>) of
             (Ret u, w') \<Rightarrow> (concat (map (to_client w') (drop (length (written (snd w))) (written (snd w')))), w')
           | (r, w') \<Rightarrow> ([Read_error], w')
      else ([], w))"

section \<open>An iteration of the loop\<close>

definition drained :: "world \<Rightarrow> bool" where
  "drained w \<longleftrightarrow> rio_ok (m_fdbuf (snd w), incoming (snd w)) \<and> remaining (m_fdbuf (snd w), incoming (snd w)) = []"

text \<open>The state without its input.\<close>

definition seen :: "world \<Rightarrow> world" where
  "seen w = (fst w, with_input example_rio [] (snd w))"

lemma with_input_simps [simp]:
  "with_input b i (with_input b' i' c) = with_input b i c" "m_fdbuf (with_input b i c) = b" "incoming (with_input b i c) = i"
  "me (with_input b i c) = me c" "stack (with_input b i c) = stack c" "in_transaction (with_input b i c) = in_transaction c"
  "loop_in_progress (with_input b i c) = loop_in_progress c" "written (with_input b i c) = written c"
  by (simp_all add: with_input_def)

lemma with_input_same: "m_fdbuf c = b \<Longrightarrow> incoming c = i \<Longrightarrow> with_input b i c = c"
  by (simp add: with_input_def)

lemma conn_ok_input [simp]: "conn_ok (srv, with_input b i c) = conn_ok (srv, c)"
  by (simp add: conn_ok_def with_input_def)

lemma seen_input: "snd (seen w) = with_input example_rio [] (snd w)" "fst (seen w) = fst w"
  by (simp_all add: seen_def)

lemma iteration_handles:
  assumes "drained (srv, c)" "clean ev" "stream_of ev = line" "reply_line line"
  obtains b i where "chat_iteration (srv, c\<lparr>incoming := incoming c @ ev\<rparr>) =
      result_with_input b i (handle_line (line @ [nul]) (seen (srv, c)))" "rio_ok (b, i)" "remaining (b, i) = []"
proof -
  let ?c = "c\<lparr>incoming := incoming c @ ev\<rparr>" and ?l = "butlast line"
  have line: "line = ?l @ [newline]" "newline \<notin> set ?l" "length ?l + 2 \<le> 1024"
    using assms(4) append_butlast_last_id [of line] by (auto simp: reply_line_def)
  have "rio_ok (m_fdbuf ?c, incoming ?c)"
    using assms(1,2) by (simp add: drained_def rio_ok_def clean_append)
  moreover have "remaining (m_fdbuf ?c, incoming ?c) = ?l @ newline # []"
    using assms(1,3) line(1) by (simp add: drained_def remaining_def stream_of_append)
  ultimately obtain b i where it: "chat_iteration (srv, ?c) = handle_line (?l @ [newline, nul]) (srv, ?c\<lparr>m_fdbuf := b, incoming := i\<rparr>)"
    and io: "rio_ok (b, i)" "remaining (b, i) = []"
    using chat_iteration_reads [OF _ _ line(2,3)] by metis
  have "?c\<lparr>m_fdbuf := b, incoming := i\<rparr> = with_input b i (with_input example_rio [] c)"
    by (simp add: with_input_def)
  moreover have "?l @ [newline, nul] = line @ [nul]" using line(1) by (metis append_Cons append_Nil append_assoc)
  ultimately have "chat_iteration (srv, ?c) = result_with_input b i (handle_line (line @ [nul]) (seen (srv, c)))"
    unfolding it seen_def by (simp only: handle_line_input fst_conv snd_conv)
  then show thesis using io by (rule that)
qed

definition net_ready :: "delivery \<Rightarrow> delivery \<Rightarrow> world \<Rightarrow> bool" where
  "net_ready to_server to_client w \<longleftrightarrow> delivers to_server \<and> delivers to_client \<and> drained w"

definition net_serves :: "delivery \<Rightarrow> delivery \<Rightarrow> Message \<Rightarrow> world \<Rightarrow> string \<Rightarrow> world \<Rightarrow> bool" where
  "net_serves to_server to_client msg w l w' \<longleftrightarrow>
     net_ready to_server to_client w \<and> server_serves msg (seen w) l (seen w') \<and>
     (\<forall>line. encode msg = Ret line \<longrightarrow> snd (net_respond to_server to_client line w) = w')"

lemma serves_seen:
  assumes "server_serves msg (seen w) l w1"
  obtains line where "encode msg = Ret line" "reply_line line" "handle_line (line @ [nul]) (seen w) = (Ret (), w1)"
    "loop_in_progress (snd w)" "written (snd w1) = written (snd w) @ [l]" "with_input example_rio [] (snd w1) = snd w1"
proof -
  obtain line where line: "encode msg = Ret line" "reply_line line" "handle_line (line @ [nul]) (seen w) = (Ret (), w1)"
    using assms by (auto simp: server_serves_def split: outcome.splits)
  have "io_is example_rio [] w1"
    using keepsD [OF keeps_handle_line, of example_rio "[]" "seen w"] line(3) by (simp add: io_is_def seen_input)
  then have "with_input example_rio [] (snd w1) = snd w1" by (simp add: io_is_def with_input_same)
  with line that assms show thesis by (simp add: server_serves_def seen_input)
qed

lemma net_respond_serves:
  assumes "net_ready ts tc w" "server_serves msg (seen w) l w1" "encode msg = Ret line"
  obtains ev w' where "net_respond ts tc line w = (ev, w')" "clean ev" "stream_of ev = l" "seen w' = w1" "net_ready ts tc w'"
proof -
  from assms(3) serves_seen [OF assms(2)] have h: "reply_line line" "handle_line (line @ [nul]) (seen w) = (Ret (), w1)"
    "loop_in_progress (snd w)" "written (snd w1) = written (snd w) @ [l]" "with_input example_rio [] (snd w1) = snd w1"
    by (metis outcome.inject(1))+
  have d: "delivers ts" "delivers tc" "drained (fst w, snd w)" using assms(1) by (simp_all add: net_ready_def)
  obtain b i where it: "chat_iteration (fst w, (snd w)\<lparr>incoming := incoming (snd w) @ ts w line\<rparr>) =
      result_with_input b i (handle_line (line @ [nul]) (seen w))" and io: "rio_ok (b, i)" "remaining (b, i) = []"
    using iteration_handles [OF d(3) _ _ h(1), of "ts w line"] d(1) unfolding delivers_def prod.collapse by blast
  let ?w = "(fst w1, with_input b i (snd w1))"
  have "net_respond ts tc line w = (tc ?w l, ?w)"
    using h(2-4) by (simp add: net_respond_def it result_with_input_def)
  moreover have "seen ?w = w1" using h(5) by (simp add: seen_def)
  moreover have "net_ready ts tc ?w" using d io by (simp add: net_ready_def drained_def)
  moreover have "clean (tc ?w l)" "stream_of (tc ?w l) = l" using d(2) by (simp_all add: delivers_def)
  ultimately show thesis using that by blast
qed

interpretation np: server_peer "net_respond ts tc" "net_serves ts tc" seen "net_ready ts tc" for ts tc
proof
  fix msg l line and p p' :: world
  assume s: "net_serves ts tc msg p l p'"
  then show "\<exists>line. encode msg = Ret line" by (simp add: net_serves_def server_serves_def split: outcome.splits)
  from s show "reply_line l" by (simp add: net_serves_def server_serves_def)
  assume e: "encode msg = Ret line"
  with s show "\<exists>ev. net_respond ts tc line p = (ev, p') \<and> clean ev \<and> stream_of ev = l"
    unfolding net_serves_def using net_respond_serves [of ts tc p msg l _ line] by (metis snd_conv)
next
  fix p w :: world and msg l
  assume r: "net_ready ts tc p" and s: "server_serves msg (seen p) l w"
  obtain line where e: "encode msg = Ret line" by (rule serves_seen [OF s])
  obtain ev p' where "net_respond ts tc line p = (ev, p')" "seen p' = w" "net_ready ts tc p'"
    by (rule net_respond_serves [OF r s e])
  with r s e show "\<exists>p'. net_serves ts tc msg p l p' \<and> seen p' = w \<and> net_ready ts tc p'"
    by (intro exI [of _ p']) (simp add: net_serves_def)
qed

section \<open>Properties of the client programs\<close>

text \<open>The table is free, the new connection's thread holds none, and the words fit the protocol.\<close>

definition can_use :: "Server \<Rightarrow> thread_id \<Rightarrow> string \<Rightarrow> table_ptr \<Rightarrow> string \<Rightarrow> string \<Rightarrow> bool" where
  "can_use srv thread name p key user \<longleftrightarrow>
     server_ok srv \<and> list_all (\<lambda>t. t_mutex t \<noteq> Some thread) (heap srv) \<and> find_table name srv = Some p \<and>
     t_mutex (heap srv ! p) = None \<and> sendable (Message_new LOGIN [user]) \<and>
     sendable (Message_new SET [name, key])"

text \<open>A client that has connected, and the new thread that serves it.\<close>

definition new_client :: "Server \<Rightarrow> thread_id \<Rightarrow> int \<Rightarrow> rio_t \<Rightarrow> world client" where
  "new_client srv thread fd garbage = client_state (srv, ClientConnection_new thread fd garbage []) [] [] []"

abbreviation new_seen :: "thread_id \<Rightarrow> int \<Rightarrow> rio_t \<Rightarrow> ClientConnection" where
  "new_seen thread fd garbage \<equiv> with_input example_rio [] (ClientConnection_new thread fd garbage [])"

text \<open>The server after one key was given a value: the rest as before, every lock released.\<close>

definition stored :: "table_ptr \<Rightarrow> string \<Rightarrow> string \<Rightarrow> Server \<Rightarrow> Server \<Rightarrow> bool" where
  "stored p key v srv srv' \<longleftrightarrow>
     table_names srv' = table_names srv \<and> length (heap srv') = length (heap srv) \<and>
     committed (heap srv' ! p) = (committed (heap srv ! p))(key \<mapsto> v) \<and> t_mutex (heap srv' ! p) = None \<and>
     (\<forall>q. q \<noteq> p \<longrightarrow> heap srv' ! q = heap srv ! q)"

lemma can_useD:
  assumes "can_use srv thread name p key user"
  shows "conn_ok (srv, new_seen thread fd cg)" "p < length (heap srv)"
    "sendable (Message_new GET [name, key])" "table_ok (heap srv ! p)"
proof -
  show "conn_ok (srv, new_seen thread fd cg)"
    using assms conn_ok_new [of srv thread fd cg] by (simp add: can_use_def list_all_length)
  show "p < length (heap srv)" using assms find_table_valid by (auto simp: can_use_def server_ok_def)
  then show "table_ok (heap srv ! p)" using assms by (simp add: can_use_def server_ok_def list_all_length)
  show "sendable (Message_new GET [name, key])"
    using assms by (simp add: can_use_def sendable_def Message_new_def protocol_ok_def)
qed

lemma committed_set_commit:
  assumes "table_ok t" "t_mutex t = None"
  shows "committed (commit_changes (table_set k v (t\<lparr>t_mutex := m\<rparr>))) = (committed t)(k \<mapsto> v)"
proof -
  have "table_wf (t\<lparr>t_mutex := m\<rparr>)" "proposed (t\<lparr>t_mutex := m\<rparr>) = proposed t" "committed (t\<lparr>t_mutex := m\<rparr>) = committed t"
    using assms(1) by (simp_all add: table_ok_def table_wf_def proposed_def committed_def)
  moreover have "committed t ++ proposed t = committed t"
    using assms by (intro map_add_subsumed2) (simp add: table_ok_def)
  ultimately show ?thesis by (simp add: ts.base_commit ts.wf_put ts.base_put ts.pending_put)
qed

lemma committed_mutex: "committed (t\<lparr>t_mutex := m\<rparr>) = committed t"
  by (simp add: committed_def)

lemma at_table_other: "q \<noteq> p \<Longrightarrow> heap (at_table p f srv) ! q = heap srv ! q"
  by (simp add: at_table_def)

lemma stored_now:
  assumes "can_use srv thread name p key user"
  shows "stored p key v srv (at_table p (\<lambda>t. commit_changes (table_set key v t)) srv)"
proof -
  have "(heap srv ! p)\<lparr>t_mutex := None\<rparr> = heap srv ! p" using assms by (simp add: can_use_def)
  then show ?thesis
    using assms can_useD(2,4) [OF assms] committed_set_commit [of "heap srv ! p" key v None]
    by (simp add: stored_def can_use_def table_frame at_table_other)
qed

lemma stored_released:
  assumes "can_use srv thread name p key user" "set ps = {p}" "distinct ps"
  shows "stored p key v srv (release_all commit_changes ps (at_table p (\<lambda>t. table_set key v (t\<lparr>t_mutex := m\<rparr>)) srv))"
  using assms can_useD(2,4) [OF assms(1)] committed_set_commit [of "heap srv ! p" key v m]
  by (simp add: stored_def can_use_def table_frame release_all_nth committed_mutex at_table_other)

text \<open>From the run of a program as it is seen to the one over the connection.\<close>

lemma new_ready:
  assumes "delivers ts" "delivers tc"
  shows "net_ready ts tc (srv, ClientConnection_new thread fd cg [])"
    "seen (srv, ClientConnection_new thread fd cg []) = (srv, new_seen thread fd cg)" "quiet []"
  using assms fresh_rio_ok [of "[]" fd cg] fresh_remaining [of fd cg "[]"]
  by (simp_all add: net_ready_def drained_def seen_def ClientConnection_new_def quiet_def clean_def)

text \<open>
  The program exits with status 0 and this text on its standard output, and nothing on the other; the server is left as
  \<open>srv'\<close>, in order, and the thread that served the program has left its loop.
\<close>

definition ends_well :: "(world, int) ccmd \<Rightarrow> world client \<Rightarrow> Server \<Rightarrow> string \<Rightarrow> bool" where
  "ends_well k s srv' out \<longleftrightarrow>
     (\<exists>c' inp. k s = (Ret 0, client_state (srv', c') inp out []) \<and> conn_ok (srv', c') \<and> \<not> loop_in_progress c')"

lemma runs_to_new:
  assumes "delivers ts" "delivers tc" "np.runs_to ts tc k (srv, new_seen thread fd cg) [] [] 0 (srv', c1) out []"
    and "conn_ok (srv', c1)" "\<not> loop_in_progress c1"
  shows "ends_well k (new_client srv thread fd cg) srv' out"
proof -
  note n = new_ready [OF assms(1,2)]
  obtain p' inp where p: "seen p' = (srv', c1)" "k (new_client srv thread fd cg) = (Ret 0, client_state p' inp out [])"
    using assms(3) n unfolding np.runs_to_def new_client_def by blast
  then have "fst p' = srv'" "with_input example_rio [] (snd p') = c1" by (simp_all add: seen_def)
  then have "conn_ok (srv', snd p')" "\<not> loop_in_progress (snd p')" "p' = (srv', snd p')"
    using assms(4,5) conn_ok_input [of srv' example_rio "[]" "snd p'"] by (auto simp: prod_eq_iff)
  with p(2) show ?thesis unfolding ends_well_def by (metis (no_types, lifting))
qed

text \<open>The server is in order for the next client.\<close>

lemma ends_well_ok: "ends_well k s srv' out \<Longrightarrow> server_ok srv'"
  by (auto simp: ends_well_def dest: conn_ok_server_ok)

lemma can_use_after:
  assumes "can_use srv thread name p key user" "stored p key v srv srv'" "ends_well k s srv' out"
  shows "can_use srv' thread name p key user"
proof -
  have "t_mutex (heap srv' ! q) \<noteq> Some thread" if "q < length (heap srv')" for q
    using assms(1,2) that by (cases "q = p") (auto simp: can_use_def stored_def list_all_length)
  then have "list_all (\<lambda>t. t_mutex t \<noteq> Some thread) (heap srv')" by (simp add: list_all_length)
  moreover have "find_table name srv' = find_table name srv"
    using assms(2) by (simp add: stored_def find_table_def)
  ultimately show ?thesis
    using assms(1,2) ends_well_ok [OF assms(3)] by (simp add: can_use_def stored_def)
qed

lemma stored_again: "stored p key v srv s1 \<Longrightarrow> stored p key w s1 s2 \<Longrightarrow> stored p key w srv s2"
  by (auto simp: stored_def)

lemma set_value_ends:
  assumes "delivers ts" "delivers tc" "can_use srv thread name p key user" "sendable (Message_new PUSH [v])"
    and "0 \<le> connect host port"
  shows "ends_well (set_value_main connect (net_respond ts tc) g [prog, host, port, user, name, key, v])
      (new_client srv thread fd cg) (at_table p (\<lambda>t. commit_changes (table_set key v t)) srv) []"
proof -
  note u = can_useD [OF assms(3)]
  obtain c1 where r: "np.runs_to ts tc (set_value_main connect (net_respond ts tc) g [prog, host, port, user, name, key, v])
      (srv, new_seen thread fd cg) [] [] 0 (at_table p (\<lambda>t. commit_changes (table_set key v t)) srv, c1) [] []"
    "conn_ok (at_table p (\<lambda>t. commit_changes (table_set key v t)) srv, c1)" "\<not> loop_in_progress c1"
    using np.set_value_run [where user = user and name = name and key = key and v = v and p = p and connect = connect and
      host = host and port = port and ts = ts and tc = tc and g = g and prog = prog and out = "[]" and err = "[]", OF u(1)] assms
    by (auto simp: can_use_def)
  show ?thesis by (rule runs_to_new [OF assms(1,2) r])
qed

text \<open>
  \<open>get_value\<close> on a free table that has the key prints the value and a newline on the standard
  output and changes no table. The value may have at most 1017 bytes, the longest that fits the client's buffer.
\<close>

theorem get_value_prints:
  assumes "delivers ts" "delivers tc" "can_use srv thread name p key user" "committed (heap srv ! p) key = Some v"
    and "length v \<le> 1017" "0 \<le> connect host port"
  shows "ends_well (get_value_main connect (net_respond ts tc) g [prog, host, port, user, name, key])
      (new_client srv thread fd cg) srv (v @ [newline])"
proof -
  note u = can_useD [OF assms(3)]
  have "table_get key (heap srv ! p) = Ret v"
    using assms(4) by (intro ts.read_present) simp
  then obtain c1 where r: "np.runs_to ts tc (get_value_main connect (net_respond ts tc) g [prog, host, port, user, name, key])
      (srv, new_seen thread fd cg) [] [] 0 (srv, c1) (v @ [newline]) []" "conn_ok (srv, c1)" "\<not> loop_in_progress c1"
    using np.get_value_run [where user = user and name = name and key = key and v = v and p = p and connect = connect and
      host = host and port = port and ts = ts and tc = tc and g = g and prog = prog and out = "[]" and err = "[]", OF u(1)] assms u(3)
    by (auto simp: can_use_def)
  show ?thesis by (rule runs_to_new [OF assms(1,2) r])
qed

lemma incr_value_ends:
  assumes "delivers ts" "delivers tc" "can_use srv thread name p key user" "committed (heap srv ! p) key = Some v"
    and "stoi v = Ret i" "in_int (i + 1)" "0 \<le> connect host port" "opts \<in> {[], [''-t'']}"
  obtains srv' where "ends_well (incr_value_main connect (net_respond ts tc) g (prog # opts @ [host, port, user, name, key]))
      (new_client srv thread fd cg) srv' []" "stored p key (to_string (i + 1)) srv srv'"
proof -
  note u = can_useD [OF assms(3)]
  let ?c = "new_seen thread fd cg"
  let ?main = "incr_value_main connect (net_respond ts tc) g (prog # opts @ [host, port, user, name, key])"
  have get: "table_get key (heap srv ! p) = Ret v" using assms(4) by (intro ts.read_present) simp
  have c: "\<not> in_transaction ?c" "stack ?c = []" "loop_in_progress ?c" by simp_all
  have s: "sendable (Message_new LOGIN [user])" "sendable (Message_new SET [name, key])"
    "find_table name srv = Some p" "t_mutex (heap srv ! p) = None"
    using assms(3) by (simp_all add: can_use_def)
  note args = u(1) c s(1) u(3) s(2-4) get assms(5-7)
  have "\<exists>srv' c'. np.runs_to ts tc ?main (srv, ?c) [] [] 0 (srv', c') [] [] \<and> stored p key (to_string (i + 1)) srv srv' \<and>
    conn_ok (srv', c') \<and> \<not> loop_in_progress c'"
  proof (cases "opts = []")
    case True
    then show ?thesis
      using np.incr_value_run [where connect = connect and host = host and port = port and ts = ts and tc = tc and g = g and
        prog = prog and out = "[]" and err = "[]", OF args] stored_now [OF assms(3)] by auto
  next
    case False
    with assms(8) show ?thesis
      using np.incr_value_tx_run [where connect = connect and host = host and port = port and ts = ts and tc = tc and g = g and
        prog = prog and out = "[]" and err = "[]", OF args] stored_released [OF assms(3)] by (simp add: Let_def) metis
  qed
  then show thesis using runs_to_new [OF assms(1,2)] that by blast
qed

text \<open>
  \<open>set_value\<close>, run against the server over a connection that cuts the lines into pieces in any
  way, on a free table, exits with status 0 without printing anything, and the key has the given
  value in the table, committed and with the table unlocked; every other key and table is as
  before, and the thread that served the client has left its loop.
\<close>

theorem set_value_stores:
  assumes "delivers ts" "delivers tc" "can_use srv thread name p key user" "sendable (Message_new PUSH [v])"
    and "0 \<le> connect host port"
  shows "\<exists>srv'. ends_well (set_value_main connect (net_respond ts tc) g [prog, host, port, user, name, key, v])
      (new_client srv thread fd cg) srv' [] \<and> stored p key v srv srv'"
  using set_value_ends [where connect = connect, OF assms] stored_now [OF assms(3)] by blast

text \<open>
  \<open>incr_value\<close>, with and without \<open>-t\<close>, run against the server over such a connection, on a free
  table whose key holds the decimal number \<open>i\<close>, exits with status 0 without printing
  anything and leaves the decimal text of \<open>i + 1\<close> at the key, committed, every other
  key and table as before and no table locked. The sum must be an \<open>int\<close>.
\<close>

theorem incr_value_increments:
  assumes "delivers ts" "delivers tc" "can_use srv thread name p key user" "committed (heap srv ! p) key = Some v"
    and "stoi v = Ret i" "in_int (i + 1)" "0 \<le> connect host port" "opts \<in> {[], [''-t'']}"
  shows "\<exists>srv'. ends_well (incr_value_main connect (net_respond ts tc) g (prog # opts @ [host, port, user, name, key]))
      (new_client srv thread fd cg) srv' [] \<and> stored p key (to_string (i + 1)) srv srv'"
  by (rule incr_value_ends [where connect = connect, OF assms]) blast

text \<open>
  C20. The three programs one after the other, each on a connection of its own: after \<open>set_value\<close> with the decimal
  text of \<open>i\<close> and \<open>incr_value\<close>, with or without \<open>-t\<close>, \<open>get_value\<close> prints the
  decimal text of \<open>i + 1\<close>. Each exits with status 0 and leaves the server in order for the next, and the
  whole has changed the one key and nothing else.
\<close>

theorem programs_in_sequence:
  assumes "delivers ts" "delivers tc" "list_all (\<lambda>t. can_use srv t name p key user) [t1, t2, t3]"
    and "sendable (Message_new PUSH [v])" "stoi v = Ret i" "in_int (i + 1)"
    and "0 \<le> connect host port" "opts \<in> {[], [''-t'']}"
  shows "\<exists>s1 s2.
    ends_well (set_value_main connect (net_respond ts tc) g [prog1, host, port, user, name, key, v])
      (new_client srv t1 fd1 cg1) s1 [] \<and>
    ends_well (incr_value_main connect (net_respond ts tc) g (prog2 # opts @ [host, port, user, name, key]))
      (new_client s1 t2 fd2 cg2) s2 [] \<and>
    ends_well (get_value_main connect (net_respond ts tc) g [prog3, host, port, user, name, key])
      (new_client s2 t3 fd3 cg3) s2 (to_string (i + 1) @ [newline]) \<and>
    stored p key (to_string (i + 1)) srv s2"
proof -
  have u: "can_use srv t1 name p key user" "can_use srv t2 name p key user" "can_use srv t3 name p key user"
    using assms(3) by simp_all
  let ?s1 = "at_table p (\<lambda>t. commit_changes (table_set key v t)) srv"
  have 1: "ends_well (set_value_main connect (net_respond ts tc) g [prog1, host, port, user, name, key, v])
      (new_client srv t1 fd1 cg1) ?s1 []"
    by (rule set_value_ends [where connect = connect, OF assms(1,2) u(1) assms(4,7)])
  note st1 = stored_now [OF u(1), of v]
  have v: "committed (heap ?s1 ! p) key = Some v" using st1 unfolding stored_def by simp
  obtain s2 where 2: "ends_well (incr_value_main connect (net_respond ts tc) g (prog2 # opts @ [host, port, user, name, key]))
      (new_client ?s1 t2 fd2 cg2) s2 []" and st2: "stored p key (to_string (i + 1)) ?s1 s2"
    by (rule incr_value_ends [where connect = connect, OF assms(1,2) can_use_after [OF u(2) st1 1] v assms(5-8)])
  have w: "committed (heap s2 ! p) key = Some (to_string (i + 1))" using st2 unfolding stored_def by simp
  have len: "length (to_string (i + 1)) \<le> 1017" using to_string_length [OF assms(6)] by simp
  note u3 = can_use_after [OF can_use_after [OF u(3) st1 1] st2 2]
  have 3: "ends_well (get_value_main connect (net_respond ts tc) g [prog3, host, port, user, name, key])
      (new_client s2 t3 fd3 cg3) s2 (to_string (i + 1) @ [newline])"
    by (rule get_value_prints [where connect = connect, OF assms(1,2) u3 w len assms(7)])
  from 1 2 3 stored_again [OF st1 st2] show ?thesis by blast
qed

text \<open>
  C39. When the table does not exist the server refuses the request, and \<open>get_value\<close> and
  \<open>set_value\<close> cannot read the refusal: they end by an \<open>InvalidMessage\<close> exception
  that leaves \<open>main\<close>, with nothing on the standard output and without the
  \<open>Error:\<close> line and exit status 1 that the code for a \<open>FAILED\<close> reply is written for.
\<close>

theorem refused_client_aborts:
  assumes "delivers ts" "delivers tc" "conn_ok (srv, ClientConnection_new thread fd cg [])" "find_table name srv = None"
    and "sendable (Message_new LOGIN [user])" "sendable (Message_new PUSH [v])" "sendable (Message_new SET [name, key])"
    and "0 \<le> connect host port"
  shows "(\<exists>s'. get_value_main connect (net_respond ts tc) g [prog, host, port, user, name, key] (new_client srv thread fd cg) =
      (Throw unquoted_error, s') \<and> std_out s' = [] \<and> std_err s' = []) \<and>
    (\<exists>s'. set_value_main connect (net_respond ts tc) g [prog, host, port, user, name, key, v] (new_client srv thread fd cg) =
      (Throw unquoted_error, s') \<and> std_out s' = [] \<and> std_err s' = [])"
proof -
  note n = new_ready [OF assms(1,2)]
  have g: "sendable (Message_new GET [name, key])"
    using assms(7) by (simp add: sendable_def Message_new_def protocol_ok_def)
  have c: "conn_ok (srv, new_seen thread fd cg)" "\<not> in_transaction (new_seen thread fd cg)" "stack (new_seen thread fd cg) = []"
    "loop_in_progress (new_seen thread fd cg)" using assms(3) by simp_all
  have "np.aborts ts tc (get_value_main connect (net_respond ts tc) g [prog, host, port, user, name, key])
      (srv, new_seen thread fd cg) unquoted_error"
    "np.aborts ts tc (set_value_main connect (net_respond ts tc) g [prog, host, port, user, name, key, v])
      (srv, new_seen thread fd cg) unquoted_error"
    using assms(8) np.get_value_aborts [OF c assms(5) g assms(4), of connect] np.set_value_aborts [OF c assms(5-7,4), of connect]
    by blast+
  then show ?thesis using n unfolding np.aborts_def new_client_def by blast
qed

section \<open>Examples\<close>

definition example_stock :: Server where
  "example_stock = at_table 0 (\<lambda>t. commit_changes (table_set ''pears'' ''41'' t)) example_server"

lemma example_sendable:
  "sendable (Message_new LOGIN [''ann''])" "sendable (Message_new PUSH [''41''])"
  "sendable (Message_new SET [''fruit'', ''pears''])"
  by code_simp+

lemma example_can_use: "can_use example_server t ''fruit'' 0 ''pears'' ''ann''"
  using conn_ok_server_ok [OF example_ok] example_sendable by (simp add: can_use_def)

lemma example_stock_can_use: "can_use example_stock 1 ''fruit'' 0 ''pears'' ''ann''"
  using can_use_after [OF example_can_use stored_now [OF example_can_use]
      set_value_ends [OF delivers_bytes delivers_whole example_can_use example_sendable(2), where connect = "\<lambda>h p. 3"]]
  unfolding example_stock_def by simp

lemma example_stock_value: "committed (heap example_stock ! 0) ''pears'' = Some ''41''"
  using stored_now [OF example_can_use, of "''41''"] by (simp add: example_stock_def stored_def)

lemma example_number: "stoi ''41'' = Ret 41" "in_int (41 + 1)"
  by code_simp+

theorem set_value_stores_witness:
  "\<exists>srv'. ends_well (set_value_main (\<lambda>h p. 3) (net_respond byte_by_byte whole_lines) example_rio
      [''set_value'', ''localhost'', ''5000'', ''ann'', ''fruit'', ''pears'', ''41''])
      (new_client example_server 1 4 example_rio) srv' [] \<and> stored 0 ''pears'' ''41'' example_server srv'"
  using set_value_stores [OF delivers_bytes delivers_whole example_can_use example_sendable(2), where connect = "\<lambda>h p. 3"]
  by simp

theorem get_value_prints_witness:
  "ends_well (get_value_main (\<lambda>h p. 3) (net_respond byte_by_byte whole_lines) example_rio
      [''get_value'', ''localhost'', ''5000'', ''ann'', ''fruit'', ''pears''])
      (new_client example_stock 1 4 example_rio) example_stock (''41'' @ [newline])"
  using get_value_prints [OF delivers_bytes delivers_whole example_stock_can_use example_stock_value, where connect = "\<lambda>h p. 3"]
  by simp

theorem incr_value_increments_witness:
  "\<exists>srv'. ends_well (incr_value_main (\<lambda>h p. 3) (net_respond byte_by_byte whole_lines) example_rio
      [''incr_value'', ''-t'', ''localhost'', ''5000'', ''ann'', ''fruit'', ''pears''])
      (new_client example_stock 1 4 example_rio) srv' [] \<and> stored 0 ''pears'' (to_string 42) example_stock srv'"
  using incr_value_increments [OF delivers_bytes delivers_whole example_stock_can_use example_stock_value example_number,
      where connect = "\<lambda>h p. 3" and opts = "[''-t'']"] by simp

theorem programs_in_sequence_witness:
  "\<exists>s1 s2.
    ends_well (set_value_main (\<lambda>h p. 3) (net_respond whole_lines byte_by_byte) example_rio
      [''set_value'', ''localhost'', ''5000'', ''ann'', ''fruit'', ''pears'', ''41''])
      (new_client example_server 1 4 example_rio) s1 [] \<and>
    ends_well (incr_value_main (\<lambda>h p. 3) (net_respond whole_lines byte_by_byte) example_rio
      [''incr_value'', ''-t'', ''localhost'', ''5000'', ''ann'', ''fruit'', ''pears''])
      (new_client s1 2 5 example_rio) s2 [] \<and>
    ends_well (get_value_main (\<lambda>h p. 3) (net_respond whole_lines byte_by_byte) example_rio
      [''get_value'', ''localhost'', ''5000'', ''ann'', ''fruit'', ''pears''])
      (new_client s2 3 4 example_rio) s2 (to_string 42 @ [newline]) \<and>
    stored 0 ''pears'' (to_string 42) example_server s2"
proof -
  have "list_all (\<lambda>t. can_use example_server t ''fruit'' 0 ''pears'' ''ann'') [1, 2, 3]" by (simp add: example_can_use)
  from programs_in_sequence [OF delivers_whole delivers_bytes this example_sendable(2) example_number,
      where connect = "\<lambda>h p. 3" and opts = "[''-t'']"] show ?thesis by simp
qed

theorem refused_client_aborts_witness:
  "\<exists>s'. get_value_main (\<lambda>h p. 3) (net_respond byte_by_byte whole_lines) example_rio
      [''get_value'', ''localhost'', ''5000'', ''ann'', ''fruit'', ''pears''] (new_client (Server_new False) 1 4 example_rio) =
      (Throw unquoted_error, s') \<and> std_out s' = [] \<and> std_err s' = []"
proof -
  have "conn_ok (Server_new False, ClientConnection_new 1 4 example_rio [])"
    by (rule conn_ok_new [OF server_ok_new]) (simp add: Server_new_def)
  moreover have "find_table ''fruit'' (Server_new False) = None" by code_simp
  ultimately show ?thesis
    using refused_client_aborts [OF delivers_bytes delivers_whole _ _ example_sendable, where connect = "\<lambda>h p. 3" and
      srv = "Server_new False" and thread = 1 and fd = 4 and cg = example_rio] by simp
qed

end
