(* ===== verification/Concurrent_Clients.thy ===== *)
theory Concurrent_Clients
  imports Network Sessions
begin

text \<open>
  Several client programs at once, each on a connection of its own and served by a thread of its own, on
  one server. A step is one exchange of one program, the request, the iteration of the loop that serves it and the reply; the
  programs take their steps in any order. A program is the list of its requests, and
  \<open>incr_value_requests\<close> says that the list for \<open>incr_value\<close> is its \<open>main\<close>.
\<close>

section \<open>A program as the list of its requests\<close>

text \<open>A message, and what is done with the buffer that the reply was read to.\<close>

type_synonym request = "Message \<times> (string \<Rightarrow> (world, int) ccmd)"

primrec run_requests :: "world responder \<Rightarrow> rio_t \<Rightarrow> int \<Rightarrow> request list \<Rightarrow> (world, int) ccmd" where
  "run_requests respond g fd [] = ret 0"
| "run_requests respond g fd (rq # rqs) =
     check_zero (exchange respond g fd (fst rq) (snd rq)) (run_requests respond g fd rqs)"

definition incr_requests :: "bool \<Rightarrow> string \<Rightarrow> string \<Rightarrow> string \<Rightarrow> request list" where
  "incr_requests use_transaction user table key =
     (Message_new LOGIN [user], incr_value_ok_response) #
     (if use_transaction then [(Message_new BEGIN [], incr_value_ok_response)] else []) @
     [(Message_new GET [table, key], incr_value_ok_response),
      (Message_new PUSH [''1''], incr_value_ok_response),
      (Message_new ADD [], incr_value_ok_response),
      (Message_new SET [table, key], incr_value_ok_response)] @
     (if use_transaction then [(Message_new COMMIT [], incr_value_ok_response)] else []) @
     [(Message_new BYE [],
       \<lambda>buf. bind_cmd (lift_res (decode_buf buf)) (\<lambda>bye_response. incr_value_ok_response buf))]"

lemma check_zero_skip: "check_zero (ret 0) k = k"
  by (simp add: check_zero_def run_simps fun_eq_iff)

lemma incr_value_requests:
  "incr_value_main connect respond g [prog, host, port, user, table, key] =
     connected connect host port (\<lambda>fd. run_requests respond g fd (incr_requests False user table key))"
  "incr_value_main connect respond g [prog, ''-t'', host, port, user, table, key] =
     connected connect host port (\<lambda>fd. run_requests respond g fd (incr_requests True user table key))"
  by (simp_all add: incr_requests_def client_defs incr_bye_operation_def check_zero_skip)

text \<open>What the reply to a request makes of the program: it goes on, or it has ended with a status or an exception.\<close>

definition status_after :: "int res \<Rightarrow> request list \<Rightarrow> int res option" where
  "status_after r rqs =
     (case r of
        Ret result \<Rightarrow> if result \<noteq> 0 then Some (Ret 1) else if rqs = [] then Some (Ret 0) else None
      | _ \<Rightarrow> Some r)"

lemma run_requests_step:
  "run_requests respond g fd (rq # rqs) s =
     (case exchange respond g fd (fst rq) (snd rq) s of (r, s') \<Rightarrow>
        case status_after r rqs of Some e \<Rightarrow> (e, s') | None \<Rightarrow> run_requests respond g fd rqs s')"
  by (cases rqs) (auto simp: check_zero_def status_after_def run_simps bind_cmd_def split: outcome.splits prod.splits)

section \<open>The programs and the server\<close>

record program =
  conn :: ClientConnection
  inbox :: "read_event list"
  printed :: string
  complained :: string
  todo :: "request list"
  status :: "int res option"

record crowd =
  db :: Server
  programs :: "thread_id \<rightharpoonup> program"
  down :: bool

definition new_program :: "thread_id \<Rightarrow> int \<Rightarrow> rio_t \<Rightarrow> request list \<Rightarrow> program" where
  "new_program thread fd garbage rqs =
     \<lparr>conn = ClientConnection_new thread fd garbage [], inbox = [], printed = [], complained = [], todo = rqs, status = None\<rparr>"

text \<open>How the iteration ends that serves a message; a thread that has left its loop reads nothing.\<close>

definition iteration_result :: "delivery \<Rightarrow> Message \<Rightarrow> world \<Rightarrow> unit res" where
  "iteration_result to_server msg w =
     (case encode msg of
        Ret line \<Rightarrow>
          if loop_in_progress (snd w)
          then fst (chat_iteration (fst w, (snd w)\<lparr>incoming := incoming (snd w) @ to_server w line\<rparr>)) else Ret ()
      | _ \<Rightarrow> Ret ())"

text \<open>The end of a thread whose client has gone: its next read finds the end of the input.\<close>

definition thread_leaves :: "(world, unit) xcmd" where
  "thread_leaves = seq_cmd (\<lambda>w. if loop_in_progress (snd w) then chat_iteration w else (Ret (), w)) finish_client"

text \<open>
  A request whose iteration waits for a mutex is no step; one whose iteration goes wrong stops the server.
\<close>

inductive crowd_step :: "delivery \<Rightarrow> delivery \<Rightarrow> rio_t \<Rightarrow> int \<Rightarrow> thread_id \<Rightarrow> crowd \<Rightarrow> crowd \<Rightarrow> bool"
  for to_server to_client g sock where
  request: "\<not> down s \<Longrightarrow> programs s t = Some q \<Longrightarrow> status q = None \<Longrightarrow> todo q = rq # rqs \<Longrightarrow>
    iteration_result to_server (fst rq) (db s, conn q) = Ret () \<Longrightarrow>
    exchange (net_respond to_server to_client) g sock (fst rq) (snd rq)
      (client_state (db s, conn q) (inbox q) (printed q) (complained q)) = (r, client_state (srv', c') inp out err) \<Longrightarrow>
    crowd_step to_server to_client g sock t s (s\<lparr>db := srv', programs := (programs s)(t \<mapsto>
      \<lparr>conn = c', inbox = inp, printed = out, complained = err, todo = rqs, status = status_after r rqs\<rparr>)\<rparr>)"
| leave: "\<not> down s \<Longrightarrow> programs s t = Some q \<Longrightarrow> status q \<noteq> None \<Longrightarrow> \<not> fd_closed (conn q) \<Longrightarrow>
    thread_leaves (db s, conn q) = (Ret (), (srv', c')) \<Longrightarrow>
    crowd_step to_server to_client g sock t s (s\<lparr>db := srv', programs := (programs s)(t \<mapsto> q\<lparr>conn := c'\<rparr>)\<rparr>)"
| collapse: "\<not> down s \<Longrightarrow> programs s t = Some q \<Longrightarrow> status q = None \<Longrightarrow> todo q = rq # rqs \<Longrightarrow>
    iteration_result to_server (fst rq) (db s, conn q) \<notin> {Ret (), Block} \<Longrightarrow>
    crowd_step to_server to_client g sock t s (s\<lparr>down := True\<rparr>)"

inductive_cases crowd_stepE: "crowd_step to_server to_client g sock t s s'"

inductive crowd_steps :: "delivery \<Rightarrow> delivery \<Rightarrow> rio_t \<Rightarrow> int \<Rightarrow> crowd \<Rightarrow> crowd \<Rightarrow> bool"
  for to_server to_client g sock where
  crowd_none: "crowd_steps to_server to_client g sock s s"
| crowd_more: "crowd_steps to_server to_client g sock s s1 \<Longrightarrow> crowd_step to_server to_client g sock t s1 s' \<Longrightarrow>
    crowd_steps to_server to_client g sock s s'"

section \<open>One exchange\<close>

text \<open>A program between two exchanges: nothing is on its way, and its connection is in order.\<close>

definition between_requests :: "Server \<Rightarrow> thread_id \<Rightarrow> program \<Rightarrow> bool" where
  "between_requests srv t q \<longleftrightarrow> conn_ok (srv, conn q) \<and> me (conn q) = t \<and> drained (srv, conn q) \<and> quiet (inbox q)"

lemma between_new:
  assumes "conn_ok (srv, ClientConnection_new t fd cg [])"
  shows "between_requests srv t (new_program t fd cg rqs)"
  using assms fresh_rio_ok [of "[]" fd cg] fresh_remaining [of fd cg "[]"]
  by (simp add: between_requests_def new_program_def drained_def quiet_def clean_def ClientConnection_new_def)

lemma between_other:
  assumes "between_requests srv u q" "guar t srv srv'" "u \<noteq> t" "server_ok srv'"
  shows "between_requests srv' u q"
  using assms conn_ok_guar [of srv "conn q" t srv'] by (simp add: between_requests_def drained_def)

text \<open>What a thread keeps of its connection, whatever is in its input.\<close>

lemma seen_fields:
  assumes "seen (srv', c') = (srv1, c1)"
  shows "srv' = srv1" "me c' = me c1" "stack c' = stack c1" "in_transaction c' = in_transaction c1"
    "loop_in_progress c' = loop_in_progress c1" "locked_tables c' = locked_tables c1"
    "first_valid_message c' = first_valid_message c1" "fd_closed c' = fd_closed c1" "conn_ok (srv', c') = conn_ok (srv1, c1)"
  using assms by (auto simp: seen_def with_input_def conn_ok_def)

lemma session_seen: "session (seen (srv, c)) st tx = session (srv, c) st tx"
  by (simp add: session_def seen_def) (simp add: with_input_def)

lemma serves_progress:
  assumes "conn_ok w" "server_serves msg w l w1"
  shows "progress w w1"
proof -
  obtain srv c srv1 c1 where w: "w = (srv, c)" "w1 = (srv1, c1)" by fastforce
  with assms(2) obtain line where "handle_line (line @ [nul]) (srv, c) = (Ret (), (srv1, c1))"
    by (auto simp: server_serves_def split: outcome.splits)
  with assms(1) w show ?thesis by (auto dest: handle_line_ok)
qed

lemma served_request:
  assumes d: "delivers ts" "delivers tc" and b: "between_requests srv t q"
    and s: "server_serves msg (seen (srv, conn q)) l (srv1, c1)"
  obtains c' inp where
    "exchange (net_respond ts tc) g sock msg h (client_state (srv, conn q) (inbox q) out err) =
       h (l @ [nul]) (client_state (srv1, c') inp out err)"
    "seen (srv1, c') = (srv1, c1)" "drained (srv1, c')" "quiet inp" "conn_ok (srv1, c')" "me c' = t"
    "iteration_result ts msg (srv, conn q) = Ret ()" "guar t srv srv1"
proof -
  let ?w = "(srv, conn q)"
  have ready: "net_ready ts tc ?w" using d b by (simp add: net_ready_def between_requests_def)
  obtain w' where p: "net_serves ts tc msg ?w l w'" "seen w' = (srv1, c1)" "net_ready ts tc w'"
    using np.follows [OF ready s] by blast
  obtain c' where w': "w' = (srv1, c')" using p(2) by (cases w') (simp add: seen_def)
  obtain inp where e: "exchange (net_respond ts tc) g sock msg h (client_state ?w (inbox q) out err) =
      h (l @ [nul]) (client_state (srv1, c') inp out err)" "quiet inp"
    using np.exchange_reply [where s = "client_state ?w (inbox q) out err" and l = l and p' = w' and ts = ts and tc = tc
        and msg = msg and h = h and g = g and fd = sock] p(1) b w' by (auto simp: between_requests_def)
  have ok: "conn_ok (seen ?w)" using b by (simp add: between_requests_def seen_def)
  have pr: "progress (seen ?w) (srv1, c1)" by (rule serves_progress [OF ok s])
  obtain line where line: "encode msg = Ret line" "reply_line line" "handle_line (line @ [nul]) (seen ?w) = (Ret (), (srv1, c1))"
    by (rule serves_seen [OF s]) auto
  have "drained ?w" "clean (ts ?w line)" "stream_of (ts ?w line) = line"
    using b d by (simp_all add: between_requests_def delivers_def)
  then obtain b' i' where "chat_iteration (srv, (conn q)\<lparr>incoming := incoming (conn q) @ ts ?w line\<rparr>) =
      result_with_input b' i' (handle_line (line @ [nul]) (seen ?w))"
    using iteration_handles line(2) by metis
  then have it: "iteration_result ts msg ?w = Ret ()"
    using line(1,3) by (simp add: iteration_result_def result_with_input_def)
  note f = seen_fields [OF p(2) [unfolded w']]
  have "conn_ok (srv1, c')" "me c' = t" "guar t srv srv1"
    using pr f b by (auto simp: progress_def seen_def between_requests_def)
  moreover have "drained (srv1, c')" using p(3) w' by (simp add: net_ready_def)
  ultimately show thesis using that e p(2) w' it by blast
qed

lemma ok_handlers:
  assumes "rq \<in> set (incr_requests b user table key)"
  shows "snd rq (ok_line @ [nul]) x = (Ret 0, x)"
proof -
  have "decode_buf (ok_line @ [nul]) = Ret (Message_new OK [])" by code_simp
  with assms show ?thesis by (auto simp: incr_requests_def ok_response run_simps split: if_splits)
qed

section \<open>The end of a thread\<close>

lemma iteration_end:
  assumes "drained (srv, c)"
  obtains b i where "chat_iteration (srv, c) = (Ret (), (srv, (with_input b i c)\<lparr>loop_in_progress := False\<rparr>))"
    "drained (srv, with_input b i c)"
proof -
  have io: "rio_ok (m_fdbuf c, incoming c)" "remaining (m_fdbuf c, incoming c) = []"
    using assms by (simp_all add: drained_def)
  have "sizeof_rio_t = Suc 8207" by (simp add: sizeof_rio_t_def RIO_BUFSIZE_def)
  then obtain b i where r: "rio_readlineb sizeof_rio_t (m_fdbuf c) (incoming c) = (0, [], b, i)"
    "rio_ok (b, i)" "remaining (b, i) = []"
    using rio_readlineb_line [OF io(1), of 8207] io(2) by auto
  have "chat_iteration (srv, c) = (Ret (), (srv, (with_input b i c)\<lparr>loop_in_progress := False\<rparr>))"
    by (simp add: chat_iteration_def run_simps read_request_run [OF r(1)] MAX_ENCODED_LEN_def with_input_def)
  moreover have "drained (srv, with_input b i c)" using r by (simp add: drained_def)
  ultimately show thesis by (rule that)
qed

text \<open>A thread outside a transaction changes nothing when it ends.\<close>

lemma idle_thread_leaves:
  assumes b: "between_requests srv t q" and tx: "\<not> in_transaction (conn q)"
    and run: "thread_leaves (srv, conn q) = (Ret (), (srv', c'))"
  shows "srv' = srv \<and> between_requests srv t (q\<lparr>conn := c'\<rparr>) \<and> \<not> in_transaction c'"
proof -
  have ok: "conn_ok (srv, conn q)" "drained (srv, conn q)" "me (conn q) = t" "quiet (inbox q)"
    using b by (simp_all add: between_requests_def)
  obtain b i where it: "chat_iteration (srv, conn q) = (Ret (), (srv, (with_input b i (conn q))\<lparr>loop_in_progress := False\<rparr>))"
    "drained (srv, with_input b i (conn q))" by (rule iteration_end [OF ok(2)])
  obtain c1 where c1: "thread_leaves (srv, conn q) = finish_client (srv, c1)" "conn_ok (srv, c1)" "drained (srv, c1)"
    "me c1 = t" "\<not> in_transaction c1"
  proof (cases "loop_in_progress (conn q)")
    case True
    let ?c = "(with_input b i (conn q))\<lparr>loop_in_progress := False\<rparr>"
    have "conn_ok (srv, ?c)" using progress_conn [OF ok(1), of ?c] by (simp add: progress_def) (simp add: with_input_def)
    moreover have "thread_leaves (srv, conn q) = finish_client (srv, ?c)"
      using True it(1) by (simp add: thread_leaves_def run_simps)
    moreover have "drained (srv, ?c)" using it(2) by (simp add: drained_def)
    ultimately show thesis using that ok(3) tx by simp
  next
    case False
    then show thesis using that ok tx by (simp add: thread_leaves_def run_simps)
  qed
  have "aborted (srv, c1\<lparr>fd_closed := True\<rparr>) = (srv, c1\<lparr>fd_closed := True\<rparr>)"
    using c1(5) conn_ok_unlocked [OF c1(2,5)] by (intro aborted_idle) simp_all
  then have "srv' = srv" "c' = c1\<lparr>fd_closed := True\<rparr>"
    using finish_client_run [OF c1(2)] c1(1) run by simp_all
  moreover have "conn_ok (srv, c1\<lparr>fd_closed := True\<rparr>)"
    using progress_conn [OF c1(2), of "c1\<lparr>fd_closed := True\<rparr>"] by (simp add: progress_def)
  ultimately show ?thesis using c1 ok(4) by (simp add: between_requests_def drained_def)
qed

end
