(* ===== verification/Increments.thy ===== *)
theory Increments
  imports Concurrent_Clients
begin

text \<open>
  Any number of \<open>incr_value\<close> programs at once on one key. With \<open>-t\<close> no increment is lost and none is
  counted twice, in whatever order the programs take their steps, and all of them can always run to their end.
\<close>

section \<open>The table that is counted in\<close>

definition incremented :: "string \<Rightarrow> string" where
  "incremented v = (case stoi v of Ret i \<Rightarrow> to_string (i + 1) | _ \<Rightarrow> v)"

text \<open>
  The table \<open>tb\<close> differs from \<open>tb0\<close> in one key: \<open>cur\<close> is committed there, and would be
  \<open>next\<close> after a commit.
\<close>

definition table_now :: "Table \<Rightarrow> string \<Rightarrow> string \<Rightarrow> string \<Rightarrow> Table \<Rightarrow> bool" where
  "table_now tb0 key cur nxt tb \<longleftrightarrow>
     table_wf tb \<and> committed tb = (committed tb0)(key \<mapsto> cur) \<and> committed tb ++ proposed tb = (committed tb0)(key \<mapsto> nxt)"

lemma table_now_mutex [simp]: "table_now tb0 key cur nxt (tb\<lparr>t_mutex := m\<rparr>) = table_now tb0 key cur nxt tb"
  by (simp add: table_now_def table_wf_def committed_def proposed_def)

lemma table_now_mutex_update [simp]:
  "table_now tb0 key cur nxt (t_mutex_update f tb) = table_now tb0 key cur nxt tb"
  by (simp add: table_now_def table_wf_def committed_def proposed_def)

lemma table_now_set:
  assumes "table_now tb0 key cur nxt tb"
  shows "table_now tb0 key cur v (table_set key v tb)"
proof -
  have "committed tb ++ proposed tb = (committed tb0)(key \<mapsto> nxt)" using assms unfolding table_now_def by blast
  then have "committed tb ++ (proposed tb)(key \<mapsto> v) = (committed tb0)(key \<mapsto> v)" by (simp only: map_add_upd fun_upd_upd)
  with assms show ?thesis unfolding table_now_def ts.base_put ts.pending_put using ts.wf_put by blast
qed

lemma table_now_commit: "table_now tb0 key cur nxt tb \<Longrightarrow> table_now tb0 key nxt nxt (commit_changes tb)"
proof -
  assume t: "table_now tb0 key cur nxt tb"
  then have wf: "table_wf tb" and c: "committed tb ++ proposed tb = (committed tb0)(key \<mapsto> nxt)"
    unfolding table_now_def by blast+
  have "committed (commit_changes tb) ++ proposed (commit_changes tb) = (committed tb ++ proposed tb) ++ proposed tb"
    by (simp add: ts.base_commit [OF wf] ts.pending_commit)
  also have "\<dots> = committed tb ++ proposed tb" by (simp add: fun_eq_iff map_add_def split: option.splits)
  finally show ?thesis unfolding table_now_def using c ts.base_commit [OF wf] ts.wf_commit [OF wf] by metis
qed

lemma table_now_get: "table_now tb0 key cur nxt tb \<Longrightarrow> table_get key tb = Ret cur"
  by (rule ts.read_present) (simp add: table_now_def)

lemma table_now_start:
  assumes "table_ok tb" "t_mutex tb = None" "committed tb key = Some v"
  shows "table_now tb key v v tb"
proof -
  have "committed tb ++ proposed tb = committed tb"
    using assms by (intro map_add_subsumed2) (simp add: table_ok_def)
  moreover have "(committed tb)(key \<mapsto> v) = committed tb" using assms(3) by auto
  ultimately show ?thesis using assms(1) by (simp add: table_now_def table_ok_def)
qed

text \<open>The rest of the server stays as it is.\<close>

definition same_but :: "table_ptr \<Rightarrow> Server \<Rightarrow> Server \<Rightarrow> bool" where
  "same_but p srv srv' \<longleftrightarrow> table_names srv' = table_names srv \<and> length (heap srv') = length (heap srv) \<and>
     (\<forall>q. q \<noteq> p \<longrightarrow> heap srv' ! q = heap srv ! q)"

lemma same_but_refl [simp]: "same_but p srv srv"
  by (simp add: same_but_def)

lemma same_but_trans: "same_but p a b \<Longrightarrow> same_but p b c \<Longrightarrow> same_but p a c"
  by (simp add: same_but_def)

lemma same_but_at [simp]: "same_but p srv (at_table p f srv)"
  by (simp add: same_but_def at_table_def)

lemma same_but_find: "same_but p srv srv' \<Longrightarrow> find_table name srv' = find_table name srv"
  by (simp add: same_but_def find_table_def)

section \<open>The way of one program\<close>

abbreviation busy_refusal :: string where
  "busy_refusal \<equiv> failed_line ''Could not gain access to table.''"

lemma busy_refusal_reply: "reply_line busy_refusal" "decode_buf (busy_refusal @ [nul]) = Throw unquoted_error"
  by code_simp+

lemma session_get_refused:
  assumes s: "session (srv, c) st True" and m: "sendable (Message_new GET [name, key])"
    and p: "find_table name srv = Some p" "t_mutex (heap srv ! p) = Some u" "u \<noteq> me c" and held: "locked_tables c = []"
  obtains c' where "server_serves (Message_new GET [name, key]) (srv, c) busy_refusal (srv, c')" "\<not> in_transaction c'"
proof -
  let ?m = "Message_new GET [name, key]"
  let ?d = "c\<lparr>client_msg := ?m\<rparr>" and ?c = "c\<lparr>client_msg := ?m, locked_tables := [], in_transaction := False\<rparr>"
  have c: "conn_ok (srv, c)" "in_transaction c" using s by (simp_all add: session_def)
  have pl: "p < length (heap srv)" using find_table_valid [OF conn_okD(1) [OF c(1)] p(1)] .
  have ok: "conn_ok (srv, ?d)" using progress_conn [OF c(1), of ?d] by (simp add: progress_def)
  have "dispatch ?m (srv, ?d) = (Throw table_busy, (srv, ?d))"
    using p c(2) pl held by (simp add: dispatch_def get_message_type_def Message_new_def handle_get_refused)
  from call_response_failed [OF this _ _ _ ok]
  have "call_response_function ?m (srv, ?d) = failed_with ''Could not gain access to table.'' (srv, ?d)" by simp
  then have run: "call_response_function ?m (srv, ?d) = (Ret (), (srv, answer busy_refusal ?c))"
    using held by (simp add: failed_with_def aborted_def release_all_def)
  have "server_serves ?m (srv, c) busy_refusal (srv, answer busy_refusal ?c)"
    using session_step [OF s m _ busy_refusal_reply(1) run] by (simp add: Message_new_def)
  then show thesis by (rule that) simp
qed

text \<open>
  Where the program is after \<open>j\<close> of its eight requests. \<open>cur\<close> is the committed value and
  \<open>nxt\<close> the one after the next commit; a program that has got past \<open>GET\<close> and not past \<open>COMMIT\<close> owns the table.
\<close>

definition stage :: "nat \<Rightarrow> table_ptr \<Rightarrow> string \<Rightarrow> string \<Rightarrow> world \<Rightarrow> bool" where
  "stage j p cur nxt w =
     (let holds = (t_mutex (heap (fst w) ! p) = Some (me (snd w))) in
      if j = 0 then conn_ok w \<and> \<not> in_transaction (snd w) \<and> stack (snd w) = [] \<and> loop_in_progress (snd w)
      else if j = 1 then session w [] False
      else if j = 2 then session w [] True \<and> \<not> holds
      else if j = 3 then session w [cur] True \<and> holds \<and> nxt = cur
      else if j = 4 then session w [''1'', cur] True \<and> holds \<and> nxt = cur
      else if j = 5 then session w [incremented cur] True \<and> holds \<and> nxt = cur
      else if j = 6 then session w [] True \<and> holds \<and> nxt = incremented cur
      else if j = 7 then session w [] False
      else conn_ok w \<and> \<not> in_transaction (snd w))"

lemma stage_seen: "stage j p cur nxt (seen (srv, c)) = stage j p cur nxt (srv, c)"
  unfolding stage_def Let_def session_seen by (simp add: seen_def)

lemma stage_eq:
  assumes "seen (srv', c') = (srv1, c1)"
  shows "stage j p cur nxt (srv', c') = stage j p cur nxt (srv1, c1)"
  using stage_seen [of j p cur nxt srv' c'] assms by simp

lemma stage_conn: "stage j p cur nxt w \<Longrightarrow> conn_ok w"
  by (auto simp: stage_def Let_def session_def split: if_splits)

text \<open>The step of another program does not move this one.\<close>

lemma stage_other:
  assumes "stage j p cur nxt (srv, c)" "conn_ok (srv', c)"
    and "t_mutex (heap srv' ! p) = Some (me c) \<longleftrightarrow> t_mutex (heap srv ! p) = Some (me c)"
    and "t_mutex (heap srv ! p) = Some (me c) \<Longrightarrow> cur' = cur \<and> nxt' = nxt"
  shows "stage j p cur' nxt' (srv', c)"
  using assms by (auto simp: stage_def Let_def session_def split: if_splits)

lemma stage_holds:
  assumes "stage j p cur nxt (srv, c)" "t_mutex (heap srv ! p) = Some (me c)" "p < length (heap srv)"
  shows "3 \<le> j \<and> j \<le> 6"
proof -
  have "in_transaction c"
    using conn_ok_held [OF stage_conn [OF assms(1)] assms(3)] conn_ok_unlocked [OF stage_conn [OF assms(1)]] assms(2) by fastforce
  with assms show ?thesis by (auto simp: stage_def Let_def session_def split: if_splits)
qed

text \<open>
  What one request of thread \<open>t\<close> makes of the server: only the one table changes, and not while another thread owns it.
\<close>

definition moved ::
  "table_ptr \<Rightarrow> Table \<Rightarrow> string \<Rightarrow> thread_id \<Rightarrow> Server \<Rightarrow> string \<Rightarrow> string \<Rightarrow> Server \<Rightarrow> string \<Rightarrow> string \<Rightarrow> bool" where
  "moved p tb0 key t srv cur nxt srv' cur' nxt' \<longleftrightarrow>
     same_but p srv srv' \<and> table_now tb0 key cur' nxt' (heap srv' ! p) \<and>
     (t_mutex (heap srv' ! p) = None \<longrightarrow> nxt' = cur') \<and>
     t_mutex (heap srv' ! p) \<in> {t_mutex (heap srv ! p), None, Some t} \<and>
     (t_mutex (heap srv ! p) \<notin> {None, Some t} \<longrightarrow> srv' = srv \<and> cur' = cur \<and> nxt' = nxt)"

text \<open>The server as the requests of the programs find it.\<close>

definition counting :: "string \<Rightarrow> table_ptr \<Rightarrow> Table \<Rightarrow> string \<Rightarrow> Server \<Rightarrow> string \<Rightarrow> string \<Rightarrow> bool" where
  "counting name p tb0 key srv cur nxt \<longleftrightarrow>
     find_table name srv = Some p \<and> p < length (heap srv) \<and> table_now tb0 key cur nxt (heap srv ! p) \<and>
     (t_mutex (heap srv ! p) = None \<longrightarrow> nxt = cur)"

lemma moved_same [simp]:
  "counting name p tb0 key srv cur nxt \<Longrightarrow> moved p tb0 key t srv cur nxt srv cur nxt"
  by (simp add: moved_def counting_def)

lemma moved_at:
  assumes "counting name p tb0 key srv cur nxt" "t_mutex (heap srv ! p) \<in> {None, Some t}"
    and "table_now tb0 key cur' nxt' (f (heap srv ! p))" "t_mutex (f (heap srv ! p)) \<in> {None, Some t}"
    and "t_mutex (f (heap srv ! p)) = None \<Longrightarrow> nxt' = cur'"
  shows "moved p tb0 key t srv cur nxt (at_table p f srv) cur' nxt'"
  using assms by (auto simp: moved_def counting_def)

lemma moved_counting: "counting name p tb0 key srv cur nxt \<Longrightarrow> moved p tb0 key t srv cur nxt srv' cur' nxt' \<Longrightarrow>
    counting name p tb0 key srv' cur' nxt'"
  unfolding counting_def moved_def by (metis same_but_find same_but_def)

text \<open>What all requests need: the words can be sent, the table is there, and the thread owns no other one.\<close>

definition can_count :: "string \<Rightarrow> string \<Rightarrow> string \<Rightarrow> table_ptr \<Rightarrow> Table \<Rightarrow> string \<Rightarrow> string \<Rightarrow> world \<Rightarrow> bool" where
  "can_count user name key p tb0 cur nxt w \<longleftrightarrow>
     sendable (Message_new LOGIN [user]) \<and> sendable (Message_new SET [name, key]) \<and>
     counting name p tb0 key (fst w) cur nxt \<and>
     (\<forall>q<length (heap (fst w)). q \<noteq> p \<longrightarrow> t_mutex (heap (fst w) ! q) \<noteq> Some (me (snd w)))"

text \<open>The request after \<open>j\<close> others is answered by \<open>OK\<close> and takes the program one further.\<close>

definition goes_on :: "string \<Rightarrow> string \<Rightarrow> string \<Rightarrow> table_ptr \<Rightarrow> Table \<Rightarrow> string \<Rightarrow> string \<Rightarrow> world \<Rightarrow> nat \<Rightarrow> bool" where
  "goes_on user name key p tb0 cur nxt w j \<longleftrightarrow> (\<exists>srv1 c1 nxt1. server_serves (fst (incr_requests True user name key ! j)) w ok_line (srv1, c1) \<and>
     stage (Suc j) p (if j = 6 then nxt else cur) nxt1 (srv1, c1) \<and>
     moved p tb0 key (me (snd w)) (fst w) cur nxt srv1 (if j = 6 then nxt else cur) nxt1 \<and>
     (t_mutex (heap srv1 ! p) = None \<longrightarrow> j = 6 \<or> t_mutex (heap (fst w) ! p) = None))"

lemma goes_onI:
  assumes "server_serves (fst (incr_requests True user name key ! j)) (srv, c) ok_line (srv', c')"
    and "stage (Suc j) p (if j = 6 then nxt else cur) nxt' (srv', c')"
    and "moved p tb0 key (me c) srv cur nxt srv' (if j = 6 then nxt else cur) nxt'"
    and "t_mutex (heap srv' ! p) = None \<Longrightarrow> j = 6 \<or> t_mutex (heap srv ! p) = None"
  shows "goes_on user name key p tb0 cur nxt (srv, c) j"
proof -
  have "t_mutex (heap srv' ! p) = None \<longrightarrow> j = 6 \<or> t_mutex (heap srv ! p) = None" using assms(4) by blast
  with assms(1-3) show ?thesis
    unfolding goes_on_def by (intro exI [of _ srv'] exI [of _ c'] exI [of _ nxt']) simp
qed

lemma can_countD:
  assumes "can_count user name key p tb0 cur nxt (srv, c)"
  shows "sendable (Message_new LOGIN [user])" "sendable (Message_new SET [name, key])" "sendable (Message_new GET [name, key])"
    "counting name p tb0 key srv cur nxt" "find_table name srv = Some p" "p < length (heap srv)"
    "table_now tb0 key cur nxt (heap srv ! p)" "t_mutex (heap srv ! p) = None \<Longrightarrow> nxt = cur" "table_get key (heap srv ! p) = Ret cur"
    "\<forall>q<length (heap srv). q \<noteq> p \<longrightarrow> t_mutex (heap srv ! q) \<noteq> Some (me c)"
  using assms table_now_get by (auto simp: can_count_def counting_def sendable_def Message_new_def protocol_ok_def)

lemma goes_on_login:
  assumes cc: "can_count user name key p tb0 cur nxt (srv, c)" and st: "stage 0 p cur nxt (srv, c)"
  shows "goes_on user name key p tb0 cur nxt (srv, c) 0"
proof -
  note D = can_countD [OF cc]
  have c: "conn_ok (srv, c)" "\<not> in_transaction c" "stack c = []" "loop_in_progress c" using st by (simp_all add: stage_def)
  obtain c1 where "server_serves (Message_new LOGIN [user]) (srv, c) ok_line (srv, c1)" "session (srv, c1) [] False"
    using session_login [OF c(1,4) D(1)] c(2,3) by auto
  then show ?thesis using D(4) by (intro goes_onI [where srv' = srv and c' = c1 and nxt' = nxt]) (simp_all add: incr_requests_def stage_def)
qed

lemma goes_on_begin:
  assumes cc: "can_count user name key p tb0 cur nxt (srv, c)" and st: "stage 1 p cur nxt (srv, c)"
  shows "goes_on user name key p tb0 cur nxt (srv, c) 1"
proof -
  note D = can_countD [OF cc]
  have s: "session (srv, c) [] False" using st by (simp add: stage_def)
  obtain c1 where c1: "server_serves (Message_new BEGIN []) (srv, c) ok_line (srv, c1)" "session (srv, c1) [] True" "me c1 = me c"
    by (rule session_begin [OF s])
  have "conn_ok (srv, c)" "\<not> in_transaction c" using s by (simp_all add: session_def)
  then have "t_mutex (heap srv ! p) \<noteq> Some (me c)"
    using conn_ok_held [OF _ D(6)] conn_ok_unlocked by fastforce
  then show ?thesis using D(4) c1 by (intro goes_onI [where srv' = srv and c' = c1 and nxt' = nxt]) (simp_all add: incr_requests_def stage_def)
qed

lemma get_in_transaction:
  assumes cc: "can_count user name key p tb0 cur nxt (srv, c)" and st: "stage 2 p cur nxt (srv, c)"
  shows "goes_on user name key p tb0 cur nxt (srv, c) 2 \<or> (t_mutex (heap srv ! p) \<noteq> None \<and>
    (\<exists>c1. server_serves (Message_new GET [name, key]) (srv, c) busy_refusal (srv, c1) \<and> \<not> in_transaction c1))"
proof -
  note D = can_countD [OF cc]
  have s: "session (srv, c) [] True" and h: "t_mutex (heap srv ! p) \<noteq> Some (me c)"
    using st by (simp_all add: stage_def)
  show ?thesis
  proof (cases "t_mutex (heap srv ! p)")
    case None
    let ?srv = "at_table p (t_mutex_update (\<lambda>_. Some (me c))) srv"
    obtain c1 where c1: "server_serves (Message_new GET [name, key]) (srv, c) ok_line (?srv, c1)"
      "session (?srv, c1) [cur] True" "me c1 = me c"
      by (rule session_get_tx [OF s D(3) D(5) None D(9)])
    have "goes_on user name key p tb0 cur nxt (srv, c) 2"
    proof (rule goes_onI)
      show "server_serves (fst (incr_requests True user name key ! 2)) (srv, c) ok_line (?srv, c1)"
        using c1(1) by (simp add: incr_requests_def)
      show "stage (Suc 2) p (if (2::nat) = 6 then nxt else cur) cur (?srv, c1)" using c1 D(6) by (simp add: stage_def)
      show "moved p tb0 key (me c) srv cur nxt ?srv (if (2::nat) = 6 then nxt else cur) cur"
        using D(7) D(8) [OF None] None by (intro moved_at [OF D(4)]) simp_all
    qed (use D(6) h in \<open>simp_all add: table_frame\<close>)
    then show ?thesis ..
  next
    case (Some u)
    have "t_mutex (heap srv ! q) \<noteq> Some (me c)" if "q < length (heap srv)" for q
      using D(10) h that by (cases "q = p") auto
    then have "locked_tables c = []" using s by (auto simp: session_def conn_ok_def owned_tables_def)
    then show ?thesis
      using session_get_refused [OF s D(3) D(5) Some] Some h by (metis option.distinct(1))
  qed
qed

lemma goes_on_push:
  assumes cc: "can_count user name key p tb0 cur nxt (srv, c)" and st: "stage 3 p cur nxt (srv, c)"
  shows "goes_on user name key p tb0 cur nxt (srv, c) 3"
proof -
  note D = can_countD [OF cc]
  have s: "session (srv, c) [cur] True" "nxt = cur" "t_mutex (heap srv ! p) = Some (me c)" using st by (simp_all add: stage_def)
  obtain c1 where "server_serves (Message_new PUSH [''1'']) (srv, c) ok_line (srv, c1)" "session (srv, c1) [''1'', cur] True"
    "me c1 = me c" by (rule session_push [OF s(1) sendable_one])
  then show ?thesis using D(4) s by (intro goes_onI [where srv' = srv and c' = c1 and nxt' = nxt]) (simp_all add: incr_requests_def stage_def)
qed

lemma goes_on_add:
  assumes cc: "can_count user name key p tb0 cur nxt (srv, c)" and st: "stage 4 p cur nxt (srv, c)"
    and n: "\<exists>i. stoi cur = Ret i \<and> in_int (i + 1)"
  shows "goes_on user name key p tb0 cur nxt (srv, c) 4"
proof -
  note D = can_countD [OF cc]
  have s: "session (srv, c) [''1'', cur] True" "nxt = cur" "t_mutex (heap srv ! p) = Some (me c)" using st by (simp_all add: stage_def)
  have one: "stoi ''1'' = Ret 1" by code_simp
  obtain i where number: "stoi cur = Ret i" "in_int (i + 1)" using n by blast
  obtain c1 where "server_serves (Message_new ADD []) (srv, c) ok_line (srv, c1)" "session (srv, c1) [to_string (i + 1)] True"
    "me c1 = me c" using session_add [OF s(1) one number] by auto
  then show ?thesis
    using D(4) s by (intro goes_onI [where srv' = srv and c' = c1 and nxt' = nxt]) (simp_all add: incr_requests_def stage_def incremented_def number)
qed

lemma goes_on_set:
  assumes cc: "can_count user name key p tb0 cur nxt (srv, c)" and st: "stage 5 p cur nxt (srv, c)"
  shows "goes_on user name key p tb0 cur nxt (srv, c) 5"
proof -
  note D = can_countD [OF cc]
  let ?srv = "at_table p (table_set key (incremented cur)) srv"
  have s: "session (srv, c) [incremented cur] True" and h: "t_mutex (heap srv ! p) = Some (me c)"
    using st by (simp_all add: stage_def)
  obtain c1 where c1: "server_serves (Message_new SET [name, key]) (srv, c) ok_line (?srv, c1)" "session (?srv, c1) [] True"
    "me c1 = me c" using session_set_tx [OF s D(2) D(5) h] by auto
  show ?thesis
  proof (rule goes_onI)
    show "server_serves (fst (incr_requests True user name key ! 5)) (srv, c) ok_line (?srv, c1)"
      using c1(1) by (simp add: incr_requests_def)
    show "stage (Suc 5) p (if (5::nat) = 6 then nxt else cur) (incremented cur) (?srv, c1)"
      using c1 D(6) h by (simp add: stage_def table_frame)
    show "moved p tb0 key (me c) srv cur nxt ?srv (if (5::nat) = 6 then nxt else cur) (incremented cur)"
      using table_now_set [OF D(7)] h by (intro moved_at [OF D(4)]) (simp_all add: table_frame)
  qed (use D(6) h in \<open>simp_all add: table_frame\<close>)
qed

lemma goes_on_commit:
  assumes cc: "can_count user name key p tb0 cur nxt (srv, c)" and st: "stage 6 p cur nxt (srv, c)"
  shows "goes_on user name key p tb0 cur nxt (srv, c) 6"
proof -
  note D = can_countD [OF cc]
  have s: "session (srv, c) [] True" and h: "t_mutex (heap srv ! p) = Some (me c)" using st by (simp_all add: stage_def)
  have ok: "conn_ok (srv, c)" using s by (simp add: session_def)
  have "set (locked_tables c) = {p}" "distinct (locked_tables c)"
    using ok D(10) h D(6) by (auto simp: conn_ok_def owned_tables_def)
  then have ps: "locked_tables c = [p]" by (cases "locked_tables c" rule: list.exhaust) (auto, metis distinct.simps(2) list.set_intros(1) neq_Nil_conv singletonD subset_singletonD set_empty)
  let ?srv = "at_table p (\<lambda>tb. (commit_changes tb)\<lparr>t_mutex := None\<rparr>) srv"
  obtain c1 where c1: "server_serves (Message_new COMMIT []) (srv, c) ok_line (?srv, c1)" "session (?srv, c1) [] False"
    using session_commit [OF s] ps by (auto simp: release_all_def)
  show ?thesis
  proof (rule goes_onI)
    show "server_serves (fst (incr_requests True user name key ! 6)) (srv, c) ok_line (?srv, c1)"
      using c1(1) by (simp add: incr_requests_def)
    show "stage (Suc 6) p (if (6::nat) = 6 then nxt else cur) nxt (?srv, c1)" using c1 by (simp add: stage_def)
    show "moved p tb0 key (me c) srv cur nxt ?srv (if (6::nat) = 6 then nxt else cur) nxt"
      using table_now_commit [OF D(7)] h by (intro moved_at [OF D(4)]) simp_all
  qed (use D(6) h in \<open>simp_all add: table_frame\<close>)
qed

lemma goes_on_bye:
  assumes cc: "can_count user name key p tb0 cur nxt (srv, c)" and st: "stage 7 p cur nxt (srv, c)"
  shows "goes_on user name key p tb0 cur nxt (srv, c) 7"
proof -
  note D = can_countD [OF cc]
  have s: "session (srv, c) [] False" using st by (simp add: stage_def)
  obtain c1 where "server_serves (Message_new BYE []) (srv, c) ok_line (srv, c1)" "conn_ok (srv, c1)" "\<not> in_transaction c1"
    using session_bye [OF s] by blast
  then show ?thesis using D(4) by (intro goes_onI [where srv' = srv and c' = c1 and nxt' = nxt]) (simp_all add: incr_requests_def stage_def)
qed

lemma request_answered:
  assumes cc: "can_count user name key p tb0 cur nxt (srv, c)" and st: "stage j p cur nxt (srv, c)" and j: "j < 8"
    and n: "j = 4 \<Longrightarrow> \<exists>i. stoi cur = Ret i \<and> in_int (i + 1)"
  shows "goes_on user name key p tb0 cur nxt (srv, c) j \<or> (j = 2 \<and> t_mutex (heap srv ! p) \<noteq> None \<and>
    (\<exists>c1. server_serves (Message_new GET [name, key]) (srv, c) busy_refusal (srv, c1) \<and> \<not> in_transaction c1))"
proof -
  consider "j = 0" | "j = 1" | "j = 2" | "j = 3" | "j = 4" | "j = 5" | "j = 6" | "j = 7" using j by linarith
  then show ?thesis
  proof cases
    case 3
    with get_in_transaction [OF cc] st show ?thesis by blast
  qed (use st n goes_on_login [OF cc] goes_on_begin [OF cc] goes_on_push [OF cc] goes_on_add [OF cc] goes_on_set [OF cc]
      goes_on_commit [OF cc] goes_on_bye [OF cc] in blast)+
qed

section \<open>All programs together\<close>

definition increments ::
  "bool \<Rightarrow> Server \<Rightarrow> thread_id set \<Rightarrow> (thread_id \<Rightarrow> string) \<Rightarrow> (thread_id \<Rightarrow> int) \<Rightarrow> (thread_id \<Rightarrow> rio_t) \<Rightarrow> string \<Rightarrow> string \<Rightarrow> crowd"
where
  "increments use_transaction srv T user fd cg name key =
     \<lparr>db = srv, programs = (\<lambda>t. if t \<in> T then Some (new_program t (fd t) (cg t) (incr_requests use_transaction (user t) name key)) else None),
      down = False\<rparr>"

text \<open>The programs whose \<open>COMMIT\<close> was answered by \<open>OK\<close>: they have at most \<open>BYE\<close> to send.\<close>

definition acknowledged :: "thread_id set \<Rightarrow> crowd \<Rightarrow> thread_id set" where
  "acknowledged T s = {t \<in> T. \<exists>q. programs s t = Some q \<and> length (todo q) \<le> 1}"

text \<open>The value at the key after \<open>k\<close> increments of \<open>v\<close>, which is the number \<open>i\<close>.\<close>

definition value_after :: "string \<Rightarrow> int \<Rightarrow> nat \<Rightarrow> string" where
  "value_after v i k = (if k = 0 then v else to_string (i + int k))"

lemma value_after_number: "stoi v = Ret i \<Longrightarrow> in_int (i + int k) \<Longrightarrow> stoi (value_after v i k) = Ret (i + int k)"
  by (simp add: value_after_def stoi_to_string)

lemma value_after_Suc:
  "stoi v = Ret i \<Longrightarrow> in_int (i + int k) \<Longrightarrow> incremented (value_after v i k) = value_after v i (Suc k)"
  using value_after_number [of v i k] by (simp add: incremented_def) (simp add: value_after_def add.commute add.left_commute)

lemma in_int_between: "in_int i \<Longrightarrow> in_int (i + int n) \<Longrightarrow> k \<le> n \<Longrightarrow> in_int (i + int k)"
  by (simp add: in_int_def)

text \<open>A program on its way, and one that was refused the table.\<close>

definition on_course :: "request list \<Rightarrow> table_ptr \<Rightarrow> string \<Rightarrow> string \<Rightarrow> Server \<Rightarrow> program \<Rightarrow> nat \<Rightarrow> bool" where
  "on_course rqs p cur nxt srv q j \<longleftrightarrow>
     j \<le> 8 \<and> todo q = drop j rqs \<and> status q = (if j = 8 then Some (Ret 0) else None) \<and> stage j p cur nxt (srv, conn q)"

definition refused :: "request list \<Rightarrow> program \<Rightarrow> bool" where
  "refused rqs q \<longleftrightarrow> todo q = drop 3 rqs \<and> status q = Some (Throw unquoted_error) \<and> \<not> in_transaction (conn q)"

definition accounted :: "request list \<Rightarrow> table_ptr \<Rightarrow> string \<Rightarrow> string \<Rightarrow> Server \<Rightarrow> thread_id \<Rightarrow> program \<Rightarrow> bool" where
  "accounted rqs p cur nxt srv t q \<longleftrightarrow>
     between_requests srv t q \<and> ((\<exists>j. on_course rqs p cur nxt srv q j) \<or> refused rqs q)"

lemma accounted_other:
  assumes a: "accounted rqs p cur nxt srv u q" and u: "u \<noteq> t" and p: "p < length (heap srv)"
    and g: "guar t srv srv'" "server_ok srv'" and m: "moved p tb0 key t srv cur nxt srv' cur' nxt'"
  shows "accounted rqs p cur' nxt' srv' u q"
proof -
  have b: "between_requests srv' u q" using a between_other [OF _ g(1) u g(2)] by (simp add: accounted_def)
  then have c: "conn_ok (srv', conn q)" "me (conn q) = u" by (simp_all add: between_requests_def)
  have p': "p < length (heap srv')" using guar_tables [OF g(1)] p by simp
  have h: "t_mutex (heap srv' ! p) = Some u \<longleftrightarrow> t_mutex (heap srv ! p) = Some u"
    using guar_held [OF g(1) p u] guar_holder [OF g(1) p' u] by auto
  have "cur' = cur \<and> nxt' = nxt" if "t_mutex (heap srv ! p) = Some u" using m u that by (auto simp: moved_def)
  then have "on_course rqs p cur' nxt' srv' q j" if "on_course rqs p cur nxt srv q j" for j
    using that stage_other [of j p cur nxt srv "conn q" srv' cur' nxt'] c h by (simp add: on_course_def)
  with a b show ?thesis unfolding accounted_def by blast
qed

definition tally ::
  "thread_id set \<Rightarrow> (thread_id \<Rightarrow> request list) \<Rightarrow> string \<Rightarrow> table_ptr \<Rightarrow> string \<Rightarrow> Server \<Rightarrow> string \<Rightarrow> int \<Rightarrow> crowd \<Rightarrow> string \<Rightarrow> string \<Rightarrow> bool"
where
  "tally T rqs name p key srv0 v i s cur nxt \<longleftrightarrow>
     \<not> down s \<and> server_ok (db s) \<and> same_but p srv0 (db s) \<and> counting name p (heap srv0 ! p) key (db s) cur nxt \<and>
     (\<forall>u. t_mutex (heap (db s) ! p) = Some u \<longrightarrow> u \<in> T) \<and>
     (\<forall>t\<in>T. \<exists>q. programs s t = Some q \<and> accounted (rqs t) p cur nxt (db s) t q) \<and>
     (\<forall>t. t \<notin> T \<longrightarrow> programs s t = None) \<and> cur = value_after v i (card (acknowledged T s)) \<and>
     ((\<exists>t\<in>T. \<exists>q. programs s t = Some q \<and> refused (rqs t) q) \<longrightarrow> acknowledged T s \<noteq> {} \<or> t_mutex (heap (db s) ! p) \<noteq> None)"

lemma tallyD:
  assumes "tally T rqs name p key srv0 v i s cur nxt"
  shows "\<not> down s" "server_ok (db s)" "same_but p srv0 (db s)" "counting name p (heap srv0 ! p) key (db s) cur nxt"
    "t_mutex (heap (db s) ! p) = Some u \<Longrightarrow> u \<in> T"
    "programs s t = Some q \<Longrightarrow> t \<in> T \<and> accounted (rqs t) p cur nxt (db s) t q"
    "t \<in> T \<Longrightarrow> \<exists>q. programs s t = Some q" "t \<notin> T \<Longrightarrow> programs s t = None"
    "cur = value_after v i (card (acknowledged T s))"
    "programs s t = Some q \<Longrightarrow> refused (rqs t) q \<Longrightarrow> acknowledged T s \<noteq> {} \<or> t_mutex (heap (db s) ! p) \<noteq> None"
proof -
  note A = assms [unfolded tally_def]
  show "\<not> down s" "server_ok (db s)" "same_but p srv0 (db s)" "counting name p (heap srv0 ! p) key (db s) cur nxt"
    "cur = value_after v i (card (acknowledged T s))" using A by blast+
  show "t_mutex (heap (db s) ! p) = Some u \<Longrightarrow> u \<in> T" "t \<notin> T \<Longrightarrow> programs s t = None" using A by blast+
  have ac: "\<forall>t\<in>T. \<exists>q. programs s t = Some q \<and> accounted (rqs t) p cur nxt (db s) t q"
    "\<forall>t. t \<notin> T \<longrightarrow> programs s t = None" using A by blast+
  then show "t \<in> T \<Longrightarrow> \<exists>q. programs s t = Some q" by blast
  show pr: "t \<in> T \<and> accounted (rqs t) p cur nxt (db s) t q" if "programs s t = Some q"
    using ac that by (metis option.distinct(1) option.inject)
  show "acknowledged T s \<noteq> {} \<or> t_mutex (heap (db s) ! p) \<noteq> None" if "programs s t = Some q" "refused (rqs t) q"
    using A that pr by blast
qed

lemma tally_update:
  assumes ty: "tally T rqs name p key srv0 v i s cur nxt" and t: "programs s t = Some q"
    and a: "accounted (rqs t) p cur' nxt' srv' t q'" and g: "guar t (db s) srv'"
    and m: "moved p (heap srv0 ! p) key t (db s) cur nxt srv' cur' nxt'"
    and n: "cur' = value_after v i (card (acknowledged T (s\<lparr>db := srv', programs := (programs s)(t \<mapsto> q')\<rparr>)))"
    and f: "\<And>u r. u \<in> T \<Longrightarrow> ((programs s)(t \<mapsto> q')) u = Some r \<Longrightarrow> refused (rqs u) r \<Longrightarrow>
      acknowledged T (s\<lparr>db := srv', programs := (programs s)(t \<mapsto> q')\<rparr>) \<noteq> {} \<or> t_mutex (heap srv' ! p) \<noteq> None"
  shows "tally T rqs name p key srv0 v i (s\<lparr>db := srv', programs := (programs s)(t \<mapsto> q')\<rparr>) cur' nxt'"
proof -
  let ?s = "s\<lparr>db := srv', programs := (programs s)(t \<mapsto> q')\<rparr>"
  note D = tallyD [OF ty]
  have tT: "t \<in> T" using D(6) [OF t] by blast
  have p: "p < length (heap (db s))" using D(4) by (simp add: counting_def)
  have ok: "server_ok srv'" using a conn_ok_server_ok by (auto simp: accounted_def between_requests_def)
  have "accounted (rqs u) p cur' nxt' srv' u r" if "programs s u = Some r" "u \<noteq> t" for u r
    using accounted_other [OF _ that(2) p g ok m] D(6) [OF that(1)] by blast
  then have "\<forall>u\<in>T. \<exists>r. ((programs s)(t \<mapsto> q')) u = Some r \<and> accounted (rqs u) p cur' nxt' srv' u r"
    using a D(7) by (metis fun_upd_apply)
  moreover have "same_but p srv0 srv'" using D(3) m same_but_trans unfolding moved_def by blast
  moreover have "counting name p (heap srv0 ! p) key srv' cur' nxt'" by (rule moved_counting [OF D(4) m])
  moreover have "\<forall>u. t_mutex (heap srv' ! p) = Some u \<longrightarrow> u \<in> T" using m D(5) tT by (auto simp: moved_def)
  moreover have "\<forall>u. u \<notin> T \<longrightarrow> ((programs s)(t \<mapsto> q')) u = None" using D(8) tT by auto
  moreover have s: "db ?s = srv'" "programs ?s = (programs s)(t \<mapsto> q')" "down ?s = down s" by simp_all
  ultimately show ?thesis
    using D(1) ok n f unfolding tally_def s by blast
qed

lemma acknowledged_update:
  assumes "programs s t = Some q" "t \<in> T" "length (todo q) \<le> 1 \<Longrightarrow> length (todo q') \<le> 1"
  shows "acknowledged T (s\<lparr>db := srv', programs := (programs s)(t \<mapsto> q')\<rparr>) =
    (if length (todo q') \<le> 1 then insert t (acknowledged T s) else acknowledged T s)"
  using assms by (auto simp: acknowledged_def)

lemma acknowledged_mem: "programs s t = Some q \<Longrightarrow> t \<in> acknowledged T s \<longleftrightarrow> t \<in> T \<and> length (todo q) \<le> 1"
  by (simp add: acknowledged_def)

lemma incr_requests_length: "length (incr_requests True user name key) = 8"
  by (simp add: incr_requests_def)

text \<open>What the programs and the server are given.\<close>

definition fair_start ::
  "thread_id set \<Rightarrow> (thread_id \<Rightarrow> string) \<Rightarrow> string \<Rightarrow> table_ptr \<Rightarrow> string \<Rightarrow> Server \<Rightarrow> string \<Rightarrow> int \<Rightarrow> bool" where
  "fair_start T user name p key srv v i \<longleftrightarrow>
     finite T \<and> (\<forall>t\<in>T. can_use srv t name p key (user t)) \<and> committed (heap srv ! p) key = Some v \<and>
     stoi v = Ret i \<and> in_int (i + int (card T))"

abbreviation requests_of :: "(thread_id \<Rightarrow> string) \<Rightarrow> string \<Rightarrow> string \<Rightarrow> thread_id \<Rightarrow> request list" where
  "requests_of user name key t \<equiv> incr_requests True (user t) name key"

lemma tally_can_count:
  assumes fs: "fair_start T user name p key srv0 v i"
    and ty: "tally T (requests_of user name key) name p key srv0 v i s cur nxt" and t: "programs s t = Some q"
  shows "can_count (user t) name key p (heap srv0 ! p) cur nxt (seen (db s, conn q))"
proof -
  note D = tallyD [OF ty]
  have tT: "t \<in> T" and me: "me (conn q) = t" using D(6) [OF t] by (simp_all add: accounted_def between_requests_def)
  have u: "can_use srv0 t name p key (user t)" using fs tT by (simp add: fair_start_def)
  then have "t_mutex (heap srv0 ! r) \<noteq> Some t" if "r < length (heap srv0)" for r
    using that by (simp add: can_use_def list_all_length)
  then have "\<forall>r<length (heap (db s)). r \<noteq> p \<longrightarrow> t_mutex (heap (db s) ! r) \<noteq> Some t"
    using D(3) by (simp add: same_but_def)
  then show ?thesis using u D(4) me by (simp add: can_count_def can_use_def seen_def)
qed

lemma tally_number:
  assumes fs: "fair_start T user name p key srv0 v i" and ty: "tally T rqs name p key srv0 v i s cur nxt"
    and t: "programs s t = Some q" "t \<notin> acknowledged T s"
  shows "stoi cur = Ret (i + int (card (acknowledged T s)))" "in_int (i + int (card (acknowledged T s)) + 1)"
    "incremented cur = value_after v i (Suc (card (acknowledged T s)))"
proof -
  let ?k = "card (acknowledged T s)"
  have F: "finite T" "stoi v = Ret i" "in_int (i + int (card T))" using fs by (simp_all add: fair_start_def)
  have "acknowledged T s \<subseteq> T" by (auto simp: acknowledged_def)
  then have "acknowledged T s \<subset> T" using t(2) tallyD(6) [OF ty t(1)] by blast
  then have k: "?k < card T" by (rule psubset_card_mono [OF F(1)])
  have n: "in_int (i + int ?k)" using in_int_between [OF stoi_range [OF F(2)] F(3)] k by simp
  have cur: "cur = value_after v i ?k" by (rule tallyD(9) [OF ty])
  show "stoi cur = Ret (i + int ?k)" unfolding cur by (rule value_after_number [OF F(2) n])
  show "incremented cur = value_after v i (Suc ?k)" unfolding cur by (rule value_after_Suc [OF F(2) n])
  show "in_int (i + int ?k + 1)"
    using in_int_between [OF stoi_range [OF F(2)] F(3), of "Suc ?k"] k by (simp add: add.commute add.left_commute)
qed

text \<open>A request that is answered by \<open>OK\<close>.\<close>

lemma tally_goes_on:
  assumes fs: "fair_start T user name p key srv0 v i"
    and ty: "tally T (requests_of user name key) name p key srv0 v i s cur nxt" and t: "programs s t = Some q"
    and j: "on_course (requests_of user name key t) p cur nxt (db s) q j" "j < 8"
    and st1: "stage (Suc j) p (if j = 6 then nxt else cur) nxt1 (srv1, c')"
    and m: "moved p (heap srv0 ! p) key t (db s) cur nxt srv1 (if j = 6 then nxt else cur) nxt1"
    and h: "t_mutex (heap srv1 ! p) = None \<longrightarrow> j = 6 \<or> t_mutex (heap (db s) ! p) = None"
    and c': "drained (srv1, c')" "quiet inp" "conn_ok (srv1, c')" "me c' = t" "guar t (db s) srv1"
    and q': "conn q' = c'" "inbox q' = inp" "todo q' = drop (Suc j) (requests_of user name key t)"
      "status q' = status_after (Ret 0) (drop (Suc j) (requests_of user name key t))"
  shows "\<exists>cur1 nxt1. tally T (requests_of user name key) name p key srv0 v i
    (s\<lparr>db := srv1, programs := (programs s)(t \<mapsto> q')\<rparr>) cur1 nxt1"
proof -
  let ?s = "s\<lparr>db := srv1, programs := (programs s)(t \<mapsto> q')\<rparr>" and ?cur = "if j = 6 then nxt else cur"
  note D = tallyD [OF ty]
  have tT: "t \<in> T" using D(6) [OF t] by blast
  have len: "length (todo q) = 8 - j" "length (todo q') = 7 - j"
    using j(1) q'(3) incr_requests_length by (simp_all add: on_course_def)
  have "on_course (requests_of user name key t) p ?cur nxt1 srv1 q' (Suc j)"
    using st1 q' j(2) incr_requests_length [of "user t" name key] by (auto simp: on_course_def status_after_def)
  moreover have "between_requests srv1 t q'" using c' q' by (simp add: between_requests_def)
  ultimately have a: "accounted (requests_of user name key t) p ?cur nxt1 srv1 t q'" unfolding accounted_def by blast
  have ak: "acknowledged T ?s = (if 6 \<le> j then insert t (acknowledged T s) else acknowledged T s)"
    using acknowledged_update [OF t tT, of q' srv1] len j(2) by auto
  have mem: "t \<in> acknowledged T s \<longleftrightarrow> 7 \<le> j" using acknowledged_mem [OF t, of T] tT len(1) j(2) by auto
  have fin: "finite (acknowledged T s)" using fs by (simp add: fair_start_def acknowledged_def)
  have n: "?cur = value_after v i (card (acknowledged T ?s))"
  proof (cases "j = 6")
    case True
    have "nxt = incremented cur" using j(1) True by (simp add: on_course_def stage_def)
    also have "\<dots> = value_after v i (Suc (card (acknowledged T s)))"
      using mem True by (intro tally_number(3) [OF fs ty t]) simp
    finally show ?thesis using True ak mem fin by simp
  next
    case False
    then have "acknowledged T ?s = acknowledged T s" using ak mem by auto
    then show ?thesis using False D(9) by simp
  qed
  have f: "acknowledged T ?s \<noteq> {} \<or> t_mutex (heap srv1 ! p) \<noteq> None"
    if "u \<in> T" "((programs s)(t \<mapsto> q')) u = Some r" "refused (requests_of user name key u) r" for u r
  proof (cases "u = t")
    case True
    then show ?thesis using that(2,3) q'(4) by (simp add: refused_def status_after_def split: if_splits)
  next
    case False
    then have "acknowledged T s \<noteq> {} \<or> t_mutex (heap (db s) ! p) \<noteq> None" using D(10) that by simp
    then show ?thesis using ak h by (auto split: if_splits)
  qed
  have "tally T (requests_of user name key) name p key srv0 v i ?s ?cur nxt1"
    by (rule tally_update [OF ty t a c'(5) m n]) (rule f)
  then show ?thesis by blast
qed

text \<open>A request that is refused because another program owns the table.\<close>

lemma tally_refused:
  assumes ty: "tally T (requests_of user name key) name p key srv0 v i s cur nxt" and t: "programs s t = Some q"
    and j: "on_course (requests_of user name key t) p cur nxt (db s) q 2" and h: "t_mutex (heap (db s) ! p) \<noteq> None"
    and c': "drained (db s, c')" "quiet inp" "conn_ok (db s, c')" "me c' = t" "\<not> in_transaction c'"
    and q': "conn q' = c'" "inbox q' = inp" "todo q' = drop 3 (requests_of user name key t)"
      "status q' = Some (Throw unquoted_error)"
  shows "tally T (requests_of user name key) name p key srv0 v i (s\<lparr>db := db s, programs := (programs s)(t \<mapsto> q')\<rparr>) cur nxt"
proof -
  note D = tallyD [OF ty]
  have tT: "t \<in> T" using D(6) [OF t] by blast
  have "length (todo q) = 6" "length (todo q') = 5"
    using j q'(3) incr_requests_length by (simp_all add: on_course_def)
  then have ak: "acknowledged T (s\<lparr>db := db s, programs := (programs s)(t \<mapsto> q')\<rparr>) = acknowledged T s"
    using acknowledged_update [OF t tT, of q' "db s"] by simp
  have "accounted (requests_of user name key t) p cur nxt (db s) t q'"
    using c' q' by (simp add: accounted_def between_requests_def refused_def)
  then show ?thesis
    by (rule tally_update [OF ty t _ guar_refl moved_same [OF D(4)]]) (use ak D(9) h in auto)
qed

text \<open>A thread whose program has ended.\<close>

lemma tally_leaves:
  assumes ty: "tally T (requests_of user name key) name p key srv0 v i s cur nxt" and t: "programs s t = Some q"
    and st: "status q \<noteq> None" and run: "thread_leaves (db s, conn q) = (Ret (), (srv', c'))"
  shows "tally T (requests_of user name key) name p key srv0 v i (s\<lparr>db := srv', programs := (programs s)(t \<mapsto> q\<lparr>conn := c'\<rparr>)\<rparr>) cur nxt"
proof -
  note D = tallyD [OF ty]
  let ?q = "q\<lparr>conn := c'\<rparr>"
  have tT: "t \<in> T" and b: "between_requests (db s) t q" and a: "accounted (requests_of user name key t) p cur nxt (db s) t q"
    using D(6) [OF t] by (simp_all add: accounted_def)
  have "\<not> in_transaction (conn q)" using a st
    by (auto simp: accounted_def on_course_def refused_def stage_def split: if_splits)
  note l = idle_thread_leaves [OF b this run]
  have ak: "acknowledged T (s\<lparr>db := db s, programs := (programs s)(t \<mapsto> ?q)\<rparr>) = acknowledged T s"
    using acknowledged_update [OF t tT, of ?q "db s"] acknowledged_mem [OF t] tT by auto
  have "refused (requests_of user name key t) ?q \<or> on_course (requests_of user name key t) p cur nxt (db s) ?q 8"
    using a st l by (auto simp: accounted_def on_course_def refused_def stage_def between_requests_def split: if_splits)
  then have "accounted (requests_of user name key t) p cur nxt (db s) t ?q" using l unfolding accounted_def by blast
  moreover have "acknowledged T s \<noteq> {} \<or> t_mutex (heap (db s) ! p) \<noteq> None"
    if "u \<in> T" "((programs s)(t \<mapsto> ?q)) u = Some r" "refused (requests_of user name key u) r" for u r
  proof (cases "u = t")
    case True
    then have "refused (requests_of user name key t) q" using that a st l by (auto simp: refused_def accounted_def on_course_def stage_def split: if_splits)
    then show ?thesis by (rule D(10) [OF t])
  next
    case False
    then show ?thesis using D(10) that by simp
  qed
  ultimately have "tally T (requests_of user name key) name p key srv0 v i (s\<lparr>db := db s, programs := (programs s)(t \<mapsto> ?q)\<rparr>) cur nxt"
    by (intro tally_update [OF ty t _ guar_refl moved_same [OF D(4)]]) (use ak D(9) in auto)
  with l show ?thesis by simp
qed

text \<open>The next request of a program is answered by \<open>OK\<close>, or is a \<open>GET\<close> and is refused.\<close>

lemma tally_next:
  assumes fs: "fair_start T user name p key srv0 v i"
    and ty: "tally T (requests_of user name key) name p key srv0 v i s cur nxt"
    and q: "programs s t = Some q" "status q = None" "todo q = rq # rqs"
  obtains (ok) j srv1 c1 nxt1 where "on_course (requests_of user name key t) p cur nxt (db s) q j" "j < 8"
      "rq \<in> set (requests_of user name key t)" "rqs = drop (Suc j) (requests_of user name key t)"
      "server_serves (fst rq) (seen (db s, conn q)) ok_line (srv1, c1)"
      "stage (Suc j) p (if j = 6 then nxt else cur) nxt1 (srv1, c1)"
      "moved p (heap srv0 ! p) key t (db s) cur nxt srv1 (if j = 6 then nxt else cur) nxt1"
      "t_mutex (heap srv1 ! p) = None \<longrightarrow> j = 6 \<or> t_mutex (heap (db s) ! p) = None"
  | (no) c1 where "on_course (requests_of user name key t) p cur nxt (db s) q 2"
      "rqs = drop 3 (requests_of user name key t)" "snd rq = handle_possible_ok_response"
      "server_serves (fst rq) (seen (db s, conn q)) busy_refusal (db s, c1)"
      "\<not> in_transaction c1" "t_mutex (heap (db s) ! p) \<noteq> None"
proof -
  let ?R = "requests_of user name key t"
  have ac: "accounted ?R p cur nxt (db s) t q" using tallyD(6) [OF ty q(1)] by simp
  then obtain j where j: "on_course ?R p cur nxt (db s) q j" using q(2) by (auto simp: accounted_def refused_def)
  then have j8: "j < 8" using q(2) by (auto simp: on_course_def split: if_splits)
  have "?R ! j # drop (Suc j) ?R = drop j ?R" using j8 incr_requests_length by (intro Cons_nth_drop_Suc) simp
  then have "rq # rqs = ?R ! j # drop (Suc j) ?R" using j q(3) by (simp add: on_course_def)
  then have r: "rq = ?R ! j" "rqs = drop (Suc j) ?R" by simp_all
  have me: "me (snd (seen (db s, conn q))) = t" using ac by (simp add: accounted_def between_requests_def seen_def)
  have "t \<notin> acknowledged T s" if "j = 4"
    using j that acknowledged_mem [OF q(1)] incr_requests_length by (simp add: on_course_def)
  then have n: "\<exists>i. stoi cur = Ret i \<and> in_int (i + 1)" if "j = 4" using tally_number [OF fs ty q(1)] that by blast
  have "stage j p cur nxt (db s, with_input example_rio [] (conn q))"
    using j stage_seen [of j p cur nxt "db s" "conn q"] by (simp add: on_course_def seen_def)
  moreover have "can_count (user t) name key p (heap srv0 ! p) cur nxt (db s, with_input example_rio [] (conn q))"
    using tally_can_count [OF fs ty q(1)] by (simp add: seen_def)
  ultimately consider (on) "goes_on (user t) name key p (heap srv0 ! p) cur nxt (seen (db s, conn q)) j"
    | (off) c1 where "j = 2" "t_mutex (heap (db s) ! p) \<noteq> None"
      "server_serves (Message_new GET [name, key]) (seen (db s, conn q)) busy_refusal (db s, c1)" "\<not> in_transaction c1"
    using request_answered [OF _ _ j8 n] unfolding seen_def fst_conv snd_conv by blast
  then show thesis
  proof cases
    case on
    obtain srv1 c1 nxt1 where "server_serves (fst rq) (seen (db s, conn q)) ok_line (srv1, c1)"
      "stage (Suc j) p (if j = 6 then nxt else cur) nxt1 (srv1, c1)"
      "moved p (heap srv0 ! p) key t (db s) cur nxt srv1 (if j = 6 then nxt else cur) nxt1"
      "t_mutex (heap srv1 ! p) = None \<longrightarrow> j = 6 \<or> t_mutex (heap (db s) ! p) = None"
      using on unfolding goes_on_def me r(1) by (auto simp: seen_def)
    moreover have "rq \<in> set ?R" using r(1) j8 incr_requests_length [of "user t" name key] by simp
    ultimately show thesis using j j8 r(2) by (intro ok)
  next
    case off
    have "fst rq = Message_new GET [name, key]" "snd rq = handle_possible_ok_response"
      using r(1) off(1) by (simp_all add: incr_requests_def)
    with off j r(2) show thesis by (intro no [of c1]) (simp_all add: numeral_3_eq_3)
  qed
qed

lemma tally_request:
  assumes d: "delivers ts" "delivers tc" and fs: "fair_start T user name p key srv0 v i"
    and ty: "tally T (requests_of user name key) name p key srv0 v i s cur nxt"
    and q: "programs s t = Some q" "status q = None" "todo q = rq # rqs"
    and e: "exchange (net_respond ts tc) g sock (fst rq) (snd rq)
      (client_state (db s, conn q) (inbox q) (printed q) (complained q)) = (r, client_state (srv', c') inp out err)"
  shows "\<exists>cur nxt. tally T (requests_of user name key) name p key srv0 v i (s\<lparr>db := srv', programs := (programs s)(t \<mapsto>
      \<lparr>conn = c', inbox = inp, printed = out, complained = err, todo = rqs, status = status_after r rqs\<rparr>)\<rparr>) cur nxt"
proof -
  have b: "between_requests (db s) t q" using tallyD(6) [OF ty q(1)] by (simp add: accounted_def)
  from fs ty q show ?thesis
  proof (cases rule: tally_next)
    case (ok j srv1 c1 nxt1)
    obtain c2 inp2 where x: "exchange (net_respond ts tc) g sock (fst rq) (snd rq)
          (client_state (db s, conn q) (inbox q) (printed q) (complained q)) =
        snd rq (ok_line @ [nul]) (client_state (srv1, c2) inp2 (printed q) (complained q))"
      and c2: "seen (srv1, c2) = (srv1, c1)" "drained (srv1, c2)" "quiet inp2" "conn_ok (srv1, c2)" "me c2 = t" "guar t (db s) srv1"
      by (rule served_request [OF d b ok(5)])
    have "r = Ret 0" "srv' = srv1" "c' = c2" "inp = inp2" using e x ok_handlers [OF ok(3)] by auto
    then show ?thesis
      using tally_goes_on [OF fs ty q(1) ok(1,2) ok(6) [folded stage_eq [OF c2(1)]] ok(7,8) c2(2-6)] ok(4) by simp
  next
    case (no c1)
    obtain c2 inp2 where x: "exchange (net_respond ts tc) g sock (fst rq) (snd rq)
          (client_state (db s, conn q) (inbox q) (printed q) (complained q)) =
        snd rq (busy_refusal @ [nul]) (client_state (db s, c2) inp2 (printed q) (complained q))"
      and c2: "seen (db s, c2) = (db s, c1)" "drained (db s, c2)" "quiet inp2" "conn_ok (db s, c2)" "me c2 = t"
      by (rule served_request [OF d b no(4)])
    have "r = Throw unquoted_error" "srv' = db s" "c' = c2" "inp = inp2"
      using e x no(3) busy_refusal_reply(2) by (auto simp: handle_possible_ok_response_def run_simps)
    then show ?thesis
      using tally_refused [OF ty q(1) no(1,6) c2(2-5), of "\<lparr>conn = c', inbox = inp, printed = out, complained = err, todo = rqs, status = status_after r rqs\<rparr>"]
        no(2,5) seen_fields(4) [OF c2(1)] by (auto simp: status_after_def)
  qed
qed

lemma tally_served:
  assumes d: "delivers ts" "delivers tc" and fs: "fair_start T user name p key srv0 v i"
    and ty: "tally T (requests_of user name key) name p key srv0 v i s cur nxt"
    and q: "programs s t = Some q" "status q = None" "todo q = rq # rqs"
  shows "iteration_result ts (fst rq) (db s, conn q) = Ret ()"
proof -
  have b: "between_requests (db s) t q" using tallyD(6) [OF ty q(1)] by (simp add: accounted_def)
  obtain l srv1 c1 where sv: "server_serves (fst rq) (seen (db s, conn q)) l (srv1, c1)"
    by (rule tally_next [OF fs ty q]; rule that; assumption)
  show ?thesis
    by (rule served_request [OF d b sv, where h = "snd rq" and g = "example_rio" and sock = 0 and out = "[]" and err = "[]"])
qed

lemma tally_step:
  assumes d: "delivers ts" "delivers tc" and fs: "fair_start T user name p key srv0 v i"
    and ty: "tally T (requests_of user name key) name p key srv0 v i s cur nxt" and st: "crowd_step ts tc g sock t s s'"
  shows "\<exists>cur' nxt'. tally T (requests_of user name key) name p key srv0 v i s' cur' nxt'"
  using st
proof cases
  case (request q rq rqs r srv' c' inp out err)
  then show ?thesis using tally_request [OF d fs ty request(3-5,7)] by simp
next
  case (leave q srv' c')
  then show ?thesis using tally_leaves [OF ty leave(3,4,6)] by blast
next
  case (collapse q rq rqs)
  then show ?thesis using tally_served [OF d fs ty collapse(3-5)] by simp
qed

text \<open>A program that has not ended can always take its next step.\<close>

lemma tally_can_step:
  assumes d: "delivers ts" "delivers tc" and fs: "fair_start T user name p key srv0 v i"
    and ty: "tally T (requests_of user name key) name p key srv0 v i s cur nxt"
    and q: "programs s t = Some q" "status q = None"
  obtains s' q' where "crowd_step ts tc g sock t s s'" "programs s' = (programs s)(t \<mapsto> q')" "length (todo q) = Suc (length (todo q'))"
proof -
  obtain j where "on_course (requests_of user name key t) p cur nxt (db s) q j"
    using tallyD(6) [OF ty q(1)] q(2) by (auto simp: accounted_def refused_def)
  then have "todo q \<noteq> []"
    using q(2) incr_requests_length [of "user t" name key] by (auto simp: on_course_def split: if_splits)
  then obtain rq rqs where r: "todo q = rq # rqs" by (cases "todo q") auto
  obtain res srv' c' inp out err where e: "exchange (net_respond ts tc) g sock (fst rq) (snd rq)
      (client_state (db s, conn q) (inbox q) (printed q) (complained q)) = (res, client_state (srv', c') inp out err)"
    by (metis client.cases prod.exhaust old.unit.exhaust)
  let ?q = "\<lparr>conn = c', inbox = inp, printed = out, complained = err, todo = rqs, status = status_after res rqs\<rparr>"
  have st: "crowd_step ts tc g sock t s (s\<lparr>db := srv', programs := (programs s)(t \<mapsto> ?q)\<rparr>)"
    by (rule request [OF tallyD(1) [OF ty] q r tally_served [OF d fs ty q r] e])
  show thesis by (rule that [OF st, of ?q]) (simp_all add: r)
qed

lemma tally_start:
  assumes fs: "fair_start T user name p key srv v i" and s: "server_ok srv" "find_table name srv = Some p" "t_mutex (heap srv ! p) = None"
  shows "tally T (requests_of user name key) name p key srv v i (increments True srv T user fd cg name key) v v"
proof -
  let ?s = "increments True srv T user fd cg name key"
  have p: "p < length (heap srv)" using s find_table_valid by (auto simp: server_ok_def)
  then have tb: "table_ok (heap srv ! p)" using s(1) by (simp add: server_ok_def list_all_length)
  have start: "programs ?s t = Some (new_program t (fd t) (cg t) (requests_of user name key t))" if "t \<in> T" for t
    using that by (simp add: increments_def)
  have "accounted (requests_of user name key t) p v v srv t (new_program t (fd t) (cg t) (requests_of user name key t))" if "t \<in> T" for t
  proof -
    have "can_use srv t name p key (user t)" using fs that by (simp add: fair_start_def)
    then have ok: "conn_ok (srv, ClientConnection_new t (fd t) (cg t) [])"
      by (intro conn_ok_new) (simp_all add: can_use_def list_all_length)
    moreover have "on_course (requests_of user name key t) p v v srv (new_program t (fd t) (cg t) (requests_of user name key t)) 0"
      using ok by (simp add: on_course_def new_program_def stage_def)
    ultimately show ?thesis using between_new unfolding accounted_def by blast
  qed
  moreover have "acknowledged T ?s = {}"
    using incr_requests_length by (auto simp: acknowledged_def increments_def new_program_def)
  moreover have "counting name p (heap srv ! p) key srv v v"
    using fs s p table_now_start [OF tb s(3)] by (simp add: counting_def fair_start_def)
  ultimately show ?thesis
    using s start by (auto simp: tally_def value_after_def refused_def new_program_def increments_def)
qed

lemma tally_reached:
  assumes "delivers ts" "delivers tc" "fair_start T user name p key srv v i" "crowd_steps ts tc g sock s0 s"
    and "tally T (requests_of user name key) name p key srv v i s0 cur nxt"
  shows "\<exists>cur nxt. tally T (requests_of user name key) name p key srv v i s cur nxt"
  using assms(4,5)
proof (induction rule: crowd_steps.induct)
  case (crowd_more s s1 t s')
  then show ?case using tally_step [OF assms(1-3)] by blast
qed blast

text \<open>When every program has ended the table is free.\<close>

lemma tally_ended:
  assumes ty: "tally T rqs name p key srv0 v i s cur nxt" and t: "programs s t = Some q" "status q \<noteq> None"
  shows "t_mutex (heap (db s) ! p) \<noteq> Some t"
proof -
  note D = tallyD [OF ty]
  have "p < length (heap (db s))" using D(4) by (simp add: counting_def)
  moreover have "conn_ok (db s, conn q)" "me (conn q) = t" "\<not> in_transaction (conn q)"
    using D(6) [OF t(1)] t(2) by (auto simp: accounted_def between_requests_def on_course_def refused_def stage_def split: if_splits)
  ultimately show ?thesis using conn_ok_held [of "db s" "conn q" p] conn_ok_unlocked [of "db s" "conn q"] by auto
qed

lemma tally_always:
  assumes "delivers ts" "delivers tc" "fair_start T user name p key srv v i"
    and "crowd_steps ts tc g sock (increments True srv T user fd cg name key) s" "T \<noteq> {}"
  shows "\<exists>cur nxt. tally T (requests_of user name key) name p key srv v i s cur nxt"
proof -
  obtain t where "can_use srv t name p key (user t)" using assms(3,5) by (auto simp: fair_start_def)
  then have "tally T (requests_of user name key) name p key srv v i (increments True srv T user fd cg name key) v v"
    by (intro tally_start [OF assms(3)]) (simp_all add: can_use_def)
  then show ?thesis by (rule tally_reached [OF assms(1-4)])
qed

definition all_ended :: "thread_id set \<Rightarrow> crowd \<Rightarrow> bool" where
  "all_ended T s \<longleftrightarrow> (\<forall>t\<in>T. \<forall>q. programs s t = Some q \<longrightarrow> status q \<noteq> None)"

lemma crowd_trans: "crowd_steps ts tc g sock s1 s2 \<Longrightarrow> crowd_steps ts tc g sock s s1 \<Longrightarrow> crowd_steps ts tc g sock s s2"
  by (induction rule: crowd_steps.induct) (auto intro: crowd_more)

lemma crowd_one: "crowd_step ts tc g sock t s s1 \<Longrightarrow> crowd_steps ts tc g sock s s1"
  by (rule crowd_more [OF crowd_none])

text \<open>The programs can be run to their ends: each exchange leaves one request less to send.\<close>

definition to_send :: "thread_id set \<Rightarrow> crowd \<Rightarrow> nat" where
  "to_send T s = (\<Sum>t\<in>T. length (todo (the (programs s t))))"

lemma to_send_less:
  assumes "finite T" "t \<in> T" "programs s t = Some q" "programs s' = (programs s)(t \<mapsto> q')" "length (todo q') < length (todo q)"
  shows "to_send T s' < to_send T s"
  unfolding to_send_def using assms by (intro sum_strict_mono_ex1) auto

lemma tally_completes:
  assumes "delivers ts" "delivers tc" "fair_start T user name p key srv v i"
    and "tally T (requests_of user name key) name p key srv v i s cur nxt"
  shows "\<exists>s'. crowd_steps ts tc g sock s s' \<and> all_ended T s'"
  using assms(4)
proof (induction "to_send T s" arbitrary: s cur nxt rule: less_induct)
  case less
  show ?case
  proof (cases "all_ended T s")
    case True
    then show ?thesis using crowd_none by blast
  next
    case False
    then obtain t q where q: "t \<in> T" "programs s t = Some q" "status q = None" by (auto simp: all_ended_def)
    obtain s1 q' where s1: "crowd_step ts tc g sock t s s1" "programs s1 = (programs s)(t \<mapsto> q')" "length (todo q) = Suc (length (todo q'))"
      by (rule tally_can_step [OF assms(1-3) less.prems q(2,3)])
    have "to_send T s1 < to_send T s"
      using assms(3) s1 by (intro to_send_less [OF _ q(1,2) s1(2)]) (simp_all add: fair_start_def)
    moreover obtain cur1 nxt1 where "tally T (requests_of user name key) name p key srv v i s1 cur1 nxt1"
      using tally_step [OF assms(1-3) less.prems s1(1)] by blast
    ultimately obtain s2 where "crowd_steps ts tc g sock s1 s2" "all_ended T s2" using less.hyps by blast
    then show ?thesis using crowd_trans [OF _ crowd_one [OF s1(1)]] by blast
  qed
qed

text \<open>
  C8. The programs do not hinder one another for ever. In every state that they reach, each program that has not
  ended can take its next step, whichever they are and whoever owns the table, and there is a way to go on in which all of
  them end. Every exchange leaves its program one request less to send.
\<close>

theorem increments_complete:
  assumes "delivers ts" "delivers tc" "fair_start T user name p key srv v i"
    and "crowd_steps ts tc g sock (increments True srv T user fd cg name key) s" "T \<noteq> {}"
  shows "(\<forall>t\<in>T. \<forall>q. programs s t = Some q \<longrightarrow> status q = None \<longrightarrow>
      (\<exists>s' q'. crowd_step ts tc g sock t s s' \<and> programs s' = (programs s)(t \<mapsto> q') \<and> length (todo q) = Suc (length (todo q')))) \<and>
    (\<exists>s'. crowd_steps ts tc g sock s s' \<and> all_ended T s')"
proof -
  obtain cur nxt where ty: "tally T (requests_of user name key) name p key srv v i s cur nxt"
    using tally_always [OF assms] by blast
  have "\<exists>s' q'. crowd_step ts tc g sock t s s' \<and> programs s' = (programs s)(t \<mapsto> q') \<and> length (todo q) = Suc (length (todo q'))"
    if "programs s t = Some q" "status q = None" for t q
    using tally_can_step [OF assms(1-3) ty that, where g = g and sock = sock] by metis
  moreover have "\<exists>s'. crowd_steps ts tc g sock s s' \<and> all_ended T s'" by (rule tally_completes [OF assms(1-3) ty])
  ultimately show ?thesis by blast
qed

text \<open>
  C7. No increment is lost and none is counted twice. Any number of \<open>incr_value -t\<close> programs work on one key
  of one server at once, in any order of their steps and with the bytes cut in any way. At every moment the
  committed value is the number at the start plus the number of programs whose \<open>COMMIT\<close> was answered by
  \<open>OK\<close>, and nothing else has changed; the server never stops. A program that has ended has succeeded, and
  then it counts, or has met the table in use, and then it does not count and ended by the exception that its decoder raises.
  When all have ended the table is free and at least one has succeeded.
\<close>

theorem increments_add_up:
  assumes "delivers ts" "delivers tc" "fair_start T user name p key srv v i"
    and "crowd_steps ts tc g sock (increments True srv T user fd cg name key) s" "T \<noteq> {}"
  shows "\<not> down s \<and> same_but p srv (db s) \<and>
    committed (heap (db s) ! p) = (committed (heap srv ! p))(key \<mapsto> value_after v i (card (acknowledged T s))) \<and>
    (\<forall>t\<in>T. \<exists>q. programs s t = Some q \<and> status q \<in> {None, Some (Ret 0), Some (Throw unquoted_error)} \<and>
       (status q = Some (Ret 0) \<longrightarrow> t \<in> acknowledged T s) \<and> (status q = Some (Throw unquoted_error) \<longrightarrow> t \<notin> acknowledged T s)) \<and>
    (all_ended T s \<longrightarrow>
       t_mutex (heap (db s) ! p) = None \<and> acknowledged T s \<noteq> {})"
proof -
  obtain t0 where t0: "t0 \<in> T" using assms(5) by blast
  obtain cur nxt where ty: "tally T (requests_of user name key) name p key srv v i s cur nxt"
    using tally_always [OF assms] by blast
  note D = tallyD [OF ty]
  have "committed (heap (db s) ! p) = (committed (heap srv ! p))(key \<mapsto> value_after v i (card (acknowledged T s)))"
    using D(4,9) unfolding counting_def table_now_def by blast
  moreover have "status q \<in> {None, Some (Ret 0), Some (Throw unquoted_error)} \<and>
      (status q = Some (Ret 0) \<longrightarrow> t \<in> acknowledged T s) \<and> (status q = Some (Throw unquoted_error) \<longrightarrow> t \<notin> acknowledged T s)"
    if "programs s t = Some q" for t q
    using D(6) [OF that] acknowledged_mem [OF that, of T] incr_requests_length
    by (auto simp: accounted_def on_course_def refused_def split: if_splits)
  moreover have "t_mutex (heap (db s) ! p) = None \<and> acknowledged T s \<noteq> {}"
    if e: "all_ended T s"
  proof -
    have "t_mutex (heap (db s) ! p) \<noteq> Some t" for t
      using tally_ended [OF ty] D(5,7) e unfolding all_ended_def by blast
    then have free: "t_mutex (heap (db s) ! p) = None" by (metis option.exhaust)
    obtain q where q: "programs s t0 = Some q" using D(7) [OF t0] by blast
    have "refused (requests_of user name key t0) q \<or> t0 \<in> acknowledged T s"
      using D(6) [OF q] e t0 q acknowledged_mem [OF q, of T] incr_requests_length
      by (auto simp: accounted_def on_course_def all_ended_def split: if_splits)
    then show ?thesis using D(10) [OF q] free by blast
  qed
  ultimately show ?thesis using D(1,3,7) by blast
qed

section \<open>Examples\<close>

lemma example_fair: "fair_start {1, 2} (\<lambda>t. ''ann'') ''fruit'' 0 ''pears'' example_stock ''41'' 41"
proof -
  have "can_use example_stock t ''fruit'' 0 ''pears'' ''ann''" for t
    using can_use_after [OF example_can_use stored_now [OF example_can_use]
        set_value_ends [OF delivers_bytes delivers_whole example_can_use example_sendable(2), where connect = "\<lambda>h p. 3"]]
    unfolding example_stock_def by simp
  moreover have "in_int 43" by code_simp
  ultimately show ?thesis using example_stock_value example_number(1) by (simp add: fair_start_def)
qed

abbreviation example_crowd :: crowd where
  "example_crowd \<equiv> increments True example_stock {1, 2} (\<lambda>t. ''ann'') (\<lambda>t. 4) (\<lambda>t. example_rio) ''fruit'' ''pears''"

theorem increments_complete_witness:
  "\<exists>s. crowd_steps byte_by_byte whole_lines example_rio 3 example_crowd s \<and> all_ended {1, 2} s"
  using increments_complete [OF delivers_bytes delivers_whole example_fair crowd_none,
      where fd = "\<lambda>t. 4" and cg = "\<lambda>t. example_rio"] by blast

theorem increments_add_up_witness:
  "\<exists>s. crowd_steps byte_by_byte whole_lines example_rio 3 example_crowd s \<and> all_ended {1, 2} s \<and> \<not> down s \<and>
    committed (heap (db s) ! 0) ''pears'' \<in> {Some ''42'', Some ''43''}"
proof -
  obtain cur nxt where "tally {1, 2} (requests_of (\<lambda>t. ''ann'') ''fruit'' ''pears'') ''fruit'' 0 ''pears'' example_stock ''41'' 41 example_crowd cur nxt"
    using tally_always [OF delivers_bytes delivers_whole example_fair crowd_none] by blast
  from tally_completes [OF delivers_bytes delivers_whole example_fair this] obtain s where
    s: "crowd_steps byte_by_byte whole_lines example_rio 3 example_crowd s" "all_ended {1, 2} s" by blast
  note A = increments_add_up [OF delivers_bytes delivers_whole example_fair s(1)]
  have "acknowledged {1, 2} s \<noteq> {}" "finite (acknowledged {1, 2} s)" "acknowledged {1, 2} s \<subseteq> {1, 2}"
    using A s(2) by (auto simp: acknowledged_def)
  moreover from this have "card (acknowledged {1, 2} s) \<le> card {1, 2 :: thread_id}" by (intro card_mono) auto
  ultimately have "card (acknowledged {1, 2} s) \<in> {1, 2}" by (auto simp: card_gt_0_iff Suc_le_eq le_Suc_eq)
  moreover have "to_string 42 = ''42''" "to_string 43 = ''43''" by code_simp+
  ultimately have "value_after ''41'' 41 (card (acknowledged {1, 2} s)) \<in> {''42'', ''43''}" by (auto simp: value_after_def)
  with A s show ?thesis by auto
qed

end
