(* ===== verification/Lost_Increments.thy ===== *)
theory Lost_Increments
  imports Increments
begin

text \<open>
  The \<open>incr_value\<close> programs of \<open>Increments\<close> without \<open>-t\<close>: an execution of two of them in
  which both succeed and the number grows by one.
\<close>

section \<open>The way of one program\<close>

text \<open>Where a program without \<open>-t\<close> is after \<open>j\<close> of its six requests, with the values on its stack.\<close>

definition position :: "nat \<Rightarrow> ValueStack \<Rightarrow> world \<Rightarrow> bool" where
  "position j st w \<longleftrightarrow>
     (if j = 0 then conn_ok w \<and> \<not> in_transaction (snd w) \<and> stack (snd w) = st \<and> loop_in_progress (snd w)
      else if j < 6 then session w st False else conn_ok w \<and> \<not> in_transaction (snd w))"

lemma position_seen: "position j st (seen (srv, c)) = position j st (srv, c)"
  unfolding position_def session_seen by (simp add: seen_def)

lemma position_other: "position j st (srv, c) \<Longrightarrow> conn_ok (srv', c) \<Longrightarrow> position j st (srv', c)"
  by (auto simp: position_def session_def split: if_splits)

definition stands :: "(thread_id \<Rightarrow> string) \<Rightarrow> string \<Rightarrow> string \<Rightarrow> crowd \<Rightarrow> thread_id \<Rightarrow> nat \<Rightarrow> ValueStack \<Rightarrow> bool" where
  "stands user name key s t j st \<longleftrightarrow> (\<exists>q. programs s t = Some q \<and> between_requests (db s) t q \<and>
     todo q = drop j (incr_requests False (user t) name key) \<and> status q = (if j = 6 then Some (Ret 0) else None) \<and>
     position j st (db s, conn q))"

lemma plain_requests_length: "length (incr_requests False user name key) = 6"
  by (simp add: incr_requests_def)

lemma stands_move:
  assumes d: "delivers ts" "delivers tc" and s: "\<not> down s" "stands user name key s t j st" "j < 6"
    and sv: "\<And>c. position j st (db s, c) \<Longrightarrow> me c = t \<Longrightarrow> \<exists>c1.
      server_serves (fst (incr_requests False (user t) name key ! j)) (db s, c) ok_line (srv1, c1) \<and> position (Suc j) st1 (srv1, c1)"
  obtains s1 where "crowd_step ts tc g sock t s s1" "\<not> down s1" "db s1 = srv1" "stands user name key s1 t (Suc j) st1"
    "\<And>u k st2. u \<noteq> t \<Longrightarrow> stands user name key s u k st2 \<Longrightarrow> stands user name key s1 u k st2"
proof -
  let ?R = "incr_requests False (user t) name key"
  obtain q where q: "programs s t = Some q" "between_requests (db s) t q" "todo q = drop j ?R" "status q = None"
    "position j st (db s, conn q)" using s(2,3) by (auto simp: stands_def)
  have r: "todo q = ?R ! j # drop (Suc j) ?R"
    unfolding q(3) using s(3) plain_requests_length by (intro Cons_nth_drop_Suc [symmetric]) simp
  have in_R: "?R ! j \<in> set ?R" using s(3) plain_requests_length by simp
  have "position j st (db s, with_input example_rio [] (conn q))" "me (with_input example_rio [] (conn q)) = t"
    using q(2,5) position_seen [of j st "db s" "conn q"] by (simp_all add: seen_def between_requests_def)
  from sv [OF this] obtain c1 where c1: "server_serves (fst (?R ! j)) (seen (db s, conn q)) ok_line (srv1, c1)"
    "position (Suc j) st1 (srv1, c1)" by (auto simp: seen_def)
  obtain c' inp where e: "exchange (net_respond ts tc) g sock (fst (?R ! j)) (snd (?R ! j))
        (client_state (db s, conn q) (inbox q) (printed q) (complained q)) =
      snd (?R ! j) (ok_line @ [nul]) (client_state (srv1, c') inp (printed q) (complained q))"
    and c': "seen (srv1, c') = (srv1, c1)" "drained (srv1, c')" "quiet inp" "conn_ok (srv1, c')" "me c' = t"
    and it: "iteration_result ts (fst (?R ! j)) (db s, conn q) = Ret ()" and g: "guar t (db s) srv1"
    by (rule served_request [OF d q(2) c1(1)])
  let ?q = "\<lparr>conn = c', inbox = inp, printed = printed q, complained = complained q, todo = drop (Suc j) ?R,
    status = status_after (Ret 0) (drop (Suc j) ?R)\<rparr>"
  let ?s = "s\<lparr>db := srv1, programs := (programs s)(t \<mapsto> ?q)\<rparr>"
  have step: "crowd_step ts tc g sock t s ?s"
    by (rule request [OF s(1) q(1,4) r it e [unfolded ok_handlers [OF in_R]]])
  have "position (Suc j) st1 (srv1, c')" using c1(2) position_seen [of "Suc j" st1 srv1 c'] c'(1) by simp
  then have t: "stands user name key ?s t (Suc j) st1"
    using c' s(3) plain_requests_length [of "user t" name key]
    by (auto simp: stands_def between_requests_def status_after_def)
  have others: "stands user name key ?s u k st2" if u: "u \<noteq> t" "stands user name key s u k st2" for u k st2
  proof -
    obtain r where r: "programs s u = Some r" "between_requests (db s) u r" "position k st2 (db s, conn r)"
      "todo r = drop k (incr_requests False (user u) name key)" "status r = (if k = 6 then Some (Ret 0) else None)"
      using u(2) unfolding stands_def by blast
    have b: "between_requests srv1 u r" by (rule between_other [OF r(2) g u(1) conn_ok_server_ok [OF c'(4)]])
    then have "position k st2 (srv1, conn r)" using position_other r(3) by (simp add: between_requests_def)
    with r b u(1) show ?thesis by (simp add: stands_def)
  qed
  show thesis by (rule that [OF step _ _ t others]) (use s(1) in simp_all)
qed

text \<open>What the six requests do, each where the program stands.\<close>

lemma position_login:
  assumes "sendable (Message_new LOGIN [user])" "position 0 [] (srv, c)"
  shows "\<exists>c1. server_serves (fst (incr_requests False user name key ! 0)) (srv, c) ok_line (srv, c1) \<and> position (Suc 0) [] (srv, c1)"
proof -
  have c: "conn_ok (srv, c)" "\<not> in_transaction c" "stack c = []" "loop_in_progress c" using assms(2) by (simp_all add: position_def)
  obtain c1 where "server_serves (Message_new LOGIN [user]) (srv, c) ok_line (srv, c1)" "session (srv, c1) [] False"
    using session_login [OF c(1,4) assms(1)] c(2,3) by auto
  then show ?thesis by (auto simp: incr_requests_def position_def)
qed

lemma position_get:
  assumes "sendable (Message_new GET [name, key])" "position 1 [] (srv, c)"
    and "find_table name srv = Some p" "t_mutex (heap srv ! p) = None" "table_get key (heap srv ! p) = Ret v"
  shows "\<exists>c1. server_serves (fst (incr_requests False user name key ! 1)) (srv, c) ok_line (srv, c1) \<and> position (Suc 1) [v] (srv, c1)"
proof -
  have s: "session (srv, c) [] False" using assms(2) by (simp add: position_def)
  obtain c1 where "server_serves (Message_new GET [name, key]) (srv, c) ok_line (srv, c1)" "session (srv, c1) [v] False"
    by (rule session_get [OF s assms(1,3-5)])
  then show ?thesis by (auto simp: incr_requests_def position_def)
qed

lemma position_push:
  assumes "position 2 [v] (srv, c)"
  shows "\<exists>c1. server_serves (fst (incr_requests False user name key ! 2)) (srv, c) ok_line (srv, c1) \<and>
    position (Suc 2) [''1'', v] (srv, c1)"
proof -
  have s: "session (srv, c) [v] False" using assms by (simp add: position_def)
  obtain c1 where "server_serves (Message_new PUSH [''1'']) (srv, c) ok_line (srv, c1)" "session (srv, c1) [''1'', v] False"
    by (rule session_push [OF s sendable_one])
  then show ?thesis by (auto simp: incr_requests_def position_def)
qed

lemma position_add:
  assumes "position 3 [''1'', v] (srv, c)" "stoi v = Ret i" "in_int (i + 1)"
  shows "\<exists>c1. server_serves (fst (incr_requests False user name key ! 3)) (srv, c) ok_line (srv, c1) \<and>
    position (Suc 3) [to_string (i + 1)] (srv, c1)"
proof -
  have s: "session (srv, c) [''1'', v] False" using assms(1) by (simp add: position_def)
  have one: "stoi ''1'' = Ret 1" by code_simp
  obtain c1 where "server_serves (Message_new ADD []) (srv, c) ok_line (srv, c1)" "session (srv, c1) [to_string (i + 1)] False"
    using session_add [OF s one assms(2,3)] by auto
  then show ?thesis by (auto simp: incr_requests_def position_def)
qed

lemma position_set:
  assumes "sendable (Message_new SET [name, key])" "position 4 [z] (srv, c)"
    and "find_table name srv = Some p" "t_mutex (heap srv ! p) = None"
  shows "\<exists>c1. server_serves (fst (incr_requests False user name key ! 4)) (srv, c) ok_line
      (at_table p (\<lambda>tb. commit_changes (table_set key z tb)) srv, c1) \<and>
    position (Suc 4) [] (at_table p (\<lambda>tb. commit_changes (table_set key z tb)) srv, c1)"
proof -
  have s: "session (srv, c) [z] False" using assms(2) by (simp add: position_def)
  obtain c1 where "server_serves (Message_new SET [name, key]) (srv, c) ok_line
      (at_table p (\<lambda>tb. commit_changes (table_set key z tb)) srv, c1)"
    "session (at_table p (\<lambda>tb. commit_changes (table_set key z tb)) srv, c1) [] False"
    using session_set [OF s assms(1,3,4)] by auto
  then show ?thesis by (auto simp: incr_requests_def position_def)
qed

lemma position_bye:
  assumes "position 5 [] (srv, c)"
  shows "\<exists>c1. server_serves (fst (incr_requests False user name key ! 5)) (srv, c) ok_line (srv, c1) \<and> position (Suc 5) [] (srv, c1)"
proof -
  have s: "session (srv, c) [] False" using assms by (simp add: position_def)
  obtain c1 where "server_serves (Message_new BYE []) (srv, c) ok_line (srv, c1)" "conn_ok (srv, c1)" "\<not> in_transaction c1"
    using session_bye [OF s] by blast
  then show ?thesis by (auto simp: incr_requests_def position_def)
qed

text \<open>The two halves of a program: it reads the value, and it writes the number after it.\<close>

lemma program_reads:
  assumes d: "delivers ts" "delivers tc" and s: "\<not> down s" "stands user name key s t 0 []"
    and w: "sendable (Message_new LOGIN [user t])" "sendable (Message_new GET [name, key])"
    and p: "find_table name (db s) = Some p" "t_mutex (heap (db s) ! p) = None" "table_get key (heap (db s) ! p) = Ret v"
  obtains s' where "crowd_steps ts tc g sock s s'" "\<not> down s'" "db s' = db s" "stands user name key s' t 2 [v]"
    "\<And>u k st. u \<noteq> t \<Longrightarrow> stands user name key s u k st \<Longrightarrow> stands user name key s' u k st"
proof -
  obtain s1 where 1: "crowd_step ts tc g sock t s s1" "\<not> down s1" "db s1 = db s" "stands user name key s1 t 1 []"
    "\<And>u k st. u \<noteq> t \<Longrightarrow> stands user name key s u k st \<Longrightarrow> stands user name key s1 u k st"
    using stands_move [OF d s _ position_login [OF w(1)], where g = g and sock = sock] by auto
  obtain s2 where 2: "crowd_step ts tc g sock t s1 s2" "\<not> down s2" "db s2 = db s1" "stands user name key s2 t 2 [v]"
    "\<And>u k st. u \<noteq> t \<Longrightarrow> stands user name key s1 u k st \<Longrightarrow> stands user name key s2 u k st"
    using stands_move [OF d 1(2,4) _ position_get [OF w(2) _ p [folded 1(3)]], where g = g and sock = sock] by (auto simp: numeral_2_eq_2)
  show thesis using that [of s2] 1 2 crowd_more [OF crowd_one] by metis
qed

lemma program_writes:
  assumes d: "delivers ts" "delivers tc" and s: "\<not> down s" "stands user name key s t 2 [v]"
    and w: "sendable (Message_new SET [name, key])" and n: "stoi v = Ret i" "in_int (i + 1)"
    and p: "find_table name (db s) = Some p" "t_mutex (heap (db s) ! p) = None"
  obtains s' where "crowd_steps ts tc g sock s s'" "\<not> down s'"
    "db s' = at_table p (\<lambda>tb. commit_changes (table_set key (to_string (i + 1)) tb)) (db s)" "stands user name key s' t 6 []"
    "\<And>u k st. u \<noteq> t \<Longrightarrow> stands user name key s u k st \<Longrightarrow> stands user name key s' u k st"
proof -
  let ?srv = "at_table p (\<lambda>tb. commit_changes (table_set key (to_string (i + 1)) tb)) (db s)"
  obtain s1 where 1: "crowd_step ts tc g sock t s s1" "\<not> down s1" "db s1 = db s" "stands user name key s1 t 3 [''1'', v]"
    "\<And>u k st. u \<noteq> t \<Longrightarrow> stands user name key s u k st \<Longrightarrow> stands user name key s1 u k st"
    using stands_move [OF d s _ position_push, where g = g and sock = sock] by auto
  obtain s2 where 2: "crowd_step ts tc g sock t s1 s2" "\<not> down s2" "db s2 = db s" "stands user name key s2 t 4 [to_string (i + 1)]"
    "\<And>u k st. u \<noteq> t \<Longrightarrow> stands user name key s1 u k st \<Longrightarrow> stands user name key s2 u k st"
    using stands_move [OF d 1(2,4) _ position_add [OF _ n], where g = g and sock = sock] 1(3) by auto
  obtain s3 where 3: "crowd_step ts tc g sock t s2 s3" "\<not> down s3" "db s3 = ?srv" "stands user name key s3 t 5 []"
    "\<And>u k st. u \<noteq> t \<Longrightarrow> stands user name key s2 u k st \<Longrightarrow> stands user name key s3 u k st"
    using stands_move [OF d 2(2,4) _ position_set [OF w _ p [folded 2(3)]], where g = g and sock = sock] 2(3) by auto
  obtain s4 where 4: "crowd_step ts tc g sock t s3 s4" "\<not> down s4" "db s4 = ?srv" "stands user name key s4 t 6 []"
    "\<And>u k st. u \<noteq> t \<Longrightarrow> stands user name key s3 u k st \<Longrightarrow> stands user name key s4 u k st"
    using stands_move [OF d 3(2,4) _ position_bye, where g = g and sock = sock] 3(3) by auto
  have "crowd_steps ts tc g sock s s4" by (rule crowd_more [OF crowd_more [OF crowd_more [OF crowd_one [OF 1(1)] 2(1)] 3(1)] 4(1)])
  then show thesis using that [of s4] 1(5) 2(5) 3(5) 4 by metis
qed

section \<open>A lost increment\<close>

text \<open>
  C9. Without \<open>-t\<close> an increment can be lost. From any server with a number at the key, two
  \<open>incr_value\<close> programs can take their steps in such an order that both exit with status 0 and the committed number
  is one more than at the start, not two. Nothing else has changed and no request has failed.
\<close>

theorem increments_lost:
  assumes "delivers ts" "delivers tc" "fair_start {t1, t2} user name p key srv v i" "t1 \<noteq> t2"
  shows "\<exists>s. crowd_steps ts tc g sock (increments False srv {t1, t2} user fd cg name key) s \<and> \<not> down s \<and>
    (\<forall>t\<in>{t1, t2}. \<exists>q. programs s t = Some q \<and> status q = Some (Ret 0)) \<and> same_but p srv (db s) \<and>
    committed (heap (db s) ! p) = (committed (heap srv ! p))(key \<mapsto> to_string (i + 1))"
proof -
  let ?s0 = "increments False srv {t1, t2} user fd cg name key" and ?f = "\<lambda>tb. commit_changes (table_set key (to_string (i + 1)) tb)"
  have u: "can_use srv t1 name p key (user t1)" "can_use srv t2 name p key (user t2)" and v: "committed (heap srv ! p) key = Some v"
    and n: "stoi v = Ret i" "in_int (i + 2)" using assms(3,4) by (simp_all add: fair_start_def)
  have n1: "in_int (i + 1)" using in_int_between [OF stoi_range [OF n(1)], of 2 1] n(2) by simp
  have w: "sendable (Message_new LOGIN [user t1])" "sendable (Message_new LOGIN [user t2])" "sendable (Message_new SET [name, key])"
    and p: "find_table name srv = Some p" "t_mutex (heap srv ! p) = None" using u by (simp_all add: can_use_def)
  have pl: "p < length (heap srv)" and tb: "table_ok (heap srv ! p)" by (rule can_useD [OF u(1)])+
  have get: "table_get key (heap srv ! p) = Ret v" using v by (intro ts.read_present) simp
  have at0: "\<not> down ?s0" "db ?s0 = srv" by (simp_all add: increments_def)
  have start: "stands user name key ?s0 t 0 []" if "can_use srv t name p key (user t)" "t \<in> {t1, t2}" for t
  proof -
    have ok: "conn_ok (srv, ClientConnection_new t (fd t) (cg t) [])"
      using that(1) by (intro conn_ok_new) (simp_all add: can_use_def list_all_length)
    have "position 0 [] (srv, ClientConnection_new t (fd t) (cg t) [])" using ok by (simp add: position_def)
    then show ?thesis
      using between_new [OF ok] that(2) by (auto simp: stands_def increments_def) (simp_all add: new_program_def)
  qed
  then have st: "stands user name key ?s0 t1 0 []" "stands user name key ?s0 t2 0 []" using u by simp_all
  note d = assms(1,2)
  obtain s1 where 1: "crowd_steps ts tc g sock ?s0 s1" "\<not> down s1" "db s1 = srv" "stands user name key s1 t1 2 [v]"
    "stands user name key s1 t2 0 []"
    using program_reads [OF d at0(1) st(1) w(1) can_useD(3) [OF u(1)], unfolded at0(2), OF p get, where g = g and sock = sock]
      st(2) assms(4) by metis
  obtain s2 where 2: "crowd_steps ts tc g sock s1 s2" "\<not> down s2" "db s2 = srv" "stands user name key s2 t2 2 [v]"
    "stands user name key s2 t1 2 [v]"
    using program_reads [OF d 1(2,5) w(2) can_useD(3) [OF u(1)], unfolded 1(3), OF p get, where g = g and sock = sock]
      1(4) assms(4) by metis
  obtain s3 where 3: "crowd_steps ts tc g sock s2 s3" "\<not> down s3" "db s3 = at_table p ?f srv" "stands user name key s3 t1 6 []"
    "stands user name key s3 t2 2 [v]"
    using program_writes [OF d 2(2,5) w(3) n(1) n1, unfolded 2(3), OF p, where g = g and sock = sock] 2(4) assms(4) by metis
  have p3: "find_table name (at_table p ?f srv) = Some p" "t_mutex (heap (at_table p ?f srv) ! p) = None"
    using p pl by (simp_all add: table_frame)
  obtain s4 where 4: "crowd_steps ts tc g sock s3 s4" "\<not> down s4" "db s4 = at_table p ?f (at_table p ?f srv)"
    "stands user name key s4 t2 6 []" "stands user name key s4 t1 6 []"
    using program_writes [OF d 3(2,5) w(3) n(1) n1, unfolded 3(3), OF p3, where g = g and sock = sock] 3(4) assms(4) by metis
  have "crowd_steps ts tc g sock ?s0 s4"
    by (rule crowd_trans [OF 4(1) crowd_trans [OF 3(1) crowd_trans [OF 2(1) 1(1)]]])
  moreover have "\<exists>q. programs s4 t = Some q \<and> status q = Some (Ret 0)" if "t \<in> {t1, t2}" for t
    using 4(4,5) that by (auto simp: stands_def)
  moreover have "same_but p srv (db s4)" unfolding 4(3) by (rule same_but_trans [OF same_but_at same_but_at])
  moreover have "committed (heap (db s4) ! p) = (committed (heap srv ! p))(key \<mapsto> to_string (i + 1))"
  proof -
    have "table_now (heap srv ! p) key (to_string (i + 1)) (to_string (i + 1)) (heap (db s4) ! p)"
      unfolding 4(3) using table_now_commit [OF table_now_set [OF table_now_commit [OF table_now_set [OF table_now_start [OF tb p(2) v]]]]] pl
      by simp
    then show ?thesis unfolding table_now_def by blast
  qed
  ultimately show ?thesis using 4(2) by blast
qed

theorem increments_lost_witness:
  "\<exists>s. crowd_steps byte_by_byte whole_lines example_rio 3
      (increments False example_stock {1, 2} (\<lambda>t. ''ann'') (\<lambda>t. 4) (\<lambda>t. example_rio) ''fruit'' ''pears'') s \<and>
    (\<forall>t\<in>{1, 2}. \<exists>q. programs s t = Some q \<and> status q = Some (Ret 0)) \<and> committed (heap (db s) ! 0) ''pears'' = Some (to_string 42)"
proof -
  have "(1 :: thread_id) \<noteq> 2" by simp
  from increments_lost [OF delivers_bytes delivers_whole example_fair this] obtain s where
    "crowd_steps byte_by_byte whole_lines example_rio 3
      (increments False example_stock {1, 2} (\<lambda>t. ''ann'') (\<lambda>t. 4) (\<lambda>t. example_rio) ''fruit'' ''pears'') s"
    "\<forall>t\<in>{1, 2}. \<exists>q. programs s t = Some q \<and> status q = Some (Ret 0)"
    "committed (heap (db s) ! 0) = (committed (heap example_stock ! 0))(''pears'' \<mapsto> to_string (41 + 1))" by blast
  then show ?thesis by (intro exI [of _ s]) simp
qed

end
