(* ===== verification/Abstract_Server.thy ===== *)
theory Abstract_Server
  imports Requests
begin

text \<open>
  What the server promises to a client, as an abstract machine: named tables with their
  committed contents, the contents that this client would commit for each table it holds, the tables
  that other clients hold, a stack of values, and whether a transaction is open. There are
  no pointers, no mutexes and no lists of pairs. \<open>view_of\<close> abstracts the server
  and one connection to this machine, and serving requests refines it.
\<close>

section \<open>The abstract machine\<close>

record view =
  store :: "string \<rightharpoonup> string \<rightharpoonup> string"
  draft :: "string \<rightharpoonup> string \<rightharpoonup> string"
  busy :: "string set"
  items :: "string list"
  open_tx :: bool
  going :: bool

datatype spec_outcome = Replies string view | Waits | Stops

abbreviation agrees :: "view \<Rightarrow> spec_outcome" where
  "agrees a \<equiv> Replies ok_line a"

text \<open>A refused request gives up an open transaction, with everything it would have written.\<close>

definition give_up :: "view \<Rightarrow> view" where
  "give_up a = a\<lparr>draft := Map.empty, open_tx := False\<rparr>"

definition refuses :: "string \<Rightarrow> view \<Rightarrow> spec_outcome" where
  "refuses text a = Replies (failed_line text) (give_up a)"

definition spec_create :: "string \<Rightarrow> view \<Rightarrow> spec_outcome" where
  "spec_create name a =
     (if store a name \<noteq> None then refuses ''A table with this name already exists.'' a
      else agrees (a\<lparr>store := (store a)(name \<mapsto> Map.empty)\<rparr>))"

definition spec_begin :: "view \<Rightarrow> spec_outcome" where
  "spec_begin a =
     (if open_tx a then refuses ''Nested transactions are not supported.'' a else agrees (a\<lparr>open_tx := True\<rparr>))"

definition spec_commit :: "view \<Rightarrow> spec_outcome" where
  "spec_commit a =
     (if \<not> open_tx a then refuses ''Transaction is not ongoing.'' a
      else agrees (a\<lparr>store := store a ++ draft a, draft := Map.empty, open_tx := False\<rparr>))"

definition spec_pop :: "view \<Rightarrow> spec_outcome" where
  "spec_pop a =
     (case items a of
        [] \<Rightarrow> refuses ''Tried to call POP on an empty operations stack.'' a
      | v # vs \<Rightarrow> agrees (a\<lparr>items := vs\<rparr>))"

definition spec_top :: "view \<Rightarrow> spec_outcome" where
  "spec_top a =
     (case items a of
        [] \<Rightarrow> refuses ''Tried to call TOP on an empty operations stack.'' a
      | v # vs \<Rightarrow> Replies (data_line v) a)"

text \<open>Two operands, the upper one on the right. A number out of range, an overflow and a division by zero stop the server.\<close>

definition spec_arith :: "string \<Rightarrow> (int \<Rightarrow> int \<Rightarrow> int res) \<Rightarrow> view \<Rightarrow> spec_outcome" where
  "spec_arith not_enough f a =
     (case items a of
        r # l # rest \<Rightarrow>
          (case stoi r of
             Ret i \<Rightarrow>
               (case stoi l of
                  Ret j \<Rightarrow> (case f j i of Ret v \<Rightarrow> agrees (a\<lparr>items := to_string v # rest\<rparr>) | _ \<Rightarrow> Stops)
                | Throw e \<Rightarrow>
                    if is_Invalid_argument e
                    then refuses ''Value on stack could not be converted to an integer.''
                           (a\<lparr>items := to_string i # l # rest\<rparr>)
                    else Stops
                | _ \<Rightarrow> Stops)
           | Throw e \<Rightarrow>
               if is_Invalid_argument e
               then refuses ''Value on stack could not be converted to an integer.'' a
               else Stops
           | _ \<Rightarrow> Stops)
      | _ \<Rightarrow> refuses not_enough a)"

text \<open>What a client sees as the contents of a table when it takes hold of it.\<close>

definition drafted :: "string \<Rightarrow> view \<Rightarrow> string \<rightharpoonup> string" where
  "drafted name a = (case draft a name of Some d \<Rightarrow> d | None \<Rightarrow> the (store a name))"

text \<open>
  A table in use elsewhere makes a client wait outside a transaction and fail inside one;
  otherwise the request is done, inside a transaction on the draft of the table.
\<close>

definition on_store :: "string \<Rightarrow> (view \<Rightarrow> spec_outcome) \<Rightarrow> view \<Rightarrow> spec_outcome" where
  "on_store name k a =
     (if store a name = None then refuses ''Could not find table.'' a
      else if name \<in> busy a
      then (if open_tx a then refuses ''Could not gain access to table.'' a else Waits)
      else k (if open_tx a then a\<lparr>draft := (draft a)(name \<mapsto> drafted name a)\<rparr> else a))"

definition spec_set :: "string \<Rightarrow> string \<Rightarrow> view \<Rightarrow> spec_outcome" where
  "spec_set name key a =
     (case items a of
        [] \<Rightarrow> refuses ''No value on stack.'' a
      | v # vs \<Rightarrow>
          on_store name (\<lambda>a.
            if open_tx a then agrees (a\<lparr>items := vs, draft := (draft a)(name \<mapsto> (drafted name a)(key \<mapsto> v))\<rparr>)
            else agrees (a\<lparr>items := vs, store := (store a)(name \<mapsto> (the (store a name))(key \<mapsto> v))\<rparr>)) a)"

text \<open>
  A read prefers the committed value to the client's own uncommitted one; a key that has
  neither stops the server.
\<close>

definition spec_get :: "string \<Rightarrow> string \<Rightarrow> view \<Rightarrow> spec_outcome" where
  "spec_get name key a =
     on_store name (\<lambda>a.
       case (drafted name a ++ the (store a name)) key of
         None \<Rightarrow> Stops
       | Some v \<Rightarrow> agrees (a\<lparr>items := v # items a\<rparr>)) a"

definition spec_request :: "Message \<Rightarrow> view \<Rightarrow> spec_outcome" where
  "spec_request msg a =
     (case (m_message_type msg, m_args msg) of
        (CREATE, [name]) \<Rightarrow> spec_create name a
      | (PUSH, [v]) \<Rightarrow> agrees (a\<lparr>items := v # items a\<rparr>)
      | (SET, [name, key]) \<Rightarrow> spec_set name key a
      | (GET, [name, key]) \<Rightarrow> spec_get name key a
      | (BEGIN, _) \<Rightarrow> spec_begin a
      | (COMMIT, _) \<Rightarrow> spec_commit a
      | (POP, _) \<Rightarrow> spec_pop a
      | (TOP, _) \<Rightarrow> spec_top a
      | (BYE, _) \<Rightarrow> agrees (a\<lparr>going := False\<rparr>)
      | (t, _) \<Rightarrow>
          (case arith_fun t of
             Some (not_enough, f) \<Rightarrow> spec_arith not_enough f a
           | None \<Rightarrow> refuses ''Please only enter standardized requests.'' a))"

section \<open>The abstraction\<close>

definition view_of :: "world \<Rightarrow> view" where
  "view_of w =
     (let srv = fst w; c = snd w; tab = (\<lambda>p. heap srv ! p) in
      \<lparr>store = (\<lambda>name. map_option (\<lambda>p. committed (tab p)) (find_table name srv)),
       draft = (\<lambda>name.
         case find_table name srv of
           None \<Rightarrow> None
         | Some p \<Rightarrow> if t_mutex (tab p) = Some (me c) then Some (committed (tab p) ++ proposed (tab p)) else None),
       busy = {name. \<exists>p u. find_table name srv = Some p \<and> t_mutex (tab p) = Some u \<and> u \<noteq> me c},
       items = stack c, open_tx = in_transaction c, going = loop_in_progress c\<rparr>)"

definition outcome_of :: "unit res \<times> world \<Rightarrow> spec_outcome" where
  "outcome_of out =
     (case out of
        (Ret u, w) \<Rightarrow> Replies (last (written (snd w))) (view_of w)
      | (Block, w) \<Rightarrow> Waits
      | _ \<Rightarrow> Stops)"

lemma view_of_fields [simp]:
  "items (view_of (srv, c)) = stack c" "open_tx (view_of (srv, c)) = in_transaction c"
  "going (view_of (srv, c)) = loop_in_progress c"
  "store (view_of (srv, c)) name = map_option (\<lambda>p. committed (heap srv ! p)) (find_table name srv)"
  by (simp_all add: view_of_def Let_def)

lemma view_of_draft:
  "draft (view_of (srv, c)) name =
     (case find_table name srv of
        None \<Rightarrow> None
      | Some p \<Rightarrow> if t_mutex (heap srv ! p) = Some (me c)
                  then Some (committed (heap srv ! p) ++ proposed (heap srv ! p)) else None)"
  by (simp add: view_of_def Let_def)

lemma view_of_busy:
  "name \<in> busy (view_of (srv, c)) \<longleftrightarrow>
     (\<exists>p u. find_table name srv = Some p \<and> t_mutex (heap srv ! p) = Some u \<and> u \<noteq> me c)"
  by (simp add: view_of_def Let_def)

lemma view_eqI:
  assumes "\<And>n. store a n = store b n" "\<And>n. draft a n = draft b n" "\<And>n. n \<in> busy a \<longleftrightarrow> n \<in> busy b"
    and "items a = items b" "open_tx a = open_tx b" "going a = going b"
  shows "a = (b :: view)"
  using assms by (intro view.equality) auto

lemma view_of_answer [simp]: "view_of (srv, answer l c) = view_of (srv, c)"
  by (simp add: view_of_def Let_def cong: option.case_cong)

lemma view_of_conn:
  "view_of (srv, c\<lparr>stack := vs\<rparr>) = (view_of (srv, c))\<lparr>items := vs\<rparr>"
  "view_of (srv, c\<lparr>in_transaction := b\<rparr>) = (view_of (srv, c))\<lparr>open_tx := b\<rparr>"
  "view_of (srv, c\<lparr>loop_in_progress := b\<rparr>) = (view_of (srv, c))\<lparr>going := b\<rparr>"
  "view_of (srv, c\<lparr>locked_tables := ps\<rparr>) = view_of (srv, c)"
  by (simp_all add: view_of_def Let_def cong: option.case_cong)

lemma view_of_flag: "view_of (srv\<lparr>mutex_is_locked := b\<rparr>, c) = view_of (srv, c)"
  by (simp add: view_of_def find_table_map_of Let_def cong: option.case_cong if_cong)

text \<open>A table seen by name: an update behind a pointer shows under one name.\<close>

lemma view_of_at_table:
  assumes "server_wf srv" "find_table name srv = Some p" "t_mutex (f (heap srv ! p)) = None \<or> t_mutex (f (heap srv ! p)) = Some (me c)"
    and "t_mutex (heap srv ! p) = None \<or> t_mutex (heap srv ! p) = Some (me c)"
  shows "view_of (at_table p f srv, c) =
    (view_of (srv, c))\<lparr>
      store := (store (view_of (srv, c)))(name \<mapsto> committed (f (heap srv ! p))),
      draft := (draft (view_of (srv, c)))(name :=
        if t_mutex (f (heap srv ! p)) = Some (me c)
        then Some (committed (f (heap srv ! p)) ++ proposed (f (heap srv ! p))) else None)\<rparr>"
proof (rule view_eqI)
  note valid = find_table_valid [OF assms(1)]
  have other: "q \<noteq> p" if "find_table n srv = Some q" "n \<noteq> name" for n q
    using find_table_inj [OF assms(1) that(1)] assms(2) that(2) by blast
  fix n
  show "store (view_of (at_table p f srv, c)) n =
      store ((view_of (srv, c))\<lparr>
      store := (store (view_of (srv, c)))(name \<mapsto> committed (f (heap srv ! p))),
      draft := (draft (view_of (srv, c)))(name :=
        if t_mutex (f (heap srv ! p)) = Some (me c)
        then Some (committed (f (heap srv ! p)) ++ proposed (f (heap srv ! p))) else None)\<rparr>) n"
    using assms(2) valid other [of n] by (cases "find_table n srv") auto
  show "draft (view_of (at_table p f srv, c)) n =
      draft ((view_of (srv, c))\<lparr>
      store := (store (view_of (srv, c)))(name \<mapsto> committed (f (heap srv ! p))),
      draft := (draft (view_of (srv, c)))(name :=
        if t_mutex (f (heap srv ! p)) = Some (me c)
        then Some (committed (f (heap srv ! p)) ++ proposed (f (heap srv ! p))) else None)\<rparr>) n"
    using assms(2) valid other [of n] by (cases "find_table n srv") (auto simp: view_of_draft)
  show "n \<in> busy (view_of (at_table p f srv, c)) \<longleftrightarrow> n \<in> busy ((view_of (srv, c))\<lparr>
      store := (store (view_of (srv, c)))(name \<mapsto> committed (f (heap srv ! p))),
      draft := (draft (view_of (srv, c)))(name :=
        if t_mutex (f (heap srv ! p)) = Some (me c)
        then Some (committed (f (heap srv ! p)) ++ proposed (f (heap srv ! p))) else None)\<rparr>)"
    using assms valid other [of n] by (cases "find_table n srv") (auto simp: view_of_busy)
qed simp_all

text \<open>Giving every held table back, after a commit or a rollback.\<close>

lemma view_of_release:
  assumes ok: "conn_ok (srv, c)" and m: "\<And>t. t_mutex (f t) = t_mutex t"
    and f: "\<And>t. table_wf t \<Longrightarrow> committed (f t) = committed t ++ g t"
  shows "view_of (release_all f (locked_tables c) srv, c\<lparr>locked_tables := [], in_transaction := False\<rparr>) =
    (view_of (srv, c))\<lparr>
      store := (\<lambda>name. case find_table name srv of
          None \<Rightarrow> None
        | Some p \<Rightarrow> Some (if t_mutex (heap srv ! p) = Some (me c) then committed (heap srv ! p) ++ g (heap srv ! p)
                         else committed (heap srv ! p))),
      draft := Map.empty, open_tx := False\<rparr>" (is "?l = ?r")
proof (rule view_eqI)
  have tab: "heap (release_all f (locked_tables c) srv) ! p =
      (if t_mutex (heap srv ! p) = Some (me c) then (f (heap srv ! p))\<lparr>t_mutex := None\<rparr> else heap srv ! p)"
    "committed ((f (heap srv ! p))\<lparr>t_mutex := None\<rparr>) = committed (heap srv ! p) ++ g (heap srv ! p)"
    if "find_table n srv = Some p" for n p
  proof -
    have p: "p < length (heap srv)" using find_table_valid [OF conn_okD(1) [OF ok] that] .
    show "heap (release_all f (locked_tables c) srv) ! p =
      (if t_mutex (heap srv ! p) = Some (me c) then (f (heap srv ! p))\<lparr>t_mutex := None\<rparr> else heap srv ! p)"
      using conn_ok_held [OF ok p] by (simp add: release_locked_nth [OF ok])
    have "table_wf (heap srv ! p)" using conn_okD(8) [OF ok p] by (simp add: table_ok_def)
    then show "committed ((f (heap srv ! p))\<lparr>t_mutex := None\<rparr>) = committed (heap srv ! p) ++ g (heap srv ! p)"
      using f by (simp add: committed_def)
  qed
  fix n
  show "store ?l n = store ?r n" using tab by (cases "find_table n srv") auto
  show "draft ?l n = draft ?r n" using tab by (cases "find_table n srv") (auto simp: view_of_draft)
  show "n \<in> busy ?l \<longleftrightarrow> n \<in> busy ?r" using tab by (cases "find_table n srv") (auto simp: view_of_busy)
qed simp_all

lemma view_of_aborted:
  assumes "conn_ok (srv, c)"
  shows "view_of (aborted (srv, c)) = give_up (view_of (srv, c))"
proof -
  have "view_of (aborted (srv, c)) = (view_of (srv, c))\<lparr>
      store := (\<lambda>name. case find_table name srv of
          None \<Rightarrow> None
        | Some p \<Rightarrow> Some (if t_mutex (heap srv ! p) = Some (me c) then committed (heap srv ! p) ++ Map.empty
                         else committed (heap srv ! p))),
      draft := Map.empty, open_tx := False\<rparr>"
    unfolding aborted_def fst_conv snd_conv
    by (rule view_of_release [OF assms]) (simp_all add: table_frame ts.base_rollback)
  then show ?thesis
    by (simp add: give_up_def, intro view_eqI) (simp_all split: option.splits)
qed

lemma view_of_committed:
  assumes "conn_ok (srv, c)"
  shows "view_of (release_all commit_changes (locked_tables c) srv, c\<lparr>locked_tables := [], in_transaction := False\<rparr>) =
    (view_of (srv, c))\<lparr>store := store (view_of (srv, c)) ++ draft (view_of (srv, c)), draft := Map.empty, open_tx := False\<rparr>"
proof -
  have "view_of (release_all commit_changes (locked_tables c) srv, c\<lparr>locked_tables := [], in_transaction := False\<rparr>) =
    (view_of (srv, c))\<lparr>
      store := (\<lambda>name. case find_table name srv of
          None \<Rightarrow> None
        | Some p \<Rightarrow> Some (if t_mutex (heap srv ! p) = Some (me c) then committed (heap srv ! p) ++ proposed (heap srv ! p)
                         else committed (heap srv ! p))),
      draft := Map.empty, open_tx := False\<rparr>"
    by (rule view_of_release [OF assms]) (simp_all add: table_frame ts.base_commit)
  then show ?thesis
    by (simp, intro view_eqI) (simp_all add: view_of_draft map_add_def split: option.splits)
qed

lemma view_of_create:
  assumes "server_wf srv" "find_table name srv = None"
  shows "view_of (snd (create_table name srv), c) =
    (view_of (srv, c))\<lparr>store := (store (view_of (srv, c)))(name \<mapsto> Map.empty)\<rparr>" (is "?l = ?r")
proof (rule view_eqI)
  let ?srv = "snd (create_table name srv)"
  have new: "find_table n ?srv = (if n = name then Some (length (heap srv)) else find_table n srv)" for n
    using assms by (simp add: create_table_run find_table_map_of um.lookup_assign)
  have tab: "heap ?srv ! p = heap srv ! p" if "find_table n srv = Some p" for n p
    using find_table_valid [OF assms(1) that] by (simp add: create_table_run nth_append)
  have last: "heap ?srv ! length (heap srv) = Table_new name" by (simp add: create_table_run)
  fix n
  show "store ?l n = store ?r n" using assms(2) tab [of n] by (cases "find_table n srv") (auto simp: new last committed_new)
  show "draft ?l n = draft ?r n"
    using assms(2) tab [of n] by (auto simp: view_of_draft new last split: option.splits)
  show "n \<in> busy ?l \<longleftrightarrow> n \<in> busy ?r"
    using assms(2) tab [of n] by (auto simp: view_of_busy new last split: if_splits)
qed simp_all

section \<open>Requests refine the abstract machine\<close>

lemma outcome_ret:
  assumes "dispatch msg w = (Ret (), (srv, answer l c))"
  shows "outcome_of (call_response_function msg w) = Replies l (view_of (srv, c))"
  using call_response_done [OF assms] by (simp add: outcome_of_def)

lemma outcome_refused:
  assumes "dispatch msg w = (Throw ex, (srv, c))" "is_runtime_error ex" "\<not> is_InvalidMessage ex"
    and "length (what ex) \<le> 1000" "conn_ok (srv, c)"
  shows "outcome_of (call_response_function msg w) = refuses (what ex) (view_of (srv, c))"
  using call_response_failed [OF assms] view_of_aborted [OF assms(5)]
  by (cases "aborted (srv, c)") (simp add: failed_with_def outcome_of_def refuses_def)

lemma outcome_waits: "dispatch msg w = (Block, w') \<Longrightarrow> outcome_of (call_response_function msg w) = Waits"
  using call_response_done [of msg w Block w'] by (simp add: outcome_of_def)

lemma outcome_fault: "dispatch msg w = (Fault u, w') \<Longrightarrow> outcome_of (call_response_function msg w) = Stops"
  using call_response_done [of msg w "Fault u" w'] by (simp add: outcome_of_def)

lemma outcome_escapes:
  "dispatch msg w = (Throw ex, w') \<Longrightarrow> \<not> is_runtime_error ex \<Longrightarrow> outcome_of (call_response_function msg w) = Stops"
  using call_response_escapes [of msg w ex w'] by (simp add: outcome_of_def)

lemma refines_stack_requests:
  assumes ok: "conn_ok (srv, c)" and t: "m_message_type msg = t"
  shows "t = POP \<Longrightarrow> outcome_of (call_response_function msg (srv, c)) = spec_pop (view_of (srv, c))"
    and "t = TOP \<Longrightarrow> outcome_of (call_response_function msg (srv, c)) = spec_top (view_of (srv, c))"
    and "t = BYE \<Longrightarrow> outcome_of (call_response_function msg (srv, c)) = agrees ((view_of (srv, c))\<lparr>going := False\<rparr>)"
    and "t = PUSH \<Longrightarrow> m_args msg = [v] \<Longrightarrow>
      outcome_of (call_response_function msg (srv, c)) = agrees ((view_of (srv, c))\<lparr>items := v # stack c\<rparr>)"
proof -
  note d = dispatch_def get_message_type_def t
  show "outcome_of (call_response_function msg (srv, c)) = spec_pop (view_of (srv, c))" if "t = POP"
  proof (cases "stack c")
    case Nil
    then have "dispatch msg (srv, c) = (Throw empty_pop, (srv, c))" using that by (simp add: d handle_pop_run)
    from outcome_refused [OF this _ _ _ ok] Nil show ?thesis by (simp add: spec_pop_def)
  next
    case (Cons v vs)
    then have "dispatch msg (srv, c) = (Ret (), (srv, answer ok_line (c\<lparr>stack := vs\<rparr>)))"
      using that by (simp add: d handle_pop_run)
    from outcome_ret [OF this] Cons show ?thesis by (simp add: spec_pop_def view_of_conn)
  qed
  show "outcome_of (call_response_function msg (srv, c)) = spec_top (view_of (srv, c))" if "t = TOP"
  proof (cases "stack c")
    case Nil
    then have "dispatch msg (srv, c) = (Throw empty_top, (srv, c))" using that by (simp add: d handle_top_run)
    from outcome_refused [OF this _ _ _ ok] Nil show ?thesis by (simp add: spec_top_def)
  next
    case (Cons v vs)
    then have "length v \<le> 1018" using conn_okD(7) [OF ok] by (simp add: value_ok_def)
    then have "dispatch msg (srv, c) = (Ret (), (srv, answer (data_line v) c))"
      using that Cons by (simp add: d handle_top_run)
    from outcome_ret [OF this] Cons show ?thesis by (simp add: spec_top_def)
  qed
  show "outcome_of (call_response_function msg (srv, c)) = agrees ((view_of (srv, c))\<lparr>going := False\<rparr>)" if "t = BYE"
    using that outcome_ret [of msg "(srv, c)" srv ok_line "c\<lparr>loop_in_progress := False\<rparr>"]
    by (simp add: d handle_bye_def run_simps view_of_conn)
  show "outcome_of (call_response_function msg (srv, c)) = agrees ((view_of (srv, c))\<lparr>items := v # stack c\<rparr>)"
    if "t = PUSH" "m_args msg = [v]"
    using that outcome_ret [of msg "(srv, c)" srv ok_line "c\<lparr>stack := v # stack c\<rparr>"]
    by (simp add: d handle_push_run view_of_conn)
qed

lemma refines_transaction_requests:
  assumes ok: "conn_ok (srv, c)" and t: "m_message_type msg = t"
  shows "t = BEGIN \<Longrightarrow> outcome_of (call_response_function msg (srv, c)) = spec_begin (view_of (srv, c))"
    and "t = COMMIT \<Longrightarrow> outcome_of (call_response_function msg (srv, c)) = spec_commit (view_of (srv, c))"
proof -
  note d = dispatch_def get_message_type_def t handle_begin_run handle_commit_run [OF conn_ok_owns [OF ok]]
  show "outcome_of (call_response_function msg (srv, c)) = spec_begin (view_of (srv, c))" if "t = BEGIN"
  proof (cases "in_transaction c")
    case True
    then have "dispatch msg (srv, c) = (Throw (FailedTransaction ''Nested transactions are not supported.''), (srv, c))"
      using that by (simp add: d)
    from outcome_refused [OF this _ _ _ ok] True show ?thesis by (simp add: spec_begin_def)
  next
    case False
    then have "dispatch msg (srv, c) = (Ret (), (srv, answer ok_line (c\<lparr>in_transaction := True\<rparr>)))"
      using that by (simp add: d)
    from outcome_ret [OF this] False show ?thesis by (simp add: spec_begin_def view_of_conn)
  qed
  show "outcome_of (call_response_function msg (srv, c)) = spec_commit (view_of (srv, c))" if "t = COMMIT"
  proof (cases "in_transaction c")
    case True
    then have "dispatch msg (srv, c) = (Ret (), (release_all commit_changes (locked_tables c) srv,
        answer ok_line (c\<lparr>locked_tables := [], in_transaction := False\<rparr>)))"
      using that by (simp add: d)
    from outcome_ret [OF this] True show ?thesis by (simp add: spec_commit_def view_of_committed [OF ok])
  next
    case False
    then have "dispatch msg (srv, c) = (Throw (FailedTransaction ''Transaction is not ongoing.''), (srv, c))"
      using that by (simp add: d)
    from outcome_refused [OF this _ _ _ ok] False show ?thesis by (simp add: spec_commit_def)
  qed
qed

lemma refines_create:
  assumes ok: "conn_ok (srv, c)" and t: "m_message_type msg = CREATE" "m_args msg = [name]"
  shows "outcome_of (call_response_function msg (srv, c)) = spec_create name (view_of (srv, c))"
proof -
  let ?srv = "srv\<lparr>mutex_is_locked := False\<rparr>"
  have d: "dispatch msg (srv, c) = handle_create msg (srv, c)" by (simp add: dispatch_def get_message_type_def t)
  note r = handle_create_run [OF t(2) conn_okD(2) [OF ok]]
  show ?thesis
  proof (cases "find_table name srv")
    case None
    have "dispatch msg (srv, c) = (Ret (), (snd (create_table name ?srv), answer ok_line c))"
      using None by (simp add: d r)
    from outcome_ret [OF this] show ?thesis
      using None conn_okD(1) [OF conn_ok_flag [OF ok, of False]]
      by (simp add: spec_create_def view_of_create find_table_map_of view_of_flag)
  next
    case (Some p)
    then have "dispatch msg (srv, c) = (Throw (OperationException ''A table with this name already exists.''), (?srv, c))"
      by (simp add: d r)
    from outcome_refused [OF this _ _ _ conn_ok_flag [OF ok]] Some show ?thesis
      by (simp add: spec_create_def view_of_flag)
  qed
qed

lemma get_size_of: "length vs < 2147483648 \<Longrightarrow> get_size vs = int (length vs)"
  by (simp add: get_size_small)

lemma refines_arith_two:
  assumes ok: "conn_ok (srv, c)" and t: "arith_fun (m_message_type msg) = Some (not_enough, f)"
    and two: "stack c = r # l # rest" and size: "2 \<le> get_size (stack c)"
  shows "outcome_of (call_response_function msg (srv, c)) = spec_arith not_enough f (view_of (srv, c))"
proof -
  have d: "dispatch msg (srv, c) = arith_handler not_enough f (srv, c)" by (simp add: dispatch_arith [OF t])
  have conv: "what conversion_error = ''Value on stack could not be converted to an integer.''"
    "is_runtime_error conversion_error" "\<not> is_InvalidMessage conversion_error"
    by (simp_all add: conversion_error_def)
  have vals: "list_all value_ok (r # l # rest)" using conn_okD(7) [OF ok] two by simp
  consider i j where "stoi r = Ret i" "stoi l = Ret j"
    | i where "stoi r = Ret i" "stoi l = Throw (Invalid_argument ''stoi'')"
    | i where "stoi r = Ret i" "stoi l = Throw (Out_of_range ''stoi'')"
    | "stoi r = Throw (Invalid_argument ''stoi'')" | "stoi r = Throw (Out_of_range ''stoi'')"
    using stoi_cases [of r] stoi_cases [of l] by blast
  then show ?thesis
  proof cases
    case (1 i j)
    note run = arith_operands [OF two size 1, of not_enough f srv]
    from arith_fun_result [OF t stoi_range [OF 1(2)] stoi_range [OF 1(1)]] show ?thesis
    proof (elim disjE exE conjE)
      fix v assume "f j i = Ret v"
      then show ?thesis
        using outcome_ret [of msg "(srv, c)" srv ok_line "c\<lparr>stack := to_string v # rest\<rparr>"] run 1 two
        by (simp add: d spec_arith_def view_of_conn)
    qed (use run 1 two in \<open>simp_all add: d spec_arith_def outcome_fault\<close>)
  next
    case (2 i)
    have "conn_ok (srv, c\<lparr>stack := to_string i # l # rest\<rparr>)"
      using vals value_ok_to_string [OF stoi_range [OF 2(1)]] by (intro conn_ok_stack [OF ok]) simp
    then show ?thesis
      using outcome_refused [of msg "(srv, c)" conversion_error srv "c\<lparr>stack := to_string i # l # rest\<rparr>"]
        arith_left_bad [OF two size 2, of not_enough f srv] conv 2 two
      by (simp add: d spec_arith_def view_of_conn)
  next
    case (3 i)
    then show ?thesis
      using arith_left_bad [OF two size 3, of not_enough f srv] two by (simp add: d spec_arith_def outcome_escapes)
  next
    case 4
    then show ?thesis
      using outcome_refused [of msg "(srv, c)" conversion_error srv c]
        arith_right_bad [OF two size 4, of not_enough f srv] conv ok two
      by (simp add: d spec_arith_def)
  next
    case 5
    then show ?thesis
      using arith_right_bad [OF two size 5, of not_enough f srv] two by (simp add: d spec_arith_def outcome_escapes)
  qed
qed

lemma refines_arith:
  assumes ok: "conn_ok (srv, c)" and t: "arith_fun (m_message_type msg) = Some (not_enough, f)"
    and len: "length (stack c) < 2147483648"
  shows "outcome_of (call_response_function msg (srv, c)) = spec_arith not_enough f (view_of (srv, c))"
proof (cases "length (stack c) < 2")
  case True
  have small: "length not_enough \<le> 1000" using t by (cases "m_message_type msg") auto
  have "dispatch msg (srv, c) = (Throw (OperationException not_enough), (srv, c))"
    using len True unfolding dispatch_arith [OF t] by (intro arith_short) (simp add: get_size_of)
  from outcome_refused [OF this _ _ _ ok] True small show ?thesis
    by (auto simp: spec_arith_def split: list.splits)
next
  case False
  then obtain r l rest where "stack c = r # l # rest"
    by (cases "stack c" rule: remdups_adj.cases) auto
  then show ?thesis
    using refines_arith_two [OF ok t] len get_size_of [of "stack c"] by simp
qed

text \<open>What the view shows of a table that is free or held by the client itself.\<close>

lemma view_table:
  assumes ok: "conn_ok (srv, c)" and p: "find_table name srv = Some p"
    and m: "t_mutex (heap srv ! p) = None \<or> t_mutex (heap srv ! p) = Some (me c)"
  shows "p < length (heap srv)" "table_ok (heap srv ! p)" "name \<notin> busy (view_of (srv, c))"
    and "drafted name (view_of (srv, c)) = committed (heap srv ! p) ++ proposed (heap srv ! p)"
    and "t_mutex (heap srv ! p) = None \<Longrightarrow> draft (view_of (srv, c)) name = None"
    and "t_mutex (heap srv ! p) = None \<Longrightarrow>
      committed (heap srv ! p) ++ proposed (heap srv ! p) = committed (heap srv ! p)"
proof -
  show pl: "p < length (heap srv)" using find_table_valid [OF conn_okD(1) [OF ok] p] .
  show t: "table_ok (heap srv ! p)" by (rule conn_okD(8) [OF ok pl])
  show "name \<notin> busy (view_of (srv, c))" using m p by (auto simp: view_of_busy)
  show free: "committed (heap srv ! p) ++ proposed (heap srv ! p) = committed (heap srv ! p)"
    if "t_mutex (heap srv ! p) = None"
    using t that by (intro map_add_subsumed2) (simp add: table_ok_def)
  show "drafted name (view_of (srv, c)) = committed (heap srv ! p) ++ proposed (heap srv ! p)"
    using m p free by (auto simp: drafted_def view_of_draft)
  show "draft (view_of (srv, c)) name = None" if "t_mutex (heap srv ! p) = None"
    using p that by (simp add: view_of_draft)
qed

lemma view_of_set_now:
  assumes ok: "conn_ok (srv, c)" and p: "find_table name srv = Some p" "t_mutex (heap srv ! p) = None"
  shows "view_of (at_table p (\<lambda>t. commit_changes (table_set key v t)) srv, c) =
    (view_of (srv, c))\<lparr>store := (store (view_of (srv, c)))(name \<mapsto> (committed (heap srv ! p))(key \<mapsto> v))\<rparr>"
proof -
  note t = view_table [OF ok p(1)] p(2)
  have "committed (commit_changes (table_set key v (heap srv ! p))) = (committed (heap srv ! p))(key \<mapsto> v)"
    using t by (simp add: table_ok_def ts.base_commit ts.wf_put ts.base_put ts.pending_put)
  moreover have "(draft (view_of (srv, c)))(name := None) = draft (view_of (srv, c))"
    using t by (simp add: fun_upd_idem)
  ultimately show ?thesis
    using p view_of_at_table [OF conn_okD(1) [OF ok] p(1), of "\<lambda>t. commit_changes (table_set key v t)" c]
    by (simp add: table_frame)
qed

lemma view_of_set_draft:
  assumes ok: "conn_ok (srv, c)" and p: "find_table name srv = Some p"
    and m: "t_mutex (heap srv ! p) = None \<or> t_mutex (heap srv ! p) = Some (me c)"
  shows "view_of (at_table p (\<lambda>t. table_set key v (t\<lparr>t_mutex := Some (me c)\<rparr>)) srv, c) =
    (view_of (srv, c))\<lparr>draft := (draft (view_of (srv, c)))(name \<mapsto> (drafted name (view_of (srv, c)))(key \<mapsto> v))\<rparr>"
proof -
  have "(store (view_of (srv, c)))(name \<mapsto> committed (heap srv ! p)) = store (view_of (srv, c))"
    using p by (simp add: fun_upd_idem)
  then show ?thesis
    using m view_table(4) [OF ok p m]
      view_of_at_table [OF conn_okD(1) [OF ok] p, of "\<lambda>t. table_set key v (t\<lparr>t_mutex := Some (me c)\<rparr>)" c]
    by (simp add: set_commutes_mutex)
qed

lemma view_of_lock:
  assumes ok: "conn_ok (srv, c)" and p: "find_table name srv = Some p"
    and m: "t_mutex (heap srv ! p) = None \<or> t_mutex (heap srv ! p) = Some (me c)"
  shows "view_of (at_table p (t_mutex_update (\<lambda>_. Some (me c))) srv, c) =
    (view_of (srv, c))\<lparr>draft := (draft (view_of (srv, c)))(name \<mapsto> drafted name (view_of (srv, c)))\<rparr>"
proof -
  have "(store (view_of (srv, c)))(name \<mapsto> committed (heap srv ! p)) = store (view_of (srv, c))"
    using p by (simp add: fun_upd_idem)
  moreover have "committed (t\<lparr>t_mutex := u\<rparr>) = committed t" "proposed (t\<lparr>t_mutex := u\<rparr>) = proposed t" for t u
    by (simp_all add: committed_def proposed_def)
  ultimately show ?thesis
    using m view_table(4) [OF ok p m]
      view_of_at_table [OF conn_okD(1) [OF ok] p, of "t_mutex_update (\<lambda>_. Some (me c))" c]
    by simp
qed

lemma at_table_relock:
  "p < length (heap srv) \<Longrightarrow> t_mutex (heap srv ! p) = Some u \<Longrightarrow>
     at_table p (t_mutex_update (\<lambda>_. Some u)) srv = srv \<and>
     at_table p (\<lambda>t. table_set key v (t\<lparr>t_mutex := Some u\<rparr>)) srv = at_table p (table_set key v) srv"
proof -
  assume "p < length (heap srv)" "t_mutex (heap srv ! p) = Some u"
  then have same: "(heap srv ! p)\<lparr>t_mutex := Some u\<rparr> = heap srv ! p" by simp
  show ?thesis unfolding at_table_def same by simp
qed

lemma refines_set:
  assumes ok: "conn_ok (srv, c)" and t: "m_message_type msg = SET" and args: "m_args msg = [name, key]"
    and len: "length (stack c) < 2147483648"
  shows "outcome_of (call_response_function msg (srv, c)) = spec_set name key (view_of (srv, c))"
proof -
  have d: "dispatch msg (srv, c) = handle_set msg (srv, c)" by (simp add: dispatch_def get_message_type_def t)
  note refused = outcome_refused [of msg "(srv, c)" _ srv c, OF _ _ _ _ ok]
  show ?thesis
  proof (cases "stack c")
    case Nil
    then show ?thesis using refused [of "OperationException ''No value on stack.''"] handle_set_empty [of c msg srv]
      by (simp add: d spec_set_def get_size_of)
  next
    case st: (Cons v vs)
    have size: "1 \<le> get_size (stack c)" using len st get_size_of [of "stack c"] by simp
    note s = args st size
    show ?thesis
    proof (cases "find_table name srv")
      case None
      then show ?thesis using refused [of table_missing] handle_set_table [OF s, of srv] st
        by (simp add: d spec_set_def on_store_def)
    next
      case p: (Some p)
      have pl: "p < length (heap srv)" using find_table_valid [OF conn_okD(1) [OF ok] p] .
      from ok pl show ?thesis
      proof (cases rule: table_cases)
        case free
        note v = view_table [OF ok p, OF disjI1, OF free(1)]
        show ?thesis
        proof (cases "in_transaction c")
          case True
          then show ?thesis
            using outcome_ret [OF trans [OF d handle_set_acquire [OF s p pl True free(2,1)]]] v free p st
            by (simp add: view_of_conn view_of_set_draft [OF ok p] spec_set_def on_store_def) (simp add: drafted_def)
        next
          case False
          then show ?thesis
            using outcome_ret [OF trans [OF d handle_set_now [OF s p pl False free(1)]]] v free p st
            by (simp add: view_of_conn view_of_set_now [OF ok p free(1)] spec_set_def on_store_def)
        qed
      next
        case mine
        note v = view_table [OF ok p, OF disjI2, OF mine(1)]
        show ?thesis
          using outcome_ret [OF trans [OF d handle_set_held [OF s p pl mine(3,2)]]] v mine p st
            view_of_set_draft [OF ok p disjI2 [OF mine(1)], of key v] at_table_relock [OF pl mine(1), of key v]
          by (simp add: view_of_conn spec_set_def on_store_def) (simp add: drafted_def)
      next
        case (other u)
        then have "name \<in> busy (view_of (srv, c))" using p by (auto simp: view_of_busy)
        then show ?thesis
          using other p st refused [of table_busy] handle_set_refused [OF s p pl _ other(3,1)]
            outcome_waits [of msg "(srv, c)"] handle_set_wait [OF s p pl _ other(1,2)]
          by (cases "in_transaction c") (simp_all add: d spec_set_def on_store_def)
      qed
    qed
  qed
qed

text \<open>A read of a key that the table has.\<close>

lemma refines_get_present:
  assumes ok: "conn_ok (srv, c)" and t: "m_message_type msg = GET" and args: "m_args msg = [name, key]"
    and p: "find_table name srv = Some p"
    and m: "t_mutex (heap srv ! p) = None \<or> t_mutex (heap srv ! p) = Some (me c)"
    and v: "(proposed (heap srv ! p) ++ committed (heap srv ! p)) key = Some v"
  shows "outcome_of (call_response_function msg (srv, c)) =
    (let a = view_of (srv, c) in
     agrees ((if in_transaction c then a\<lparr>draft := (draft a)(name \<mapsto> drafted name a)\<rparr> else a)\<lparr>items := v # stack c\<rparr>))"
proof -
  have d: "dispatch msg (srv, c) = handle_get msg (srv, c)" by (simp add: dispatch_def get_message_type_def t)
  have pl: "p < length (heap srv)" using find_table_valid [OF conn_okD(1) [OF ok] p] .
  have g: "table_get key (heap srv ! p) = Ret v" using ts.read_present [OF v] .
  from ok pl show ?thesis
  proof (cases rule: table_cases)
    case free
    then show ?thesis
      using outcome_ret [OF trans [OF d handle_get_acquire [OF args p pl _ free(2,1) g]]]
        outcome_ret [OF trans [OF d handle_get_now [OF args p pl _ free(1) g]]] view_of_lock [OF ok p m]
      by (cases "in_transaction c") (simp_all add: view_of_conn Let_def)
  next
    case mine
    then show ?thesis
      using outcome_ret [OF trans [OF d handle_get_held [OF args p pl mine(3,2) g]]] view_of_lock [OF ok p m]
        at_table_relock [OF pl mine(1)]
      by (simp add: view_of_conn Let_def)
  next
    case other
    with m show ?thesis by simp
  qed
qed

lemma view_read:
  assumes "drafted name a = committed t ++ proposed t" "store a name = Some (committed t)"
  shows "(drafted name a ++ the (store a name)) key = (proposed t ++ committed t) key"
  using assms by (simp add: map_add_def split: option.splits)

lemma refines_get:
  assumes ok: "conn_ok (srv, c)" and t: "m_message_type msg = GET" and args: "m_args msg = [name, key]"
  shows "outcome_of (call_response_function msg (srv, c)) = spec_get name key (view_of (srv, c))"
proof -
  have d: "dispatch msg (srv, c) = handle_get msg (srv, c)" by (simp add: dispatch_def get_message_type_def t)
  note refused = outcome_refused [of msg "(srv, c)" _ srv c, OF _ _ _ _ ok]
  show ?thesis
  proof (cases "find_table name srv")
    case None
    then show ?thesis using refused [of table_missing] handle_get_table [OF args, of srv c]
      by (simp add: d spec_get_def on_store_def)
  next
    case p: (Some p)
    have pl: "p < length (heap srv)" using find_table_valid [OF conn_okD(1) [OF ok] p] .
    let ?t = "heap srv ! p" and ?a = "view_of (srv, c)"
    have spec: "spec_get name key ?a =
        (let a = (if in_transaction c then ?a\<lparr>draft := (draft ?a)(name \<mapsto> drafted name ?a)\<rparr> else ?a) in
         case (proposed ?t ++ committed ?t) key of None \<Rightarrow> Stops | Some v \<Rightarrow> agrees (a\<lparr>items := v # stack c\<rparr>))"
      if m: "t_mutex ?t = None \<or> t_mutex ?t = Some (me c)"
    proof -
      have "drafted name (?a\<lparr>draft := (draft ?a)(name \<mapsto> drafted name ?a)\<rparr>) = drafted name ?a"
        by (simp add: drafted_def)
      then show ?thesis
        using view_table(3,4) [OF ok p m] view_read [of name ?a ?t key] p
        by (simp add: spec_get_def on_store_def Let_def cong: option.case_cong)
    qed
    show ?thesis
    proof (cases "t_mutex ?t = None \<or> t_mutex ?t = Some (me c)")
      case False
      then obtain u where other: "t_mutex ?t = Some u" "u \<noteq> me c" by auto
      then have "name \<in> busy ?a" "p \<notin> set (locked_tables c)"
        using p conn_ok_held [OF ok pl] by (auto simp: view_of_busy)
      then show ?thesis
        using other p refused [of table_busy] handle_get_refused [OF args p pl, of c u]
          outcome_waits [of msg "(srv, c)"] handle_get_wait [OF args p pl, of c u]
        by (cases "in_transaction c") (simp_all add: d spec_get_def on_store_def)
    next
      case m: True
      show ?thesis
      proof (cases "(proposed ?t ++ committed ?t) key")
        case None
        then have "\<not> has_key key ?t" using ts.present_iff [of key ?t] by blast
        then obtain w where "call_response_function msg (srv, c) = (Fault Mutex_not_owned, w)"
          using get_absent_response [OF t args ok p] m by auto
        then show ?thesis unfolding spec [OF m] None by (simp add: outcome_of_def Let_def)
      next
        case (Some v)
        then show ?thesis using refines_get_present [OF ok t args p m] spec [OF m] by (simp add: Let_def)
      qed
    qed
  qed
qed

text \<open>One request, of any kind.\<close>

lemma request_refines:
  assumes ok: "conn_ok (srv, c)" and msg: "request_ok msg" and len: "length (stack c) < 2147483648"
  shows "outcome_of (call_response_function msg (srv, c)) = spec_request msg (view_of (srv, c))"
proof -
  note args = request_args [OF msg]
  have other: "outcome_of (call_response_function msg (srv, c)) =
      refuses ''Please only enter standardized requests.'' (view_of (srv, c))"
    if "m_message_type msg \<in> {LOGIN, OK, FAILED, ERROR, DATA, NONE}"
    using that outcome_refused [of msg "(srv, c)" "OperationException ''Please only enter standardized requests.''", OF _ _ _ _ ok]
    by (auto simp: dispatch_def get_message_type_def run_simps)
  have arith: "outcome_of (call_response_function msg (srv, c)) = spec_request msg (view_of (srv, c))"
    if "m_message_type msg \<in> {ADD, SUB, MUL, DIV}"
    using that refines_arith [OF ok _ len, of msg] by (auto simp: spec_request_def)
  show ?thesis
  proof (cases "m_message_type msg")
    case CREATE
    then show ?thesis using args(1) refines_create [OF ok CREATE] by (auto simp: spec_request_def)
  next
    case PUSH
    then show ?thesis using args(1) refines_stack_requests(4) [OF ok PUSH refl] by (auto simp: spec_request_def)
  next
    case SET
    then show ?thesis using args(2) refines_set [OF ok SET _ len] by (auto simp: spec_request_def)
  next
    case GET
    then show ?thesis using args(2) refines_get [OF ok GET] by (auto simp: spec_request_def)
  qed (use other arith refines_stack_requests [OF ok, of msg] refines_transaction_requests [OF ok, of msg] in
      \<open>simp_all add: spec_request_def\<close>)
qed

section \<open>Sequences of requests\<close>

primrec run_all :: "('m \<Rightarrow> 'c \<Rightarrow> 'c option) \<Rightarrow> 'm list \<Rightarrow> 'c \<Rightarrow> 'c option" where
  "run_all serve [] c = Some c"
| "run_all serve (m # ms) c = (case serve m c of None \<Rightarrow> None | Some c' \<Rightarrow> run_all serve ms c')"

primrec spec_all :: "('m \<Rightarrow> 'a \<Rightarrow> ('o \<times> 'a) option) \<Rightarrow> 'm list \<Rightarrow> 'a \<Rightarrow> ('o list \<times> 'a) option" where
  "spec_all spec [] a = Some ([], a)"
| "spec_all spec (m # ms) a =
     (case spec m a of
        None \<Rightarrow> None
      | Some (l, a') \<Rightarrow> (case spec_all spec ms a' of None \<Rightarrow> None | Some (ls, a'') \<Rightarrow> Some (l # ls, a'')))"

text \<open>
  A simulation of a specification by a server that answers each request with one output.
  The invariant may depend on how many requests are still to be served.
\<close>

locale simulation =
  fixes serve :: "'m \<Rightarrow> 'c \<Rightarrow> 'c option" and spec :: "'m \<Rightarrow> 'a \<Rightarrow> ('o \<times> 'a) option"
    and abs :: "'c \<Rightarrow> 'a" and out :: "'c \<Rightarrow> 'o list" and inv :: "nat \<Rightarrow> 'c \<Rightarrow> bool" and good :: "'m \<Rightarrow> bool"
  assumes sim_step: "inv (Suc n) c \<Longrightarrow> good m \<Longrightarrow> spec m (abs c) = Some (l, a) \<Longrightarrow>
      \<exists>c'. serve m c = Some c' \<and> abs c' = a \<and> out c' = out c @ [l] \<and> inv n c'"
    and sim_stop: "inv (Suc n) c \<Longrightarrow> good m \<Longrightarrow> spec m (abs c) = None \<Longrightarrow> serve m c = None"
begin

lemma sim_all:
  assumes "inv (length ms + n) c" "list_all good ms"
  shows "case spec_all spec ms (abs c) of
      None \<Rightarrow> run_all serve ms c = None
    | Some (ls, a) \<Rightarrow> \<exists>c'. run_all serve ms c = Some c' \<and> abs c' = a \<and> out c' = out c @ ls \<and> inv n c'"
  using assms
proof (induction ms arbitrary: c)
  case Nil
  then show ?case by simp
next
  case (Cons m ms)
  have m: "inv (Suc (length ms + n)) c" "good m" "list_all good ms" using Cons.prems by simp_all
  show ?case
  proof (cases "spec m (abs c)")
    case None
    then show ?thesis using sim_stop [OF m(1,2)] by simp
  next
    case (Some la)
    obtain l a where la: "la = (l, a)" by (rule prod.exhaust)
    obtain c' where c': "serve m c = Some c'" "abs c' = a" "out c' = out c @ [l]" "inv (length ms + n) c'"
      using sim_step [OF m(1,2)] Some la by blast
    from Cons.IH [OF c'(4) m(3)] Some la c' show ?thesis by (auto split: option.splits)
  qed
qed

end

definition served :: "Message \<Rightarrow> world \<Rightarrow> world option" where
  "served msg w = (case call_response_function msg w of (Ret u, w') \<Rightarrow> Some w' | _ \<Rightarrow> None)"

definition spec_reply :: "Message \<Rightarrow> view \<Rightarrow> (string \<times> view) option" where
  "spec_reply msg a = (case spec_request msg a of Replies l a' \<Rightarrow> Some (l, a') | _ \<Rightarrow> None)"

definition within :: "nat \<Rightarrow> world \<Rightarrow> bool" where
  "within n w \<longleftrightarrow> conn_ok w \<and> length (stack (snd w)) + n \<le> 2147483648"

lemma run_all_served: "run_all served ms w = (case serve_all ms w of (Ret u, w') \<Rightarrow> Some w' | _ \<Rightarrow> None)"
proof (induction ms arbitrary: w)
  case Nil
  then show ?case by simp
next
  case (Cons m ms)
  obtain r w' where "call_response_function m w = (r, w')" by (rule prod.exhaust)
  with Cons show ?case by (cases r) (simp_all add: served_def serve_all_def run_simps)
qed

text \<open>A request adds at most one value to the stack.\<close>

lemma spec_grows:
  assumes "spec_request msg a = Replies l a'"
  shows "length (items a') \<le> Suc (length (items a))"
  using assms
  by (auto simp: spec_request_def spec_create_def spec_begin_def spec_commit_def spec_pop_def spec_top_def
      spec_arith_def spec_set_def spec_get_def on_store_def refuses_def give_up_def
      split: MessageType.splits list.splits option.splits prod.splits outcome.splits if_splits)

interpretation sv: simulation served spec_reply view_of "\<lambda>w. written (snd w)" within request_ok
proof
  fix n and w :: world and m l a
  obtain srv c where w: "w = (srv, c)" by (rule prod.exhaust)
  assume inv: "within (Suc n) w" and m: "request_ok m"
  then have ok: "conn_ok (srv, c)" and len: "length (stack c) < 2147483648" by (simp_all add: within_def w)
  note r = request_refines [OF ok m len]
  obtain r srv' c' where run: "call_response_function m (srv, c) = (r, (srv', c'))" by (metis prod.exhaust)
  {
    assume "spec_reply m (view_of w) = None"
    with r run show "served m w = None"
      by (cases r) (simp_all add: served_def spec_reply_def w outcome_of_def split: spec_outcome.splits)
  next
    assume s: "spec_reply m (view_of w) = Some (l, a)"
    then have s': "spec_request m (view_of (srv, c)) = Replies l a"
      by (simp add: spec_reply_def w split: spec_outcome.splits)
    then have ret: "r = Ret ()" "l = last (written c')" "a = view_of (srv', c')"
      using r run by (cases r; simp add: outcome_of_def)+
    have "\<not> get_breaks m (srv, c)" using get_breaks_faults [OF ok m] run ret by auto
    from response_ok [OF ok m this] run ret have "conn_ok (srv', c')" "\<exists>k. written c' = written c @ [k]"
      by (auto simp: response_ok_def step_ok_def)
    moreover have "length (stack c') \<le> Suc (length (stack c))" using spec_grows [OF s'] ret(3) by simp
    ultimately show "\<exists>c'. served m w = Some c' \<and> view_of c' = a \<and> written (snd c') = written (snd w) @ [l] \<and> within n c'"
      using run ret inv by (auto simp: served_def w within_def)
  }
qed

text \<open>
  C16. The server implements the abstract machine. For any sequence of well-formed requests
  of one client, from any state in order (with tables held by anyone), serving the requests
  gives exactly the replies of the abstract machine and ends in a state that abstracts to
  the machine's; and where the machine says that some request waits or stops the server,
  the sequence is not served to its end. The stack must not outgrow an \<open>int\<close>.
\<close>

theorem session_refines:
  assumes "conn_ok (srv, c)" "list_all request_ok msgs" "length (stack c) + length msgs \<le> 2147483648"
  shows "case spec_all spec_reply msgs (view_of (srv, c)) of
      None \<Rightarrow> fst (serve_all msgs (srv, c)) \<noteq> Ret ()
    | Some (replies, a) \<Rightarrow> \<exists>w'. serve_all msgs (srv, c) = (Ret (), w') \<and> view_of w' = a \<and>
        written (snd w') = written c @ replies \<and> conn_ok w'"
proof -
  have "within (length msgs + 0) (srv, c)" using assms by (simp add: within_def)
  from sv.sim_all [OF this assms(2)] show ?thesis
    by (auto simp: run_all_served within_def split: option.splits prod.splits outcome.splits)
qed

theorem session_refines_witness:
  "\<exists>w'. serve_all [Message_new BEGIN [], Message_new PUSH [''3''], Message_new SET [''fruit'', ''kiwis''],
        Message_new COMMIT []] (example_server, example_conn) = (Ret (), w') \<and>
     store (view_of w') ''fruit'' = Some [''kiwis'' \<mapsto> ''3''] \<and> draft (view_of w') = Map.empty"
proof -
  let ?ms = "[Message_new BEGIN [], Message_new PUSH [''3''], Message_new SET [''fruit'', ''kiwis''], Message_new COMMIT []]"
  have good: "list_all request_ok ?ms" by code_simp
  have "''fruit'' \<notin> busy (view_of (example_server, example_conn))"
    "store (view_of (example_server, example_conn)) ''fruit'' = Some Map.empty"
    "draft (view_of (example_server, example_conn)) = Map.empty"
    by (simp_all add: view_of_busy view_of_draft committed_new fun_eq_iff)
      (simp add: example_server_def create_table_run find_table_map_of um.lookup_assign Server_new_def)
  then have "\<exists>ls a. spec_all spec_reply ?ms (view_of (example_server, example_conn)) = Some (ls, a) \<and>
      store a ''fruit'' = Some [''kiwis'' \<mapsto> ''3''] \<and> draft a = Map.empty"
    by (simp add: spec_reply_def spec_request_def Message_new_def spec_begin_def spec_set_def on_store_def
        spec_commit_def drafted_def)
  with session_refines [OF example_ok good] show ?thesis by auto
qed

end
