(* ===== verification/Posix.thy ===== *)
theory Posix
  imports Cxx_Std
begin

text \<open>
  How \<open>csapp.c\<close> meets the operating system, and its error functions. The state of
  the process is what the code can see of it: the environment behind the system calls (of
  any type), \<open>errno\<close>, and the bytes written to the standard error. A system call is a
  parameter: a function from its arguments and the state to a result and a new state. A
  process that ends by \<open>exit\<close> or \<open>_exit\<close> is an outcome that nothing catches.
\<close>

record 'e proc =
  env :: 'e
  errno :: int
  err_out :: string

datatype process_end = Exit int | Exit_now int

type_synonym ('e, 'a) syscall = "'e proc \<Rightarrow> 'a \<times> 'e proc"
type_synonym ('e, 'a) pcmd = "('e proc, process_end, 'a) cmd"

definition call :: "('e, 'a) syscall \<Rightarrow> ('e, 'a) pcmd" where
  "call f = (\<lambda>s. case f s of (r, s') \<Rightarrow> (Ret r, s'))"

definition eprint :: "string \<Rightarrow> ('e, unit) pcmd" where
  "eprint t = modify (\<lambda>s. s\<lparr>err_out := err_out s @ t\<rparr>)"

definition when_cmd :: "bool \<Rightarrow> ('e, unit) pcmd \<Rightarrow> ('e, unit) pcmd" where
  "when_cmd b m = (if b then m else ret ())"

text \<open>The texts of \<open>strerror\<close> and \<open>gai_strerror\<close> are the C library's.\<close>

record libc =
  strerror :: "int \<Rightarrow> string"
  gai_strerror :: "int \<Rightarrow> string"

section \<open>Error functions\<close>

definition unix_error :: "libc \<Rightarrow> string \<Rightarrow> ('e, unit) pcmd" where
  "unix_error lc msg =
     bind_cmd (gets errno) (\<lambda>e.
     seq_cmd (eprint (msg @ '': '' @ strerror lc e @ [newline])) (throw (Exit 0)))"

definition posix_error :: "libc \<Rightarrow> int \<Rightarrow> string \<Rightarrow> ('e, unit) pcmd" where
  "posix_error lc code msg =
     seq_cmd (eprint (msg @ '': '' @ strerror lc code @ [newline])) (throw (Exit 0))"

definition gai_error :: "libc \<Rightarrow> int \<Rightarrow> string \<Rightarrow> ('e, unit) pcmd" where
  "gai_error lc code msg =
     seq_cmd (eprint (msg @ '': '' @ gai_strerror lc code @ [newline])) (throw (Exit 0))"

definition app_error :: "string \<Rightarrow> ('e, unit) pcmd" where
  "app_error msg = seq_cmd (eprint (msg @ [newline])) (throw (Exit 0))"

definition dns_error :: "string \<Rightarrow> ('e, unit) pcmd" where
  "dns_error msg = seq_cmd (eprint (msg @ [newline])) (throw (Exit 0))"

section \<open>Running them\<close>

lemma call_run [run_simps]: "call f s = (case f s of (r, s') \<Rightarrow> (Ret r, s'))"
  by (simp add: call_def)

lemma eprint_run [run_simps]: "eprint t s = (Ret (), s\<lparr>err_out := err_out s @ t\<rparr>)"
  by (simp add: eprint_def run_simps)

lemma when_cmd_run [run_simps]: "when_cmd b m s = (if b then m s else (Ret (), s))"
  by (simp add: when_cmd_def run_simps)

lemma error_run [run_simps]:
  "unix_error lc msg s = (Throw (Exit 0), s\<lparr>err_out := err_out s @ msg @ '': '' @ strerror lc (errno s) @ [newline]\<rparr>)"
  "posix_error lc code msg s = (Throw (Exit 0), s\<lparr>err_out := err_out s @ msg @ '': '' @ strerror lc code @ [newline]\<rparr>)"
  "gai_error lc code msg s = (Throw (Exit 0), s\<lparr>err_out := err_out s @ msg @ '': '' @ gai_strerror lc code @ [newline]\<rparr>)"
  "app_error msg s = (Throw (Exit 0), s\<lparr>err_out := err_out s @ msg @ [newline]\<rparr>)"
  "dns_error msg s = (Throw (Exit 0), s\<lparr>err_out := err_out s @ msg @ [newline]\<rparr>)"
  by (simp_all add: unix_error_def posix_error_def gai_error_def app_error_def dns_error_def run_simps)

end
