(* ===== verification/Sio.thy ===== *)
theory Sio
  imports Posix
begin

text \<open>
  The signal-safe output functions of \<open>csapp.c\<close>: \<open>sio_reverse\<close>,
  \<open>sio_ltoa\<close> and \<open>sio_strlen\<close> work on a \<open>char\<close> array in place,
  \<open>sio_puts\<close>, \<open>sio_putl\<close> and \<open>sio_error\<close> hand it to
  \<open>write\<close>. An array is a list of fixed length; a store or a read outside it, a signed
  overflow and a division by zero are faults. A \<open>long\<close> has 64 bits.
\<close>

section \<open>Definitions\<close>

definition LONG_MAX :: int where "LONG_MAX = 9223372036854775807"
definition LONG_MIN :: int where "LONG_MIN = - 9223372036854775808"

definition store_at :: "string \<Rightarrow> nat \<Rightarrow> char \<Rightarrow> ('x, string) outcome" where
  "store_at s i c = (if i < length s then Ret (s[i := c]) else Fault Buffer_overrun)"

text \<open>\<open>strlen\<close> of the C library: the place of the first NUL.\<close>

definition strlen :: "string \<Rightarrow> ('x, nat) outcome" where
  "strlen s = (if nul \<in> set s then Ret (length (takeWhile (\<lambda>c. c \<noteq> nul) s)) else Fault Index_out_of_range)"

function reverse_loop :: "string \<Rightarrow> int \<Rightarrow> int \<Rightarrow> ('x, string) outcome" where
  "reverse_loop s i j =
     (if i < j
      then if 0 \<le> i \<and> nat j < length s
           then reverse_loop (s[nat i := s ! nat j, nat j := s ! nat i]) (i + 1) (j - 1)
           else Fault Index_out_of_range
      else Ret s)"
  by pat_completeness auto
termination
  by (relation "measure (\<lambda>(s, i, j). nat (j - i))") auto

declare reverse_loop.simps [simp del]

definition sio_reverse :: "string \<Rightarrow> ('x, string) outcome" where
  "sio_reverse s = bind_res (strlen s) (\<lambda>n. reverse_loop s 0 (int n - 1))"

text \<open>The digit as a \<open>char\<close>: the low eight bits of the \<open>int\<close>.\<close>

definition ltoa_digit :: "int \<Rightarrow> char" where
  "ltoa_digit c = char_of (nat ((if c < 10 then c + 48 else c - 10 + 97) mod 256))"

text \<open>The \<open>do\<close> loop; the result is the array and \<open>i\<close>.\<close>

function ltoa_loop :: "int \<Rightarrow> string \<Rightarrow> nat \<Rightarrow> int \<Rightarrow> ('x, string \<times> nat) outcome" where
  "ltoa_loop v s i b =
     (if b = 0 then Fault Division_trap
      else if i < length s
      then (let s' = s[i := ltoa_digit (v smod b)]; v' = v sdiv b in
            if v' > 0 then ltoa_loop v' s' (i + 1) b else Ret (s', i + 1))
      else Fault Buffer_overrun)"
  by pat_completeness auto
termination
  by (relation "measure (\<lambda>(v, s, i, b). length s - i)") auto

declare ltoa_loop.simps [simp del]

definition sio_ltoa :: "int \<Rightarrow> string \<Rightarrow> int \<Rightarrow> ('x, string) outcome" where
  "sio_ltoa v s b =
     (let neg = (v < 0) in
      bind_res (if neg then if v = LONG_MIN then Fault Signed_overflow else Ret (- v) else Ret v) (\<lambda>v.
      bind_res (ltoa_loop v s 0 b) (\<lambda>(s, i).
      bind_res (if neg then bind_res (store_at s i CHR ''-'') (\<lambda>s. Ret (s, i + 1)) else Ret (s, i)) (\<lambda>(s, i).
      bind_res (store_at s i nul) sio_reverse))))"

function strlen_loop :: "string \<Rightarrow> nat \<Rightarrow> ('x, nat) outcome" where
  "strlen_loop s i =
     (if i < length s
      then if s ! i \<noteq> nul
           then if int i = INT_MAX then Fault Signed_overflow else strlen_loop s (i + 1)
           else Ret i
      else Fault Index_out_of_range)"
  by pat_completeness auto
termination
  by (relation "measure (\<lambda>(s, i). length s - i)") auto

declare strlen_loop.simps [simp del]

definition sio_strlen :: "string \<Rightarrow> ('x, nat) outcome" where
  "sio_strlen s = strlen_loop s 0"

text \<open>\<open>write(fd, s, n)\<close> is a parameter that takes the first \<open>n\<close> bytes of the array.\<close>

type_synonym 'e write_call = "int \<Rightarrow> string \<Rightarrow> ('e, int) syscall"

definition sio_puts :: "'e write_call \<Rightarrow> string \<Rightarrow> ('e, int) pcmd" where
  "sio_puts write s = bind_cmd (lift_res (sio_strlen s)) (\<lambda>n. call (write 1 (take n s)))"

text \<open>The array of \<open>sio_putl\<close> has 128 elements and is not initialised.\<close>

definition sio_putl :: "'e write_call \<Rightarrow> string \<Rightarrow> int \<Rightarrow> ('e, int) pcmd" where
  "sio_putl write garbage v =
     (let s = take 128 (garbage @ replicate 128 nul) in
      bind_cmd (lift_res (sio_ltoa v s 10)) (\<lambda>s. sio_puts write s))"

definition sio_error :: "'e write_call \<Rightarrow> string \<Rightarrow> ('e, unit) pcmd" where
  "sio_error write s = bind_cmd (sio_puts write s) (\<lambda>_. throw (Exit_now 1))"

definition Sio_putl :: "'e write_call \<Rightarrow> string \<Rightarrow> int \<Rightarrow> ('e, int) pcmd" where
  "Sio_putl write garbage v =
     bind_cmd (sio_putl write garbage v) (\<lambda>n.
     seq_cmd (when_cmd (n < 0) (sio_error write (''Sio_putl error'' @ [nul]))) (ret n))"

definition Sio_puts :: "'e write_call \<Rightarrow> string \<Rightarrow> ('e, int) pcmd" where
  "Sio_puts write s =
     bind_cmd (sio_puts write s) (\<lambda>n.
     seq_cmd (when_cmd (n < 0) (sio_error write (''Sio_puts error'' @ [nul]))) (ret n))"

definition Sio_error :: "'e write_call \<Rightarrow> string \<Rightarrow> ('e, unit) pcmd" where
  "Sio_error write s = sio_error write s"

section \<open>The reference: a number in a base\<close>

function radix_nat :: "int \<Rightarrow> int \<Rightarrow> string" where
  "radix_nat b n =
     (if b < 2 \<or> n < b then [ltoa_digit n] else radix_nat b (n div b) @ [ltoa_digit (n mod b)])"
  by pat_completeness auto
termination
  by (relation "measure (\<lambda>(b, n). nat n)") (auto simp: int_div_less_self)

declare radix_nat.simps [simp del]

definition radix_text :: "int \<Rightarrow> int \<Rightarrow> string" where
  "radix_text b v = (if v < 0 then CHR ''-'' # radix_nat b (- v) else radix_nat b v)"

section \<open>Lemmas\<close>

lemma reverse_loop_segment:
  "(reverse_loop (pre @ xs @ post) (int (length pre)) (int (length pre) + int (length xs) - 1) :: ('x, string) outcome) =
     Ret (pre @ rev xs @ post)"
proof (induction "length xs" arbitrary: pre xs post rule: less_induct)
  case less
  show ?case
  proof (cases "length xs < 2")
    case True
    then have "rev xs = xs" by (cases xs) auto
    then show ?thesis using True by (subst reverse_loop.simps) simp
  next
    case False
    then obtain x ys where "xs = x # ys" "ys \<noteq> []" by (cases xs) (auto simp: not_less)
    then obtain zs y where xs: "xs = x # zs @ [y]" by (metis rev_exhaust)
    let ?i = "int (length pre)" and ?j = "int (length pre) + int (length xs) - 1"
    have j: "nat ?j = Suc (length pre + length zs)" by (simp add: xs)
    have "(pre @ xs @ post)[nat ?i := (pre @ xs @ post) ! nat ?j, nat ?j := (pre @ xs @ post) ! nat ?i] =
        (pre @ [y]) @ zs @ x # post"
      unfolding j by (simp add: xs nth_append list_update_append)
    then have "(reverse_loop (pre @ xs @ post) ?i ?j :: ('x, string) outcome) = reverse_loop ((pre @ [y]) @ zs @ x # post) (?i + 1) (?j - 1)"
      using j by (subst reverse_loop.simps) (simp add: xs)
    also have "\<dots> = Ret ((pre @ [y]) @ rev zs @ x # post)"
      using less [of zs "pre @ [y]" "x # post"] by (simp add: xs algebra_simps)
    finally show ?thesis by (simp add: xs)
  qed
qed

lemma strlen_text: "nul \<notin> set t \<Longrightarrow> strlen (t @ nul # rest) = Ret (length t)"
  unfolding strlen_def by (subst takeWhile_append2) auto

lemma sio_reverse_text: "nul \<notin> set t \<Longrightarrow> sio_reverse (t @ nul # rest) = Ret (rev t @ nul # rest)"
  using reverse_loop_segment [of "[]" t "nul # rest"] by (simp add: sio_reverse_def strlen_text)

lemma radix_nat_nonempty: "radix_nat b n \<noteq> []"
  by (subst radix_nat.simps) simp

lemma ltoa_digit_not_nul:
  assumes "0 \<le> c" "c < 36"
  shows "ltoa_digit c \<noteq> nul"
proof
  let ?n = "if c < 10 then c + 48 else c - 10 + 97"
  assume "ltoa_digit c = nul"
  then have "of_char (ltoa_digit c) = (0 :: nat)" by simp
  moreover have "0 < ?n" "?n < 256" using assms by auto
  then have "of_char (ltoa_digit c) = nat ?n" by (simp add: ltoa_digit_def)
  ultimately show False using \<open>0 < ?n\<close> by simp
qed

lemma radix_nat_no_nul: "2 \<le> b \<Longrightarrow> b \<le> 36 \<Longrightarrow> 0 \<le> n \<Longrightarrow> nul \<notin> set (radix_nat b n)"
proof (induction b n rule: radix_nat.induct)
  case (1 b n)
  show ?case
  proof (cases "n < b")
    case True
    then show ?thesis using 1 ltoa_digit_not_nul [of n] by (subst radix_nat.simps) auto
  next
    case False
    have "0 \<le> n mod b" "n mod b < 36" using 1(2,3) pos_mod_bound [of b n] by (simp, linarith)
    then show ?thesis
      using 1 False ltoa_digit_not_nul [of "n mod b"] by (subst radix_nat.simps) (auto simp: pos_imp_zdiv_nonneg_iff)
  qed
qed

text \<open>The loop stores the digits from the last to the first.\<close>

lemma smod_sdiv_pos: "0 \<le> v \<Longrightarrow> 0 < b \<Longrightarrow> v smod b = v mod (b :: int) \<and> v sdiv b = v div b"
  by (simp add: signed_divide_int_def signed_modulo_int_def minus_mult_div_eq_mod sgn_if)

lemma ltoa_loop_digits:
  assumes "2 \<le> b" "0 \<le> v" "length (radix_nat b v) \<le> length s"
  shows "(ltoa_loop v (pre @ s) (length pre) b :: ('x, string \<times> nat) outcome) =
    Ret (pre @ rev (radix_nat b v) @ drop (length (radix_nat b v)) s, length pre + length (radix_nat b v))"
  using assms
proof (induction b v arbitrary: pre s rule: radix_nat.induct)
  case (1 b v)
  note d = smod_sdiv_pos [of v b]
  have "s \<noteq> []" using 1(4) radix_nat_nonempty [of b v] by (cases s) auto
  then obtain x xs where s: "s = x # xs" by (cases s) auto
  show ?case
  proof (cases "v < b")
    case True
    then have r: "radix_nat b v = [ltoa_digit v]" by (subst radix_nat.simps) simp
    have "v div b = 0" "v mod b = v" using True 1 by simp_all
    then show ?thesis using 1 d by (subst ltoa_loop.simps) (simp add: s r Let_def)
  next
    case False
    then have r: "radix_nat b v = radix_nat b (v div b) @ [ltoa_digit (v mod b)]"
      using 1 by (subst radix_nat.simps) simp
    have pos: "0 < v div b" using False 1 by (simp add: pos_imp_zdiv_pos_iff)
    have "(ltoa_loop v (pre @ s) (length pre) b :: ('x, string \<times> nat) outcome) =
        ltoa_loop (v div b) ((pre @ [ltoa_digit (v mod b)]) @ xs) (length (pre @ [ltoa_digit (v mod b)])) b"
      using 1 d pos by (subst ltoa_loop.simps) (simp add: s Let_def)
    also have "\<dots> = Ret ((pre @ [ltoa_digit (v mod b)]) @ rev (radix_nat b (v div b)) @
        drop (length (radix_nat b (v div b))) xs, length (pre @ [ltoa_digit (v mod b)]) + length (radix_nat b (v div b)))"
      using 1 pos False r s by (intro 1(1)) auto
    finally show ?thesis by (simp add: r s)
  qed
qed

lemma ltoa_digit_decimal: "0 \<le> n \<Longrightarrow> n < 10 \<Longrightarrow> ltoa_digit n = digit_char (nat n)"
  by (simp add: ltoa_digit_def digit_char_def nat_add_distrib add.commute)

lemma radix_nat_decimal: "0 \<le> n \<Longrightarrow> radix_nat 10 n = nat_to_string (nat n)"
proof (induction "10 :: int" n rule: radix_nat.induct)
  case (1 n)
  show ?case
  proof (cases "n < 10")
    case True
    then show ?thesis using 1
      by (subst radix_nat.simps, subst nat_to_string.simps) (simp add: ltoa_digit_decimal nat_less_iff)
  next
    case False
    then have "\<not> nat n < 10" using 1 by (simp add: nat_less_iff)
    moreover note False
    moreover have "radix_nat 10 (n div 10) = nat_to_string (nat n div 10)"
      using 1 False by (simp add: nat_div_distrib)
    ultimately show ?thesis using 1
      by (subst radix_nat.simps, subst nat_to_string.simps) (simp add: ltoa_digit_decimal nat_mod_distrib)
  qed
qed

lemma radix_text_decimal: "radix_text 10 v = to_string v"
  by (simp add: radix_text_def to_string_def radix_nat_decimal)

lemma strlen_loop_text:
  "nul \<notin> set t \<Longrightarrow> int (length pre + length t) \<le> INT_MAX \<Longrightarrow>
     strlen_loop (pre @ t @ nul # rest) (length pre) = Ret (length pre + length t)"
proof (induction t arbitrary: pre)
  case Nil
  then show ?case by (subst strlen_loop.simps) simp
next
  case (Cons c t)
  then show ?case using Cons.IH [of "pre @ [c]"] by (subst strlen_loop.simps) (auto simp: nth_append)
qed

text \<open>The array after the loop, the sign and the NUL were stored.\<close>

lemma sio_ltoa_run:
  assumes b: "2 \<le> b" "b \<le> 36" and v: "LONG_MIN < v" and len: "length (radix_text b v) < length s"
  shows "(sio_ltoa v s b :: ('x, string) outcome) = Ret (radix_text b v @ nul # drop (Suc (length (radix_text b v))) s)"
proof -
  let ?ds = "radix_nat b \<bar>v\<bar>"
  have t: "rev (radix_text b v) = rev ?ds @ (if v < 0 then [CHR ''-''] else [])" by (simp add: radix_text_def)
  have ds: "length ?ds \<le> length s" using len by (auto simp: radix_text_def split: if_splits)
  have loop: "(ltoa_loop \<bar>v\<bar> s 0 b :: ('x, string \<times> nat) outcome) =
      Ret (rev ?ds @ drop (length ?ds) s, length ?ds)"
    using ltoa_loop_digits [OF b(1) _ ds, of "[]"] by simp
  obtain x xs where d: "drop (length ?ds) s = x # xs"
    using len by (cases "drop (length ?ds) s") (auto simp: radix_text_def split: if_splits)
  have stored: "(sio_ltoa v s b :: ('x, string) outcome) =
      sio_reverse (rev (radix_text b v) @ nul # drop (Suc (length (radix_text b v))) s)"
  proof (cases "v < 0")
    case False
    moreover have "drop (Suc (length ?ds)) s = xs" using d by (metis drop_Suc drop_tl list.sel(3))
    ultimately show ?thesis
      using loop d t by (simp add: sio_ltoa_def store_at_def Let_def radix_text_def list_update_append)
  next
    case True
    then have abs: "\<bar>v\<bar> = - v" by simp
    have "length xs = length s - Suc (length ?ds)" using d by (metis length_drop length_tl list.sel(3) diff_Suc_eq_diff_pred diff_commute diff_Suc_1 length_Cons)
    then have "xs \<noteq> []" using len True abs by (auto simp: radix_text_def)
    then obtain y ys where xs: "xs = y # ys" by (cases xs) auto
    have "drop (Suc (Suc (length ?ds))) s = ys"
      using d xs by (metis drop_Suc drop_tl list.sel(3))
    then show ?thesis
      using True v loop d t abs xs
      by (simp add: sio_ltoa_def store_at_def Let_def radix_text_def list_update_append)
  qed
  have "nul \<notin> set (rev (radix_text b v))"
    using radix_nat_no_nul [OF b] by (auto simp: radix_text_def)
  then show ?thesis using stored by (simp add: sio_reverse_text)
qed

section \<open>Properties\<close>

text \<open>
  C34. \<open>sio_ltoa\<close> agrees with the reference: in a base from 2 to 36 it leaves the digits
  of the number, with a sign if it is negative, and a NUL at the front of the array and the
  rest of the array as it was; in base ten that is the text of \<open>std::to_string\<close>. The
  array must have room; the least \<open>long\<close> is out, because its negation overflows.
\<close>

theorem sio_ltoa_text:
  assumes "2 \<le> b" "b \<le> 36" "length (radix_text b v) < length s"
  shows "(LONG_MIN < v \<longrightarrow>
      (sio_ltoa v s b :: ('x, string) outcome) = Ret (radix_text b v @ nul # drop (Suc (length (radix_text b v))) s)) \<and>
    (sio_ltoa LONG_MIN s b :: ('x, string) outcome) = Fault Signed_overflow \<and>
    radix_text 10 v = to_string v"
proof -
  have "(sio_ltoa LONG_MIN s b :: ('x, string) outcome) = Fault Signed_overflow"
    by (simp add: sio_ltoa_def LONG_MIN_def)
  then show ?thesis using sio_ltoa_run [OF assms(1,2) _ assms(3)] by (auto simp: radix_text_decimal)
qed

theorem sio_ltoa_text_witness:
  "(sio_ltoa (- 255) (replicate 6 CHR ''x'') 16 :: (unit, string) outcome) =
     Ret (''-ff'' @ nul # ''xx'')"
proof -
  have t: "radix_text 16 (- 255) = ''-ff''" by code_simp
  have "(sio_ltoa (- 255) (replicate 6 CHR ''x'') 16 :: (unit, string) outcome) =
      Ret (radix_text 16 (- 255) @ nul # drop (Suc (length (radix_text 16 (- 255)))) (replicate 6 CHR ''x''))"
    using sio_ltoa_text [where 'x = unit and b = 16 and v = "- 255" and s = "replicate 6 CHR ''x''"] t by (simp add: LONG_MIN_def)
  then show ?thesis unfolding t by (simp add: numeral_eq_Suc)
qed

text \<open>
  \<open>sio_putl\<close> makes one call of \<open>write\<close> on descriptor 1, with the decimal text of
  the number, whatever its uninitialised array held: the 128 elements are enough for every \<open>long\<close>.
\<close>

theorem sio_putl_writes:
  assumes "LONG_MIN < v" "v \<le> LONG_MAX"
  shows "sio_putl write garbage v s = call (write 1 (to_string v)) s"
proof -
  define a where "a = take 128 (garbage @ replicate 128 nul)"
  have a: "length a = 128" by (simp add: a_def min_def)
  have "length (nat_to_string (nat \<bar>v\<bar>)) \<le> Suc 18"
    using assms by (intro length_nat_to_string) (simp add: LONG_MIN_def LONG_MAX_def)
  then have len: "length (to_string v) \<le> 20"
    by (auto simp: to_string_def split: if_splits)
  have nn: "nul \<notin> set (to_string v)"
    using radix_nat_no_nul [of 10 "\<bar>v\<bar>"] by (auto simp: radix_text_def simp flip: radix_text_decimal)
  let ?r = "drop (Suc (length (to_string v))) a"
  have "(sio_ltoa v a 10 :: (process_end, string) outcome) = Ret (to_string v @ nul # ?r)"
    using sio_ltoa_run [of 10 v a] assms len a by (simp add: radix_text_decimal)
  moreover have "(sio_strlen (to_string v @ nul # ?r) :: (process_end, nat) outcome) = Ret (length (to_string v))"
    using strlen_loop_text [OF nn, of "[]" ?r] len by (simp add: sio_strlen_def INT_MAX_def)
  ultimately show ?thesis
    unfolding sio_putl_def Let_def a_def [symmetric] by (simp add: sio_puts_def run_simps)
qed

theorem sio_putl_writes_witness:
  "sio_putl (\<lambda>fd bytes s. (int (length bytes), s\<lparr>env := env s @ bytes\<rparr>)) ''rubbish'' (- 40)
      \<lparr>env = [], errno = 0, err_out = []\<rparr> =
    call (\<lambda>s. (int (length (to_string (- 40))), s\<lparr>env := env s @ to_string (- 40)\<rparr>)) \<lparr>env = [], errno = 0, err_out = []\<rparr>"
  by (rule sio_putl_writes) (simp_all add: LONG_MIN_def LONG_MAX_def)

end
