(* ===== verification/Sockets.thy ===== *)
theory Sockets
  imports Posix
begin

text \<open>
  \<open>open_clientfd\<close> and \<open>open_listenfd\<close> of \<open>csapp.c\<close>, by which the
  programs get their sockets. The socket calls are a record of parameters;
  \<open>kernel_ok\<close> names what their documentation promises about descriptors and address
  lists, in terms of two observations of the environment: the open sockets with their state,
  and the number of address lists not yet freed.
\<close>

section \<open>Socket calls\<close>

type_synonym sockaddr = string

record addrinfo =
  ai_family :: int
  ai_socktype :: int
  ai_protocol :: int
  ai_addr :: sockaddr
  ai_addrlen :: nat

text \<open>The constants of the system headers, by name; flags are a set.\<close>

datatype gai_flag = AI_PASSIVE | AI_ADDRCONFIG | AI_NUMERICSERV
datatype sock_type = SOCK_STREAM

record gai_hints =
  hint_socktype :: sock_type
  hint_flags :: "gai_flag set"

definition LISTENQ :: int where
  "LISTENQ = 1024"

record 'e kernel =
  k_getaddrinfo :: "string option \<Rightarrow> string \<Rightarrow> gai_hints \<Rightarrow> ('e, int \<times> addrinfo list) syscall"
  k_freeaddrinfo :: "addrinfo list \<Rightarrow> ('e, unit) syscall"
  k_socket :: "int \<Rightarrow> int \<Rightarrow> int \<Rightarrow> ('e, int) syscall"
  k_connect :: "int \<Rightarrow> sockaddr \<Rightarrow> nat \<Rightarrow> ('e, int) syscall"
  k_reuseaddr :: "int \<Rightarrow> ('e, int) syscall"
  k_bind :: "int \<Rightarrow> sockaddr \<Rightarrow> nat \<Rightarrow> ('e, int) syscall"
  k_listen :: "int \<Rightarrow> int \<Rightarrow> ('e, int) syscall"
  k_close :: "int \<Rightarrow> ('e, int) syscall"

section \<open>\<open>open_clientfd\<close>\<close>

text \<open>How the walk through the list ends: with a socket, at the end of the list, or early.\<close>

datatype walk_end = Found int | Exhausted | Close_failed

primrec client_walk :: "libc \<Rightarrow> 'e kernel \<Rightarrow> addrinfo list \<Rightarrow> ('e, walk_end) pcmd" where
  "client_walk lc k [] = ret Exhausted"
| "client_walk lc k (p # ps) =
     bind_cmd (call (k_socket k (ai_family p) (ai_socktype p) (ai_protocol p))) (\<lambda>clientfd.
     if clientfd < 0 then client_walk lc k ps
     else bind_cmd (call (k_connect k clientfd (ai_addr p) (ai_addrlen p))) (\<lambda>rc.
       if rc \<noteq> - 1 then ret (Found clientfd)
       else bind_cmd (call (k_close k clientfd)) (\<lambda>rc.
         if rc < 0
         then bind_cmd (gets errno) (\<lambda>e.
              seq_cmd (eprint (''open_clientfd: close failed: '' @ strerror lc e @ [newline])) (ret Close_failed))
         else client_walk lc k ps)))"

definition client_hints :: gai_hints where
  "client_hints = \<lparr>hint_socktype = SOCK_STREAM, hint_flags = {AI_NUMERICSERV} \<union> {AI_ADDRCONFIG}\<rparr>"

definition open_clientfd :: "libc \<Rightarrow> 'e kernel \<Rightarrow> string \<Rightarrow> string \<Rightarrow> ('e, int) pcmd" where
  "open_clientfd lc k hostname port =
     bind_cmd (call (k_getaddrinfo k (Some hostname) port client_hints)) (\<lambda>(rc, listp).
      if rc \<noteq> 0
      then seq_cmd
             (eprint (''getaddrinfo failed ('' @ hostname @ '':'' @ port @ ''): '' @ gai_strerror lc rc @ [newline]))
             (ret (- 2))
      else bind_cmd (client_walk lc k listp) (\<lambda>w.
        case w of
          Close_failed \<Rightarrow> ret (- 1)
        | Exhausted \<Rightarrow> seq_cmd (call (k_freeaddrinfo k listp)) (ret (- 1))
        | Found clientfd \<Rightarrow> seq_cmd (call (k_freeaddrinfo k listp)) (ret clientfd)))"

section \<open>\<open>open_listenfd\<close>\<close>

primrec listen_walk :: "libc \<Rightarrow> 'e kernel \<Rightarrow> addrinfo list \<Rightarrow> ('e, walk_end) pcmd" where
  "listen_walk lc k [] = ret Exhausted"
| "listen_walk lc k (p # ps) =
     bind_cmd (call (k_socket k (ai_family p) (ai_socktype p) (ai_protocol p))) (\<lambda>listenfd.
     if listenfd < 0 then listen_walk lc k ps
     else bind_cmd (call (k_reuseaddr k listenfd)) (\<lambda>_.
       bind_cmd (call (k_bind k listenfd (ai_addr p) (ai_addrlen p))) (\<lambda>rc.
       if rc = 0 then ret (Found listenfd)
       else bind_cmd (call (k_close k listenfd)) (\<lambda>rc.
         if rc < 0
         then bind_cmd (gets errno) (\<lambda>e.
              seq_cmd (eprint (''open_listenfd close failed: '' @ strerror lc e @ [newline])) (ret Close_failed))
         else listen_walk lc k ps))))"

definition listen_hints :: gai_hints where
  "listen_hints = \<lparr>hint_socktype = SOCK_STREAM, hint_flags = {AI_PASSIVE, AI_ADDRCONFIG} \<union> {AI_NUMERICSERV}\<rparr>"

definition open_listenfd :: "libc \<Rightarrow> 'e kernel \<Rightarrow> string \<Rightarrow> ('e, int) pcmd" where
  "open_listenfd lc k port =
     bind_cmd (call (k_getaddrinfo k None port listen_hints)) (\<lambda>(rc, listp).
      if rc \<noteq> 0
      then seq_cmd (eprint (''getaddrinfo failed (port '' @ port @ ''): '' @ gai_strerror lc rc @ [newline]))
             (ret (- 2))
      else bind_cmd (listen_walk lc k listp) (\<lambda>w.
        case w of
          Close_failed \<Rightarrow> ret (- 1)
        | Exhausted \<Rightarrow> seq_cmd (call (k_freeaddrinfo k listp)) (ret (- 1))
        | Found listenfd \<Rightarrow>
            seq_cmd (call (k_freeaddrinfo k listp))
              (bind_cmd (call (k_listen k listenfd LISTENQ)) (\<lambda>rc.
               if rc < 0 then bind_cmd (call (k_close k listenfd)) (\<lambda>_. ret (- 1)) else ret listenfd))))"

section \<open>What the calls promise\<close>

datatype sock = Fresh | Connected sockaddr | Bound sockaddr | Listening sockaddr

text \<open>
  A new descriptor is not negative and was not in use. Connecting and binding affect the given
  descriptor only, which stays open. \<open>close\<close> releases the descriptor, also when it
  reports an error (as Linux does). A successful \<open>getaddrinfo\<close> makes a list that
  \<open>freeaddrinfo\<close> takes back.
\<close>

definition kernel_ok :: "'e kernel \<Rightarrow> ('e \<Rightarrow> int \<rightharpoonup> sock) \<Rightarrow> ('e \<Rightarrow> nat) \<Rightarrow> bool" where
  "kernel_ok k socks allocs \<longleftrightarrow>
     (\<forall>f t p s fd s'. k_socket k f t p s = (fd, s') \<longrightarrow> allocs (env s') = allocs (env s) \<and>
        (if fd < 0 then socks (env s') = socks (env s)
         else socks (env s) fd = None \<and> socks (env s') = (socks (env s))(fd \<mapsto> Fresh))) \<and>
     (\<forall>fd a n s rc s'. k_connect k fd a n s = (rc, s') \<and> fd \<in> dom (socks (env s)) \<longrightarrow> allocs (env s') = allocs (env s) \<and>
        (\<exists>x. socks (env s') = (socks (env s))(fd \<mapsto> x) \<and> (rc \<noteq> - 1 \<longrightarrow> x = Connected a))) \<and>
     (\<forall>fd s rc s'. k_reuseaddr k fd s = (rc, s') \<longrightarrow> allocs (env s') = allocs (env s) \<and> socks (env s') = socks (env s)) \<and>
     (\<forall>fd a n s rc s'. k_bind k fd a n s = (rc, s') \<and> fd \<in> dom (socks (env s)) \<longrightarrow> allocs (env s') = allocs (env s) \<and>
        (\<exists>x. socks (env s') = (socks (env s))(fd \<mapsto> x) \<and> (rc = 0 \<longrightarrow> x = Bound a))) \<and>
     (\<forall>fd n a s rc s'. k_listen k fd n s = (rc, s') \<and> socks (env s) fd = Some (Bound a) \<longrightarrow>
        allocs (env s') = allocs (env s) \<and>
        socks (env s') = (if rc < 0 then socks (env s) else (socks (env s))(fd \<mapsto> Listening a))) \<and>
     (\<forall>fd s rc s'. k_close k fd s = (rc, s') \<longrightarrow> allocs (env s') = allocs (env s) \<and>
        socks (env s') = (socks (env s))(fd := None)) \<and>
     (\<forall>h p hints s rc l s'. k_getaddrinfo k h p hints s = ((rc, l), s') \<longrightarrow> socks (env s') = socks (env s) \<and>
        allocs (env s') = allocs (env s) + (if rc = 0 then 1 else 0)) \<and>
     (\<forall>l s u s'. k_freeaddrinfo k l s = (u, s') \<longrightarrow> socks (env s') = socks (env s) \<and>
        allocs (env s') = allocs (env s) - 1)"

lemma kernel_okD:
  assumes "kernel_ok k socks allocs"
  shows "k_socket k f t p s = (fd, s') \<Longrightarrow> allocs (env s') = allocs (env s) \<and>
        (if fd < 0 then socks (env s') = socks (env s)
         else socks (env s) fd = None \<and> socks (env s') = (socks (env s))(fd \<mapsto> Fresh))"
    and "k_connect k fd a n s = (rc, s') \<Longrightarrow> fd \<in> dom (socks (env s)) \<Longrightarrow> allocs (env s') = allocs (env s) \<and>
        (\<exists>x. socks (env s') = (socks (env s))(fd \<mapsto> x) \<and> (rc \<noteq> - 1 \<longrightarrow> x = Connected a))"
    and "k_reuseaddr k fd s = (rc, s') \<Longrightarrow> allocs (env s') = allocs (env s) \<and> socks (env s') = socks (env s)"
    and "k_bind k fd a n s = (rc, s') \<Longrightarrow> fd \<in> dom (socks (env s)) \<Longrightarrow> allocs (env s') = allocs (env s) \<and>
        (\<exists>x. socks (env s') = (socks (env s))(fd \<mapsto> x) \<and> (rc = 0 \<longrightarrow> x = Bound a))"
    and "k_listen k fd q s = (rc, s') \<Longrightarrow> socks (env s) fd = Some (Bound a) \<Longrightarrow>
        allocs (env s') = allocs (env s) \<and>
        socks (env s') = (if rc < 0 then socks (env s) else (socks (env s))(fd \<mapsto> Listening a))"
    and "k_close k fd s = (rc, s') \<Longrightarrow> allocs (env s') = allocs (env s) \<and> socks (env s') = (socks (env s))(fd := None)"
    and "k_getaddrinfo k h port hints s = ((rc, l), s') \<Longrightarrow> socks (env s') = socks (env s) \<and>
        allocs (env s') = allocs (env s) + (if rc = 0 then 1 else 0)"
    and "k_freeaddrinfo k l s = (u, s') \<Longrightarrow> socks (env s') = socks (env s) \<and> allocs (env s') = allocs (env s) - 1"
  using assms unfolding kernel_ok_def by simp_all

text \<open>What a walk leaves behind, whatever addresses it tried: at most the one socket it found.\<close>

definition walked :: "libc \<Rightarrow> string \<Rightarrow> ('e \<Rightarrow> int \<rightharpoonup> sock) \<Rightarrow> ('e \<Rightarrow> nat) \<Rightarrow> (sockaddr \<Rightarrow> sock) \<Rightarrow> addrinfo list \<Rightarrow>
    'e proc \<Rightarrow> walk_end \<Rightarrow> 'e proc \<Rightarrow> bool" where
  "walked lc report socks allocs made ps s w s' \<longleftrightarrow>
     allocs (env s') = allocs (env s) \<and>
     (case w of
        Found fd \<Rightarrow> 0 \<le> fd \<and> socks (env s) fd = None \<and>
          (\<exists>p\<in>set ps. socks (env s') = (socks (env s))(fd \<mapsto> made (ai_addr p)))
      | Exhausted \<Rightarrow> socks (env s') = socks (env s)
      | Close_failed \<Rightarrow> socks (env s') = socks (env s) \<and>
          (\<exists>t e. err_out s' = t @ report @ strerror lc e @ [newline]))"

lemma walked_next:
  assumes "socks (env s1) = socks (env s)" "allocs (env s1) = allocs (env s)" "walked lc report socks allocs made ps s1 w s'"
  shows "walked lc report socks allocs made (p # ps) s w s'"
  using assms by (auto simp: walked_def split: walk_end.splits)

lemma client_walk_ends:
  assumes k: "kernel_ok k socks allocs"
  shows "\<exists>w s'. client_walk lc k ps s = (Ret w, s') \<and> walked lc ''open_clientfd: close failed: '' socks allocs Connected ps s w s'"
proof (induction ps arbitrary: s)
  case Nil
  then show ?case by (simp add: run_simps walked_def)
next
  case (Cons p ps)
  obtain fd s1 where 1: "k_socket k (ai_family p) (ai_socktype p) (ai_protocol p) s = (fd, s1)" by (rule prod.exhaust)
  note l1 = kernel_okD(1) [OF k 1]
  show ?case
  proof (cases "fd < 0")
    case True
    with Cons.IH [of s1] 1 l1 walked_next [of socks s1 s allocs] show ?thesis
      by (auto simp: run_simps)
  next
    case False
    obtain rc s2 where 2: "k_connect k fd (ai_addr p) (ai_addrlen p) s1 = (rc, s2)" by (rule prod.exhaust)
    obtain x where x: "socks (env s2) = (socks (env s))(fd \<mapsto> x)" "rc \<noteq> - 1 \<longrightarrow> x = Connected (ai_addr p)"
      "allocs (env s2) = allocs (env s)"
      using kernel_okD(2) [OF k 2] l1 False by auto
    obtain rc' s3 where 3: "k_close k fd s2 = (rc', s3)" by (rule prod.exhaust)
    have same: "socks (env s3) = socks (env s)" "allocs (env s3) = allocs (env s)"
      using kernel_okD(6) [OF k 3] x l1 False by (auto simp: fun_upd_idem)
    show ?thesis
      using 1 2 3 False x same l1 Cons.IH [of s3] walked_next [OF same]
      by (auto simp: run_simps walked_def)
  qed
qed

lemma listen_walk_ends:
  assumes k: "kernel_ok k socks allocs"
  shows "\<exists>w s'. listen_walk lc k ps s = (Ret w, s') \<and> walked lc ''open_listenfd close failed: '' socks allocs Bound ps s w s'"
proof (induction ps arbitrary: s)
  case Nil
  then show ?case by (simp add: run_simps walked_def)
next
  case (Cons p ps)
  obtain fd s1 where 1: "k_socket k (ai_family p) (ai_socktype p) (ai_protocol p) s = (fd, s1)" by (rule prod.exhaust)
  note l1 = kernel_okD(1) [OF k 1]
  show ?case
  proof (cases "fd < 0")
    case True
    with Cons.IH [of s1] 1 l1 walked_next [of socks s1 s allocs] show ?thesis
      by (auto simp: run_simps)
  next
    case False
    obtain r0 s0 where 0: "k_reuseaddr k fd s1 = (r0, s0)" by (rule prod.exhaust)
    note l0 = kernel_okD(3) [OF k 0]
    obtain rc s2 where 2: "k_bind k fd (ai_addr p) (ai_addrlen p) s0 = (rc, s2)" by (rule prod.exhaust)
    obtain x where x: "socks (env s2) = (socks (env s))(fd \<mapsto> x)" "rc = 0 \<longrightarrow> x = Bound (ai_addr p)"
      "allocs (env s2) = allocs (env s)"
      using kernel_okD(4) [OF k 2] l1 l0 False by auto
    obtain rc' s3 where 3: "k_close k fd s2 = (rc', s3)" by (rule prod.exhaust)
    have same: "socks (env s3) = socks (env s)" "allocs (env s3) = allocs (env s)"
      using kernel_okD(6) [OF k 3] x l1 False by (auto simp: fun_upd_idem)
    show ?thesis
      using 0 1 2 3 False x same l1 Cons.IH [of s3] walked_next [OF same]
      by (auto simp: run_simps walked_def)
  qed
qed

section \<open>Properties\<close>

text \<open>
  C32. \<open>open_clientfd\<close> returns, whatever the system calls do. It gives a descriptor that
  was not in use and is now connected to one of the addresses found, and no other descriptor
  is left open; or it gives -1 or -2 and the open descriptors are those from before. The
  address list is freed, except when closing a socket that could not be connected fails.
\<close>

theorem open_clientfd_ends:
  assumes "kernel_ok k socks allocs"
  shows "\<exists>fd s'. open_clientfd lc k hostname port s = (Ret fd, s') \<and>
    (if 0 \<le> fd
     then socks (env s) fd = None \<and> allocs (env s') = allocs (env s) \<and>
       (\<exists>rc l s1. k_getaddrinfo k (Some hostname) port client_hints s = ((rc, l), s1) \<and>
          (\<exists>p\<in>set l. socks (env s') = (socks (env s))(fd \<mapsto> Connected (ai_addr p))))
     else fd \<in> {- 1, - 2} \<and> socks (env s') = socks (env s) \<and>
       (allocs (env s') = allocs (env s) \<or>
        allocs (env s') = allocs (env s) + 1 \<and> fd = - 1 \<and>
          (\<exists>t e. err_out s' = t @ ''open_clientfd: close failed: '' @ strerror lc e @ [newline])))"
proof -
  obtain rc l s1 where 1: "k_getaddrinfo k (Some hostname) port client_hints s = ((rc, l), s1)" by (metis prod.exhaust)
  note l1 = kernel_okD(7) [OF assms 1]
  obtain w s2 where 2: "client_walk lc k l s1 = (Ret w, s2)"
    "walked lc ''open_clientfd: close failed: '' socks allocs Connected l s1 w s2"
    using client_walk_ends [OF assms] by blast
  obtain u s3 where 3: "k_freeaddrinfo k l s2 = (u, s3)" by (rule prod.exhaust)
  note l3 = kernel_okD(8) [OF assms 3]
  show ?thesis
    using 1 2 3 l1 l3 unfolding open_clientfd_def
    by (cases w; cases "rc = 0") (simp_all add: run_simps walked_def)
qed

text \<open>
  C33. \<open>open_listenfd\<close> returns, whatever the system calls do. It gives a descriptor that was
  not in use and now listens on one of the addresses found, and no other descriptor is left
  open; or it gives -1 or -2 and the open descriptors are those from before. The address
  list is freed, except when closing a socket that could not be bound fails.
\<close>

theorem open_listenfd_ends:
  assumes "kernel_ok k socks allocs"
  shows "\<exists>fd s'. open_listenfd lc k port s = (Ret fd, s') \<and>
    (if 0 \<le> fd
     then socks (env s) fd = None \<and> allocs (env s') = allocs (env s) \<and>
       (\<exists>rc l s1. k_getaddrinfo k None port listen_hints s = ((rc, l), s1) \<and>
          (\<exists>p\<in>set l. socks (env s') = (socks (env s))(fd \<mapsto> Listening (ai_addr p))))
     else fd \<in> {- 1, - 2} \<and> socks (env s') = socks (env s) \<and>
       (allocs (env s') = allocs (env s) \<or>
        allocs (env s') = allocs (env s) + 1 \<and> fd = - 1 \<and>
          (\<exists>t e. err_out s' = t @ ''open_listenfd close failed: '' @ strerror lc e @ [newline])))"
proof -
  obtain rc l s1 where 1: "k_getaddrinfo k None port listen_hints s = ((rc, l), s1)" by (metis prod.exhaust)
  note l1 = kernel_okD(7) [OF assms 1]
  obtain w s2 where 2: "listen_walk lc k l s1 = (Ret w, s2)"
    "walked lc ''open_listenfd close failed: '' socks allocs Bound l s1 w s2"
    using listen_walk_ends [OF assms] by blast
  obtain u s3 where 3: "k_freeaddrinfo k l s2 = (u, s3)" by (rule prod.exhaust)
  note l3 = kernel_okD(8) [OF assms 3]
  show ?thesis
  proof (cases "rc = 0 \<and> (\<exists>fd. w = Found fd)")
    case False
    with 1 2 3 l1 l3 show ?thesis unfolding open_listenfd_def
      by (cases w; cases "rc = 0") (simp_all add: run_simps walked_def)
  next
    case True
    then obtain fd where w: "w = Found fd" "rc = 0" by blast
    then obtain p where p: "p \<in> set l" "socks (env s3) = (socks (env s))(fd \<mapsto> Bound (ai_addr p))"
        "0 \<le> fd" "socks (env s) fd = None" "allocs (env s3) = allocs (env s)"
      using 2(2) l1 l3 by (auto simp: walked_def)
    obtain rl s4 where 4: "k_listen k fd LISTENQ s3 = (rl, s4)" by (rule prod.exhaust)
    obtain rx s5 where 5: "k_close k fd s4 = (rx, s5)" by (rule prod.exhaust)
    have l4: "allocs (env s4) = allocs (env s)" "socks (env s4) =
        (if rl < 0 then (socks (env s))(fd \<mapsto> Bound (ai_addr p)) else (socks (env s))(fd \<mapsto> Listening (ai_addr p)))"
      using kernel_okD(5) [OF assms 4, of "ai_addr p"] p by auto
    have "rl < 0 \<Longrightarrow> socks (env s5) = socks (env s)" "allocs (env s5) = allocs (env s)"
      using kernel_okD(6) [OF assms 5] l4 p(4) by (auto simp: fun_upd_idem)
    with 1 2(1) 3 4 5 w p l4 show ?thesis
      unfolding open_listenfd_def by (cases "rl < 0") (auto simp: run_simps)
  qed
qed

section \<open>An example\<close>

text \<open>
  A small system that keeps its promises: one free descriptor, 3, two addresses for every name,
  of which the first is down.
\<close>

type_synonym demo = "(int \<rightharpoonup> sock) \<times> nat"

definition demo_address :: "string \<Rightarrow> addrinfo" where
  "demo_address a = \<lparr>ai_family = 2, ai_socktype = 1, ai_protocol = 6, ai_addr = a, ai_addrlen = 16\<rparr>"

definition demo_set :: "int \<Rightarrow> sock option \<Rightarrow> demo proc \<Rightarrow> demo proc" where
  "demo_set fd x s = s\<lparr>env := ((fst (env s))(fd := x), snd (env s))\<rparr>"

definition demo_try :: "(sockaddr \<Rightarrow> sock) \<Rightarrow> int \<Rightarrow> sockaddr \<Rightarrow> nat \<Rightarrow> (demo, int) syscall" where
  "demo_try made fd a n s = (if a = ''down'' then (- 1, demo_set fd (Some Fresh) s) else (0, demo_set fd (Some (made a)) s))"

definition demo_kernel :: "demo kernel" where
  "demo_kernel =
     \<lparr>k_getaddrinfo = (\<lambda>h p hints s.
        ((0, [demo_address ''down'', demo_address ''up'']), s\<lparr>env := (fst (env s), snd (env s) + 1)\<rparr>)),
      k_freeaddrinfo = (\<lambda>l s. ((), s\<lparr>env := (fst (env s), snd (env s) - 1)\<rparr>)),
      k_socket = (\<lambda>f t p s. if fst (env s) 3 = None then (3, demo_set 3 (Some Fresh) s) else (- 1, s)),
      k_connect = demo_try Connected,
      k_reuseaddr = (\<lambda>fd s. (0, s)),
      k_bind = demo_try Bound,
      k_listen = (\<lambda>fd n s. case fst (env s) fd of Some (Bound a) \<Rightarrow> (0, demo_set fd (Some (Listening a)) s) | _ \<Rightarrow> (- 1, s)),
      k_close = (\<lambda>fd s. (0, demo_set fd None s))\<rparr>"

definition demo_libc :: libc where
  "demo_libc = \<lparr>strerror = (\<lambda>_. ''error''), gai_strerror = (\<lambda>_. ''error'')\<rparr>"

definition demo_start :: "demo proc" where
  "demo_start = \<lparr>env = (Map.empty, 0), errno = 0, err_out = []\<rparr>"

lemma demo_kernel_ok: "kernel_ok demo_kernel fst snd"
  by (auto simp: kernel_ok_def demo_kernel_def demo_set_def demo_try_def split: if_splits)

theorem open_clientfd_ends_witness:
  "\<exists>s'. open_clientfd demo_libc demo_kernel ''localhost'' ''5000'' demo_start = (Ret 3, s') \<and>
     snd (env s') = 0 \<and> (\<exists>a. fst (env s') = [3 \<mapsto> Connected a])"
proof -
  have "fst (open_clientfd demo_libc demo_kernel ''localhost'' ''5000'' demo_start) = Ret 3" by code_simp
  with open_clientfd_ends [OF demo_kernel_ok, of demo_libc "''localhost''" "''5000''" demo_start]
  show ?thesis by (auto simp: demo_start_def)
qed

theorem open_listenfd_ends_witness:
  "\<exists>s'. open_listenfd demo_libc demo_kernel ''5000'' demo_start = (Ret 3, s') \<and>
     snd (env s') = 0 \<and> (\<exists>a. fst (env s') = [3 \<mapsto> Listening a])"
proof -
  have "fst (open_listenfd demo_libc demo_kernel ''5000'' demo_start) = Ret 3" by code_simp
  with open_listenfd_ends [OF demo_kernel_ok, of demo_libc "''5000''" demo_start]
  show ?thesis by (auto simp: demo_start_def)
qed

end
