(* ===== verification/Csapp_Wrappers.thy ===== *)
theory Csapp_Wrappers
  imports Sockets Rio
begin

text \<open>
  The error-checking wrappers of \<open>csapp.c\<close>. Each calls one function of the C library or
  of this package and, when that reports an error, one of the error functions, which end the
  process. The wrapped function is a parameter with the arguments of the call; what it stores
  behind a pointer is a component of its result.
\<close>

section \<open>Checked calls\<close>

definition checked :: "('r \<Rightarrow> bool) \<Rightarrow> ('r \<Rightarrow> ('e, unit) pcmd) \<Rightarrow> ('e, 'r) syscall \<Rightarrow> ('e, 'r) pcmd" where
  "checked failed report f =
     bind_cmd (call f) (\<lambda>r. seq_cmd (when_cmd (failed r) (report r)) (ret r))"

definition checked_void :: "('r \<Rightarrow> bool) \<Rightarrow> ('r \<Rightarrow> ('e, unit) pcmd) \<Rightarrow> ('e, 'r) syscall \<Rightarrow> ('e, unit) pcmd" where
  "checked_void failed report f = bind_cmd (call f) (\<lambda>r. when_cmd (failed r) (report r))"

text \<open>A call that also stores a value behind a pointer, in a wrapper that returns nothing.\<close>

definition checked_out ::
  "(int \<Rightarrow> bool) \<Rightarrow> (int \<Rightarrow> ('e, unit) pcmd) \<Rightarrow> ('e, int \<times> 'x) syscall \<Rightarrow> ('e, 'x) pcmd" where
  "checked_out failed report f =
     bind_cmd (call f) (\<lambda>(rc, x). seq_cmd (when_cmd (failed rc) (report rc)) (ret x))"

section \<open>The wrappers\<close>

subsection \<open>Process control\<close>

definition Fork :: "libc \<Rightarrow> ('e, int) syscall \<Rightarrow> ('e, int) pcmd" where
  "Fork lc fork = checked (\<lambda>rc. rc < 0) (\<lambda>_. unix_error lc ''Fork error'') fork"

definition Execve ::
  "libc \<Rightarrow> (string \<Rightarrow> string list \<Rightarrow> string list \<Rightarrow> ('e, int) syscall) \<Rightarrow>
   string \<Rightarrow> string list \<Rightarrow> string list \<Rightarrow> ('e, unit) pcmd" where
  "Execve lc execve filename argv envp =
     checked_void (\<lambda>rc. rc < 0) (\<lambda>_. unix_error lc ''Execve error'') (execve filename argv envp)"

text \<open>\<open>wait\<close> and \<open>waitpid\<close> also store the status behind a pointer: the second component.\<close>

definition Wait :: "libc \<Rightarrow> ('e, int \<times> int) syscall \<Rightarrow> ('e, int \<times> int) pcmd" where
  "Wait lc wait = checked (\<lambda>(rc, x). rc < 0) (\<lambda>_. unix_error lc ''Wait error'') wait"

definition Waitpid ::
  "libc \<Rightarrow> (int \<Rightarrow> int \<Rightarrow> ('e, int \<times> int) syscall) \<Rightarrow>
   int \<Rightarrow> int \<Rightarrow> ('e, int \<times> int) pcmd" where
  "Waitpid lc waitpid pid options =
     checked (\<lambda>(rc, x). rc < 0) (\<lambda>_. unix_error lc ''Waitpid error'') (waitpid pid options)"

definition Kill ::
  "libc \<Rightarrow> (int \<Rightarrow> int \<Rightarrow> ('e, int) syscall) \<Rightarrow> int \<Rightarrow> int \<Rightarrow> ('e, unit) pcmd" where
  "Kill lc kill pid signum =
     checked_void (\<lambda>rc. rc < 0) (\<lambda>_. unix_error lc ''Kill error'') (kill pid signum)"

definition Pause :: "('e, int) syscall \<Rightarrow> ('e, unit) pcmd" where
  "Pause pause = bind_cmd (call pause) (\<lambda>_. ret ())"

text \<open>The loop of \<open>Sleep\<close>, for at most \<open>fuel\<close> calls of \<open>sleep\<close>; \<open>None\<close> when they were not enough.\<close>

primrec Sleep :: "nat \<Rightarrow> (nat \<Rightarrow> ('e, nat) syscall) \<Rightarrow> nat \<Rightarrow> 'e proc \<Rightarrow> (nat \<times> 'e proc) option" where
  "Sleep 0 sleep secs s = None"
| "Sleep (Suc fuel) sleep secs s =
     (case sleep secs s of (rc, s') \<Rightarrow> if rc \<noteq> 0 then Sleep fuel sleep rc s' else Some (rc, s'))"

definition Alarm :: "(nat \<Rightarrow> ('e, nat) syscall) \<Rightarrow> nat \<Rightarrow> ('e, nat) pcmd" where
  "Alarm alarm seconds = call (alarm seconds)"

definition Setpgid ::
  "libc \<Rightarrow> (int \<Rightarrow> int \<Rightarrow> ('e, int) syscall) \<Rightarrow> int \<Rightarrow> int \<Rightarrow> ('e, unit) pcmd" where
  "Setpgid lc setpgid pid pgid =
     checked_void (\<lambda>rc. rc < 0) (\<lambda>_. unix_error lc ''Setpgid error'') (setpgid pid pgid)"

definition Getpgrp :: "('e, int) syscall \<Rightarrow> ('e, int) pcmd" where
  "Getpgrp getpgrp = call getpgrp"

subsection \<open>Signals\<close>

text \<open>A handler is any value; the action has an empty mask and the flag \<open>SA_RESTART\<close>. The old action's handler is the second component.\<close>

datatype sa_flag = SA_RESTART

record 'h sigaction =
  sa_handler :: 'h
  sa_mask :: "int set"
  sa_flags :: "sa_flag set"

definition Signal :: "libc \<Rightarrow> (int \<Rightarrow> 'h sigaction \<Rightarrow> ('e, int \<times> 'h sigaction) syscall) \<Rightarrow> int \<Rightarrow> 'h \<Rightarrow> ('e, 'h) pcmd" where
  "Signal lc sigaction signum handler =
     (let action = \<lparr>sa_handler = handler, sa_mask = {}, sa_flags = {SA_RESTART}\<rparr> in
      bind_cmd (call (sigaction signum action)) (\<lambda>(rc, old_action).
      seq_cmd (when_cmd (rc < 0) (unix_error lc ''Signal error'')) (ret (sa_handler old_action))))"

text \<open>The functions on signal sets give the new set back beside the result.\<close>

definition Sigprocmask ::
  "libc \<Rightarrow> (int \<Rightarrow> int set option \<Rightarrow> ('e, int \<times> int set) syscall) \<Rightarrow>
   int \<Rightarrow> int set option \<Rightarrow> ('e, int set) pcmd" where
  "Sigprocmask lc sigprocmask how set_arg =
     checked_out (\<lambda>rc. rc < 0) (\<lambda>_. unix_error lc ''Sigprocmask error'') (sigprocmask how set_arg)"

definition Sigemptyset ::
  "libc \<Rightarrow> ('e, int \<times> int set) syscall \<Rightarrow> ('e, int set) pcmd" where
  "Sigemptyset lc sigemptyset =
     checked_out (\<lambda>rc. rc < 0) (\<lambda>_. unix_error lc ''Sigemptyset error'') sigemptyset"

definition Sigfillset ::
  "libc \<Rightarrow> ('e, int \<times> int set) syscall \<Rightarrow> ('e, int set) pcmd" where
  "Sigfillset lc sigfillset =
     checked_out (\<lambda>rc. rc < 0) (\<lambda>_. unix_error lc ''Sigfillset error'') sigfillset"

definition Sigaddset ::
  "libc \<Rightarrow> (int set \<Rightarrow> int \<Rightarrow> ('e, int \<times> int set) syscall) \<Rightarrow>
   int set \<Rightarrow> int \<Rightarrow> ('e, int set) pcmd" where
  "Sigaddset lc sigaddset set_arg signum =
     checked_out (\<lambda>rc. rc < 0) (\<lambda>_. unix_error lc ''Sigaddset error'') (sigaddset set_arg signum)"

definition Sigdelset ::
  "libc \<Rightarrow> (int set \<Rightarrow> int \<Rightarrow> ('e, int \<times> int set) syscall) \<Rightarrow>
   int set \<Rightarrow> int \<Rightarrow> ('e, int set) pcmd" where
  "Sigdelset lc sigdelset set_arg signum =
     checked_out (\<lambda>rc. rc < 0) (\<lambda>_. unix_error lc ''Sigdelset error'') (sigdelset set_arg signum)"

definition Sigismember ::
  "libc \<Rightarrow> (int set \<Rightarrow> int \<Rightarrow> ('e, int) syscall) \<Rightarrow> int set \<Rightarrow> int \<Rightarrow> ('e, int) pcmd" where
  "Sigismember lc sigismember set_arg signum =
     checked (\<lambda>rc. rc < 0) (\<lambda>_. unix_error lc ''Sigismember error'') (sigismember set_arg signum)"

definition Sigsuspend :: "libc \<Rightarrow> int \<Rightarrow> (int set \<Rightarrow> ('e, int) syscall) \<Rightarrow> int set \<Rightarrow> ('e, int) pcmd" where
  "Sigsuspend lc EINTR sigsuspend set_arg =
     bind_cmd (call (sigsuspend set_arg)) (\<lambda>rc.
     bind_cmd (gets errno) (\<lambda>e.
     seq_cmd (when_cmd (e \<noteq> EINTR) (unix_error lc ''Sigsuspend error'')) (ret rc)))"

subsection \<open>Unix input and output\<close>

definition Open ::
  "libc \<Rightarrow> (string \<Rightarrow> int \<Rightarrow> int \<Rightarrow> ('e, int) syscall) \<Rightarrow>
   string \<Rightarrow> int \<Rightarrow> int \<Rightarrow> ('e, int) pcmd" where
  "Open lc open_call pathname flags mode =
     checked (\<lambda>rc. rc < 0) (\<lambda>_. unix_error lc ''Open error'') (open_call pathname flags mode)"

text \<open>\<open>read\<close> gives the bytes it stored in the buffer as second component.\<close>

definition Read ::
  "libc \<Rightarrow> (int \<Rightarrow> nat \<Rightarrow> ('e, int \<times> string) syscall) \<Rightarrow>
   int \<Rightarrow> nat \<Rightarrow> ('e, int \<times> string) pcmd" where
  "Read lc read fd count =
     checked (\<lambda>(rc, x). rc < 0) (\<lambda>_. unix_error lc ''Read error'') (read fd count)"

definition Write ::
  "libc \<Rightarrow> (int \<Rightarrow> string \<Rightarrow> ('e, int) syscall) \<Rightarrow> int \<Rightarrow> string \<Rightarrow> ('e, int) pcmd" where
  "Write lc write fd buf = checked (\<lambda>rc. rc < 0) (\<lambda>_. unix_error lc ''Write error'') (write fd buf)"

definition Lseek ::
  "libc \<Rightarrow> (int \<Rightarrow> int \<Rightarrow> int \<Rightarrow> ('e, int) syscall) \<Rightarrow>
   int \<Rightarrow> int \<Rightarrow> int \<Rightarrow> ('e, int) pcmd" where
  "Lseek lc lseek fildes offset whence =
     checked (\<lambda>rc. rc < 0) (\<lambda>_. unix_error lc ''Lseek error'') (lseek fildes offset whence)"

definition Close ::
  "libc \<Rightarrow> (int \<Rightarrow> ('e, int) syscall) \<Rightarrow> int \<Rightarrow> ('e, unit) pcmd" where
  "Close lc close fd = checked_void (\<lambda>rc. rc < 0) (\<lambda>_. unix_error lc ''Close error'') (close fd)"

text \<open>\<open>select\<close> updates its three sets.\<close>

definition Select ::
  "libc \<Rightarrow> (int \<Rightarrow> int set \<Rightarrow> int set \<Rightarrow> int set \<Rightarrow> nat option \<Rightarrow> ('e, int \<times> int set \<times> int set \<times> int set) syscall) \<Rightarrow>
   int \<Rightarrow> int set \<Rightarrow> int set \<Rightarrow> int set \<Rightarrow> nat option \<Rightarrow> ('e, int \<times> int set \<times> int set \<times> int set) pcmd" where
  "Select lc select n readfds writefds exceptfds timeout =
     checked (\<lambda>(rc, x). rc < 0) (\<lambda>_. unix_error lc ''Select error'') (select n readfds writefds exceptfds timeout)"

definition Dup2 ::
  "libc \<Rightarrow> (int \<Rightarrow> int \<Rightarrow> ('e, int) syscall) \<Rightarrow> int \<Rightarrow> int \<Rightarrow> ('e, int) pcmd" where
  "Dup2 lc dup2 fd1 fd2 = checked (\<lambda>rc. rc < 0) (\<lambda>_. unix_error lc ''Dup2 error'') (dup2 fd1 fd2)"

text \<open>A \<open>struct stat\<close> is any value.\<close>

definition Stat ::
  "libc \<Rightarrow> (string \<Rightarrow> ('e, int \<times> 'st) syscall) \<Rightarrow> string \<Rightarrow> ('e, 'st) pcmd" where
  "Stat lc stat filename =
     checked_out (\<lambda>rc. rc < 0) (\<lambda>_. unix_error lc ''Stat error'') (stat filename)"

definition Fstat ::
  "libc \<Rightarrow> (int \<Rightarrow> ('e, int \<times> 'st) syscall) \<Rightarrow> int \<Rightarrow> ('e, 'st) pcmd" where
  "Fstat lc fstat fd = checked_out (\<lambda>rc. rc < 0) (\<lambda>_. unix_error lc ''Fstat error'') (fstat fd)"

subsection \<open>Directories\<close>

text \<open>Pointers are options, \<open>None\<close> the null pointer.\<close>

definition Opendir ::
  "libc \<Rightarrow> (string \<Rightarrow> ('e, 'dir option) syscall) \<Rightarrow> string \<Rightarrow> ('e, 'dir option) pcmd" where
  "Opendir lc opendir name =
     checked (\<lambda>p. p = None) (\<lambda>_. unix_error lc ''opendir error'') (opendir name)"

definition Readdir :: "libc \<Rightarrow> ('dir \<Rightarrow> ('e, 'ent option) syscall) \<Rightarrow> 'dir \<Rightarrow> ('e, 'ent option) pcmd" where
  "Readdir lc readdir dirp =
     seq_cmd (modify (\<lambda>s. s\<lparr>errno := 0\<rparr>))
    (bind_cmd (call (readdir dirp)) (\<lambda>dep.
     bind_cmd (gets errno) (\<lambda>e.
     seq_cmd (when_cmd (dep = None \<and> e \<noteq> 0) (unix_error lc ''readdir error'')) (ret dep))))"

definition Closedir ::
  "libc \<Rightarrow> ('dir \<Rightarrow> ('e, int) syscall) \<Rightarrow> 'dir \<Rightarrow> ('e, int) pcmd" where
  "Closedir lc closedir dirp =
     checked (\<lambda>rc. rc < 0) (\<lambda>_. unix_error lc ''closedir error'') (closedir dirp)"

subsection \<open>Memory\<close>

text \<open>\<open>mmap\<close> reports an error by the address -1.\<close>

definition Mmap ::
  "libc \<Rightarrow> (int \<Rightarrow> nat \<Rightarrow> int \<Rightarrow> int \<Rightarrow> int \<Rightarrow> int \<Rightarrow> ('e, int) syscall) \<Rightarrow>
   int \<Rightarrow> nat \<Rightarrow> int \<Rightarrow> int \<Rightarrow> int \<Rightarrow> int \<Rightarrow> ('e, int) pcmd" where
  "Mmap lc mmap addr len prot flags fd offset =
     checked (\<lambda>ptr. ptr = - 1) (\<lambda>_. unix_error lc ''mmap error'') (mmap addr len prot flags fd offset)"

definition Munmap ::
  "libc \<Rightarrow> (int \<Rightarrow> nat \<Rightarrow> ('e, int) syscall) \<Rightarrow> int \<Rightarrow> nat \<Rightarrow> ('e, unit) pcmd" where
  "Munmap lc munmap start len =
     checked_void (\<lambda>rc. rc < 0) (\<lambda>_. unix_error lc ''munmap error'') (munmap start len)"

definition Malloc ::
  "libc \<Rightarrow> (nat \<Rightarrow> ('e, 'ptr option) syscall) \<Rightarrow> nat \<Rightarrow> ('e, 'ptr option) pcmd" where
  "Malloc lc malloc sz = checked (\<lambda>p. p = None) (\<lambda>_. unix_error lc ''Malloc error'') (malloc sz)"

definition Realloc ::
  "libc \<Rightarrow> ('ptr option \<Rightarrow> nat \<Rightarrow> ('e, 'ptr option) syscall) \<Rightarrow>
   'ptr option \<Rightarrow> nat \<Rightarrow> ('e, 'ptr option) pcmd" where
  "Realloc lc realloc ptr sz =
     checked (\<lambda>p. p = None) (\<lambda>_. unix_error lc ''Realloc error'') (realloc ptr sz)"

definition Calloc ::
  "libc \<Rightarrow> (nat \<Rightarrow> nat \<Rightarrow> ('e, 'ptr option) syscall) \<Rightarrow>
   nat \<Rightarrow> nat \<Rightarrow> ('e, 'ptr option) pcmd" where
  "Calloc lc calloc nmemb sz =
     checked (\<lambda>p. p = None) (\<lambda>_. unix_error lc ''Calloc error'') (calloc nmemb sz)"

definition Free ::
  "('ptr option \<Rightarrow> ('e, unit) syscall) \<Rightarrow> 'ptr option \<Rightarrow> ('e, unit) pcmd" where
  "Free free ptr = call (free ptr)"

subsection \<open>Standard input and output\<close>

definition Fclose ::
  "libc \<Rightarrow> ('file \<Rightarrow> ('e, int) syscall) \<Rightarrow> 'file \<Rightarrow> ('e, unit) pcmd" where
  "Fclose lc fclose fp =
     checked_void (\<lambda>rc. rc \<noteq> 0) (\<lambda>_. unix_error lc ''Fclose error'') (fclose fp)"

definition Fdopen ::
  "libc \<Rightarrow> (int \<Rightarrow> string \<Rightarrow> ('e, 'file option) syscall) \<Rightarrow>
   int \<Rightarrow> string \<Rightarrow> ('e, 'file option) pcmd" where
  "Fdopen lc fdopen fd mode =
     checked (\<lambda>p. p = None) (\<lambda>_. unix_error lc ''Fdopen error'') (fdopen fd mode)"

definition Fgets ::
  "(int \<Rightarrow> 'file \<Rightarrow> ('e, string option) syscall) \<Rightarrow> ('file \<Rightarrow> ('e, bool) syscall) \<Rightarrow> int \<Rightarrow> 'file \<Rightarrow> ('e, string option) pcmd" where
  "Fgets fgets ferror n stream =
     bind_cmd (call (fgets n stream)) (\<lambda>rptr.
     seq_cmd (if rptr = None then bind_cmd (call (ferror stream)) (\<lambda>b. when_cmd b (app_error ''Fgets error'')) else ret ())
     (ret rptr))"

definition Fopen ::
  "libc \<Rightarrow> (string \<Rightarrow> string \<Rightarrow> ('e, 'file option) syscall) \<Rightarrow>
   string \<Rightarrow> string \<Rightarrow> ('e, 'file option) pcmd" where
  "Fopen lc fopen filename mode =
     checked (\<lambda>p. p = None) (\<lambda>_. unix_error lc ''Fopen error'') (fopen filename mode)"

text \<open>\<open>EOF\<close> is -1.\<close>

definition Fputs ::
  "libc \<Rightarrow> (string \<Rightarrow> 'file \<Rightarrow> ('e, int) syscall) \<Rightarrow> string \<Rightarrow> 'file \<Rightarrow> ('e, unit) pcmd" where
  "Fputs lc fputs ptr stream =
     checked_void (\<lambda>rc. rc = - 1) (\<lambda>_. unix_error lc ''Fputs error'') (fputs ptr stream)"

definition Fread ::
  "libc \<Rightarrow> (nat \<Rightarrow> nat \<Rightarrow> 'file \<Rightarrow> ('e, nat \<times> string) syscall) \<Rightarrow> ('file \<Rightarrow> ('e, bool) syscall) \<Rightarrow>
   nat \<Rightarrow> nat \<Rightarrow> 'file \<Rightarrow> ('e, nat \<times> string) pcmd" where
  "Fread lc fread ferror sz nmemb stream =
     bind_cmd (call (fread sz nmemb stream)) (\<lambda>(n, bytes).
     seq_cmd (if n < nmemb then bind_cmd (call (ferror stream)) (\<lambda>b. when_cmd b (unix_error lc ''Fread error'')) else ret ())
     (ret (n, bytes)))"

definition Fwrite ::
  "libc \<Rightarrow> (string \<Rightarrow> nat \<Rightarrow> nat \<Rightarrow> 'file \<Rightarrow> ('e, nat) syscall) \<Rightarrow> string \<Rightarrow> nat \<Rightarrow> nat \<Rightarrow> 'file \<Rightarrow> ('e, unit) pcmd" where
  "Fwrite lc fwrite ptr sz nmemb stream =
     checked_void (\<lambda>n. n < nmemb) (\<lambda>_. unix_error lc ''Fwrite error'') (fwrite ptr sz nmemb stream)"

subsection \<open>Sockets and names\<close>

definition Socket ::
  "libc \<Rightarrow> (int \<Rightarrow> int \<Rightarrow> int \<Rightarrow> ('e, int) syscall) \<Rightarrow>
   int \<Rightarrow> int \<Rightarrow> int \<Rightarrow> ('e, int) pcmd" where
  "Socket lc socket domain ty protocol =
     checked (\<lambda>rc. rc < 0) (\<lambda>_. unix_error lc ''Socket error'') (socket domain ty protocol)"

definition Setsockopt ::
  "libc \<Rightarrow> (int \<Rightarrow> int \<Rightarrow> int \<Rightarrow> string \<Rightarrow> ('e, int) syscall) \<Rightarrow>
   int \<Rightarrow> int \<Rightarrow> int \<Rightarrow> string \<Rightarrow> ('e, unit) pcmd" where
  "Setsockopt lc setsockopt s level optname optval =
     checked_void (\<lambda>rc. rc < 0) (\<lambda>_. unix_error lc ''Setsockopt error'') (setsockopt s level optname optval)"

definition Bind ::
  "libc \<Rightarrow> (int \<Rightarrow> sockaddr \<Rightarrow> int \<Rightarrow> ('e, int) syscall) \<Rightarrow>
   int \<Rightarrow> sockaddr \<Rightarrow> int \<Rightarrow> ('e, unit) pcmd" where
  "Bind lc bind sockfd my_addr addrlen =
     checked_void (\<lambda>rc. rc < 0) (\<lambda>_. unix_error lc ''Bind error'') (bind sockfd my_addr addrlen)"

definition Listen ::
  "libc \<Rightarrow> (int \<Rightarrow> int \<Rightarrow> ('e, int) syscall) \<Rightarrow> int \<Rightarrow> int \<Rightarrow> ('e, unit) pcmd" where
  "Listen lc listen s backlog =
     checked_void (\<lambda>rc. rc < 0) (\<lambda>_. unix_error lc ''Listen error'') (listen s backlog)"

definition Accept ::
  "libc \<Rightarrow> (int \<Rightarrow> ('e, int \<times> sockaddr) syscall) \<Rightarrow> int \<Rightarrow> ('e, int \<times> sockaddr) pcmd" where
  "Accept lc accept_call s =
     checked (\<lambda>(rc, x). rc < 0) (\<lambda>_. unix_error lc ''Accept error'') (accept_call s)"

definition Connect ::
  "libc \<Rightarrow> (int \<Rightarrow> sockaddr \<Rightarrow> int \<Rightarrow> ('e, int) syscall) \<Rightarrow>
   int \<Rightarrow> sockaddr \<Rightarrow> int \<Rightarrow> ('e, unit) pcmd" where
  "Connect lc connect sockfd serv_addr addrlen =
     checked_void (\<lambda>rc. rc < 0) (\<lambda>_. unix_error lc ''Connect error'') (connect sockfd serv_addr addrlen)"

definition Getaddrinfo ::
  "libc \<Rightarrow> (string option \<Rightarrow> string \<Rightarrow> gai_hints \<Rightarrow> ('e, int \<times> addrinfo list) syscall) \<Rightarrow>
   string option \<Rightarrow> string \<Rightarrow> gai_hints \<Rightarrow> ('e, addrinfo list) pcmd" where
  "Getaddrinfo lc getaddrinfo node service hints =
     checked_out (\<lambda>rc. rc \<noteq> 0) (\<lambda>rc. gai_error lc rc ''Getaddrinfo error'') (getaddrinfo node service hints)"

definition Getnameinfo ::
  "libc \<Rightarrow> (sockaddr \<Rightarrow> int \<Rightarrow> ('e, int \<times> (string \<times> string)) syscall) \<Rightarrow>
   sockaddr \<Rightarrow> int \<Rightarrow> ('e, (string \<times> string)) pcmd" where
  "Getnameinfo lc getnameinfo sa flags =
     checked_out (\<lambda>rc. rc \<noteq> 0) (\<lambda>rc. gai_error lc rc ''Getnameinfo error'') (getnameinfo sa flags)"

definition Freeaddrinfo ::
  "(addrinfo list \<Rightarrow> ('e, unit) syscall) \<Rightarrow> addrinfo list \<Rightarrow> ('e, unit) pcmd" where
  "Freeaddrinfo freeaddrinfo res = call (freeaddrinfo res)"

definition Inet_ntop ::
  "libc \<Rightarrow> (int \<Rightarrow> string \<Rightarrow> ('e, string option) syscall) \<Rightarrow>
   int \<Rightarrow> string \<Rightarrow> ('e, string option) pcmd" where
  "Inet_ntop lc inet_ntop af src =
     checked (\<lambda>p. p = None) (\<lambda>_. unix_error lc ''Inet_ntop error'') (inet_ntop af src)"

definition Inet_pton :: "libc \<Rightarrow> (int \<Rightarrow> string \<Rightarrow> ('e, int \<times> string) syscall) \<Rightarrow> int \<Rightarrow> string \<Rightarrow> ('e, string) pcmd" where
  "Inet_pton lc inet_pton af src =
     bind_cmd (call (inet_pton af src)) (\<lambda>(rc, dst).
     seq_cmd
       (if rc = 0 then app_error ''inet_pton error: invalid dotted-decimal address''
        else when_cmd (rc < 0) (unix_error lc ''Inet_pton error''))
       (ret dst))"

definition Gethostbyname ::
  "(string \<Rightarrow> ('e, 'host option) syscall) \<Rightarrow> string \<Rightarrow> ('e, 'host option) pcmd" where
  "Gethostbyname gethostbyname name =
     checked (\<lambda>p. p = None) (\<lambda>_. dns_error ''Gethostbyname error'') (gethostbyname name)"

definition Gethostbyaddr ::
  "(string \<Rightarrow> int \<Rightarrow> ('e, 'host option) syscall) \<Rightarrow> string \<Rightarrow> int \<Rightarrow> ('e, 'host option) pcmd" where
  "Gethostbyaddr gethostbyaddr addr ty =
     checked (\<lambda>p. p = None) (\<lambda>_. dns_error ''Gethostbyaddr error'') (gethostbyaddr addr ty)"

subsection \<open>Threads and semaphores\<close>

text \<open>\<open>pthread_create\<close> and \<open>pthread_join\<close> give the thread and its result as second component.\<close>

definition Pthread_create ::
  "libc \<Rightarrow> ('attr \<Rightarrow> 'routine \<Rightarrow> 'arg \<Rightarrow> ('e, int \<times> 'tid) syscall) \<Rightarrow>
   'attr \<Rightarrow> 'routine \<Rightarrow> 'arg \<Rightarrow> ('e, 'tid) pcmd" where
  "Pthread_create lc pthread_create attrp routine argp =
     checked_out (\<lambda>rc. rc \<noteq> 0) (\<lambda>rc. posix_error lc rc ''Pthread_create error'') (pthread_create attrp routine argp)"

definition Pthread_cancel ::
  "libc \<Rightarrow> ('tid \<Rightarrow> ('e, int) syscall) \<Rightarrow> 'tid \<Rightarrow> ('e, unit) pcmd" where
  "Pthread_cancel lc pthread_cancel tid =
     checked_void (\<lambda>rc. rc \<noteq> 0) (\<lambda>rc. posix_error lc rc ''Pthread_cancel error'') (pthread_cancel tid)"

definition Pthread_join ::
  "libc \<Rightarrow> ('tid \<Rightarrow> ('e, int \<times> 'ret) syscall) \<Rightarrow> 'tid \<Rightarrow> ('e, 'ret) pcmd" where
  "Pthread_join lc pthread_join tid =
     checked_out (\<lambda>rc. rc \<noteq> 0) (\<lambda>rc. posix_error lc rc ''Pthread_join error'') (pthread_join tid)"

definition Pthread_detach ::
  "libc \<Rightarrow> ('tid \<Rightarrow> ('e, int) syscall) \<Rightarrow> 'tid \<Rightarrow> ('e, unit) pcmd" where
  "Pthread_detach lc pthread_detach tid =
     checked_void (\<lambda>rc. rc \<noteq> 0) (\<lambda>rc. posix_error lc rc ''Pthread_detach error'') (pthread_detach tid)"

definition Pthread_exit ::
  "('ret \<Rightarrow> ('e, unit) syscall) \<Rightarrow> 'ret \<Rightarrow> ('e, unit) pcmd" where
  "Pthread_exit pthread_exit retval = call (pthread_exit retval)"

definition Pthread_self :: "('e, 'tid) syscall \<Rightarrow> ('e, 'tid) pcmd" where
  "Pthread_self pthread_self = call pthread_self"

definition Pthread_once ::
  "('once \<Rightarrow> 'routine \<Rightarrow> ('e, int) syscall) \<Rightarrow> 'once \<Rightarrow> 'routine \<Rightarrow> ('e, unit) pcmd" where
  "Pthread_once pthread_once once_control init_function =
     bind_cmd (call (pthread_once once_control init_function)) (\<lambda>_. ret ())"

definition Sem_init ::
  "libc \<Rightarrow> ('sem \<Rightarrow> int \<Rightarrow> nat \<Rightarrow> ('e, int) syscall) \<Rightarrow>
   'sem \<Rightarrow> int \<Rightarrow> nat \<Rightarrow> ('e, unit) pcmd" where
  "Sem_init lc sem_init sem pshared val =
     checked_void (\<lambda>rc. rc < 0) (\<lambda>_. unix_error lc ''Sem_init error'') (sem_init sem pshared val)"

definition P ::
  "libc \<Rightarrow> ('sem \<Rightarrow> ('e, int) syscall) \<Rightarrow> 'sem \<Rightarrow> ('e, unit) pcmd" where
  "P lc sem_wait sem = checked_void (\<lambda>rc. rc < 0) (\<lambda>_. unix_error lc ''P error'') (sem_wait sem)"

definition V ::
  "libc \<Rightarrow> ('sem \<Rightarrow> ('e, int) syscall) \<Rightarrow> 'sem \<Rightarrow> ('e, unit) pcmd" where
  "V lc sem_post sem = checked_void (\<lambda>rc. rc < 0) (\<lambda>_. unix_error lc ''V error'') (sem_post sem)"

subsection \<open>Robust input and output\<close>

text \<open>The environment is the next input of the descriptor for the reading functions, and the bytes sent with the next answers of \<open>write\<close> for \<open>Rio_writen\<close>.\<close>

definition Rio_readn :: "libc \<Rightarrow> nat \<Rightarrow> (read_event list, int \<times> string) pcmd" where
  "Rio_readn lc nbytes =
     checked (\<lambda>(n, bytes). n < 0) (\<lambda>_. unix_error lc ''Rio_readn error'')
       (\<lambda>s. case rio_readn nbytes (env s) of (n, bytes, inp) \<Rightarrow> ((n, bytes), s\<lparr>env := inp\<rparr>))"

definition Rio_writen :: "libc \<Rightarrow> string \<Rightarrow> (string \<times> write_event list, unit) pcmd" where
  "Rio_writen lc usrbuf =
     checked_void (\<lambda>rc. rc \<noteq> int_of_size (length usrbuf)) (\<lambda>_. unix_error lc ''Rio_writen error'')
       (\<lambda>s. case rio_writen usrbuf (snd (env s)) of (rc, sent, out) \<Rightarrow>
          (rc, s\<lparr>env := (fst (env s) @ sent, out)\<rparr>))"

definition Rio_readinitb :: "int \<Rightarrow> rio_t \<Rightarrow> rio_t" where
  "Rio_readinitb fd rp = rio_readinitb fd rp"

definition Rio_readnb :: "libc \<Rightarrow> nat \<Rightarrow> (rio_t \<times> read_event list, int \<times> string) pcmd" where
  "Rio_readnb lc n =
     checked (\<lambda>(rc, bytes). rc < 0) (\<lambda>_. unix_error lc ''Rio_readnb error'')
       (\<lambda>s. case rio_readnb n (fst (env s)) (snd (env s)) of (rc, bytes, rp, inp) \<Rightarrow>
          ((rc, bytes), s\<lparr>env := (rp, inp)\<rparr>))"

definition Rio_readlineb :: "libc \<Rightarrow> nat \<Rightarrow> (rio_t \<times> read_event list, int \<times> string) pcmd" where
  "Rio_readlineb lc maxlen =
     checked (\<lambda>(rc, bytes). rc < 0) (\<lambda>_. unix_error lc ''Rio_readlineb error'')
       (\<lambda>s. case rio_readlineb maxlen (fst (env s)) (snd (env s)) of (rc, bytes, rp, inp) \<Rightarrow>
          ((rc, bytes), s\<lparr>env := (rp, inp)\<rparr>))"

subsection \<open>Connections\<close>

definition Open_clientfd :: "libc \<Rightarrow> 'e kernel \<Rightarrow> string \<Rightarrow> string \<Rightarrow> ('e, int) pcmd" where
  "Open_clientfd lc k hostname port =
     bind_cmd (open_clientfd lc k hostname port) (\<lambda>rc.
     seq_cmd (when_cmd (rc < 0) (unix_error lc ''Open_clientfd error'')) (ret rc))"

definition Open_listenfd :: "libc \<Rightarrow> 'e kernel \<Rightarrow> string \<Rightarrow> ('e, int) pcmd" where
  "Open_listenfd lc k port =
     bind_cmd (open_listenfd lc k port) (\<lambda>rc.
     seq_cmd (when_cmd (rc < 0) (unix_error lc ''Open_listenfd error'')) (ret rc))"

section \<open>The contract of a wrapper\<close>

text \<open>
  What a caller of a wrapper relies on: it makes the call once; when the call failed, a
  report is added to the standard error and the process ends with status 0, and otherwise
  it returns the value.
\<close>

locale checked_call =
  fixes wrapper :: "('e, 'r) syscall \<Rightarrow> ('e, 'a) pcmd" and failed :: "'r \<Rightarrow> bool"
    and result :: "'r \<Rightarrow> 'a" and report :: "'r \<Rightarrow> int \<Rightarrow> string"
  assumes runs: "f s = (r, s') \<Longrightarrow> wrapper f s =
      (if failed r then (Throw (Exit 0), s'\<lparr>err_out := err_out s' @ report r (errno s')\<rparr>) else (Ret (result r), s'))"
begin

lemma returns_iff: "(\<exists>a. fst (wrapper f s) = Ret a) \<longleftrightarrow> \<not> failed (fst (f s))"
  using runs [of f s "fst (f s)" "snd (f s)"] by simp

lemma exits_iff: "fst (wrapper f s) = Throw (Exit 0) \<longleftrightarrow> failed (fst (f s))"
  using runs [of f s "fst (f s)" "snd (f s)"] by simp

lemma keeps_env: "env (snd (wrapper f s)) = env (snd (f s))"
  using runs [of f s "fst (f s)" "snd (f s)"] by simp

end

lemma checked_call_checked:
  assumes "\<And>r s. report r s = (Throw (Exit 0), s\<lparr>err_out := err_out s @ line r (errno s)\<rparr>)"
  shows "checked_call (checked failed report) failed (\<lambda>r. r) line"
    and "checked_call (checked_void failed report) failed (\<lambda>_. ()) line"
  by unfold_locales (simp_all add: checked_def checked_void_def run_simps assms)

lemma checked_call_out:
  assumes "\<And>r s. report r s = (Throw (Exit 0), s\<lparr>err_out := err_out s @ line r (errno s)\<rparr>)"
  shows "checked_call (checked_out failed report) (\<lambda>(rc, x). failed rc) snd (\<lambda>(rc, x). line rc)"
  by unfold_locales (simp add: checked_out_def run_simps assms split: prod.splits)

lemmas checked_calls = checked_call_checked checked_call_out

interpretation fork: checked_call "\<lambda>f. Fork lc f" "\<lambda>pid. pid < 0" "\<lambda>pid. pid"
  "\<lambda>_ e. ''Fork error: '' @ strerror lc e @ [newline]" for lc
  unfolding Fork_def by (rule checked_calls) (simp add: run_simps)

interpretation opn: checked_call "\<lambda>f. Open lc (\<lambda>_ _ _. f) pathname flags mode" "\<lambda>rc. rc < 0" "\<lambda>rc. rc"
  "\<lambda>_ e. ''Open error: '' @ strerror lc e @ [newline]" for lc pathname flags mode
  unfolding Open_def by (rule checked_calls) (simp add: run_simps)

interpretation mal: checked_call "\<lambda>f. Malloc lc (\<lambda>_. f) sz" "\<lambda>p. p = None" "\<lambda>p. p"
  "\<lambda>_ e. ''Malloc error: '' @ strerror lc e @ [newline]" for lc sz
  unfolding Malloc_def by (rule checked_calls) (simp add: run_simps)

interpretation lst: checked_call "\<lambda>f. Listen lc (\<lambda>_ _. f) fd backlog" "\<lambda>rc. rc < 0" "\<lambda>_. ()"
  "\<lambda>_ e. ''Listen error: '' @ strerror lc e @ [newline]" for lc fd backlog
  unfolding Listen_def by (rule checked_calls) (simp add: run_simps)

interpretation gai: checked_call "\<lambda>f. Getaddrinfo lc (\<lambda>_ _ _. f) node service hints" "\<lambda>(rc, x). rc \<noteq> 0" snd
  "\<lambda>(rc, x) e. ''Getaddrinfo error: '' @ gai_strerror lc rc @ [newline]" for lc node service hints
proof -
  have "checked_call (\<lambda>f. Getaddrinfo lc (\<lambda>_ _ _. f) node service hints) (\<lambda>(rc, x). rc \<noteq> 0) snd
      (\<lambda>(rc, x). \<lambda>e. ''Getaddrinfo error: '' @ gai_strerror lc rc @ [newline])"
    unfolding Getaddrinfo_def by (rule checked_calls) (simp add: run_simps)
  then show "checked_call (\<lambda>f. Getaddrinfo lc (\<lambda>_ _ _. f) node service hints) (\<lambda>(rc, x). rc \<noteq> 0) snd
      (\<lambda>(rc, x) e. ''Getaddrinfo error: '' @ gai_strerror lc rc @ [newline])" .
qed

interpretation thr: checked_call "\<lambda>f. Pthread_detach lc (\<lambda>_. f) tid" "\<lambda>rc. rc \<noteq> 0" "\<lambda>_. ()"
  "\<lambda>rc _. ''Pthread_detach error: '' @ strerror lc rc @ [newline]" for lc tid
  unfolding Pthread_detach_def by (rule checked_calls) (simp add: run_simps)

section \<open>A length narrowed to an \<open>int\<close>\<close>

lemma int_of_size_large: "2 ^ 31 \<le> n \<Longrightarrow> int_of_size n \<noteq> int n"
proof
  assume n: "2 ^ 31 \<le> n" and eq: "int_of_size n = int n"
  have "int_of_size n < 2 ^ 31"
    using sint_lt [of "of_nat n :: 32 word"] by (simp add: int_of_size_def)
  with eq have "int n < 2 ^ 31" by simp
  with n show False by simp
qed

lemma int_of_size_minus_one: "int_of_size n = - 1 \<longleftrightarrow> n mod 2 ^ 32 = 2 ^ 32 - 1"
proof -
  have "int_of_size n = - 1 \<longleftrightarrow> (of_nat n :: 32 word) = - 1"
    unfolding int_of_size_def by (metis signed_minus_1 signed_word_eqI)
  also have "\<dots> \<longleftrightarrow> unat (of_nat n :: 32 word) = unat (- 1 :: 32 word)"
    by (simp only: word_unat_eq_iff)
  also have "\<dots> \<longleftrightarrow> n mod 2 ^ 32 = 2 ^ 32 - 1"
    by (simp add: unsigned_minus_1_eq_mask mask_eq_exp_minus_1 unsigned_of_nat take_bit_eq_mod)
  finally show ?thesis .
qed

section \<open>Properties\<close>

text \<open>
  \<open>Sleep\<close> sleeps the time asked for. Suppose, as \<open>sleep\<close> is documented, that a call
  for \<open>n\<close> seconds that returns \<open>rc\<close> has slept \<open>n - rc\<close> of them, and that only the
  delivery of one of the signals still to come makes it return early. Then \<open>Sleep\<close> ends after at
  most one call per such signal and one more, returns 0, and the calls have slept \<open>secs\<close>
  seconds in all.
\<close>

theorem Sleep_sleeps:
  assumes "\<And>n s. clock (env (snd (sleep n s))) + fst (sleep n s) = clock (env s) + (n :: nat)"
    and "\<And>n s. fst (sleep n s) \<noteq> 0 \<Longrightarrow> signals (env (snd (sleep n s))) < (signals (env s) :: nat)"
  shows "\<exists>s'. Sleep (Suc (signals (env s))) sleep secs s = Some (0, s') \<and> clock (env s') = clock (env s) + secs"
proof -
  have "\<exists>s'. Sleep (Suc fuel) sleep secs s = Some (0, s') \<and> clock (env s') = clock (env s) + secs"
    if "signals (env s) \<le> fuel" for fuel
    using that
  proof (induction fuel arbitrary: secs s)
    case 0
    then show ?case using assms(1) [of secs s] assms(2) [of secs s] by (cases "sleep secs s") auto
  next
    case (Suc fuel)
    obtain rc s1 where r: "sleep secs s = (rc, s1)" by (rule prod.exhaust)
    have c: "clock (env s1) + rc = clock (env s) + secs" using assms(1) [of secs s] r by simp
    show ?case
    proof (cases "rc = 0")
      case True
      with r c show ?thesis by simp
    next
      case False
      with assms(2) [of secs s] r Suc.prems have "signals (env s1) \<le> fuel" by simp
      from Suc.IH [OF this, of rc] False r c show ?thesis by (auto simp del: Sleep.simps(1))
    qed
  qed
  then show ?thesis by simp
qed

text \<open>A \<open>sleep\<close> over the clock and the signals to come, each given by the seconds before it.\<close>

fun nap :: "nat \<Rightarrow> (nat \<times> nat list, nat) syscall" where
  "nap n s = (case env s of
      (t, d # ds) \<Rightarrow> if d < n then (n - d, s\<lparr>env := (t + d, ds)\<rparr>) else (0, s\<lparr>env := (t + n, (d - n) # ds)\<rparr>)
    | (t, []) \<Rightarrow> (0, s\<lparr>env := (t + n, [])\<rparr>))"

theorem Sleep_sleeps_witness:
  "\<exists>s'. Sleep (Suc 3) nap 5 \<lparr>env = (100, [2, 0, 4]), errno = 0, err_out = []\<rparr> = Some (0, s') \<and> fst (env s') = 100 + 5"
proof -
  have "fst (env (snd (nap n s))) + fst (nap n s) = fst (env s) + n" for n s
    by (simp split: prod.splits list.splits)
  moreover have "length (snd (env (snd (nap n s)))) < length (snd (env s))" if "fst (nap n s) \<noteq> 0" for n s
    using that by (simp split: prod.splits list.splits if_splits)
  ultimately show ?thesis
    using Sleep_sleeps [of fst nap "\<lambda>e. length (snd e)" "\<lparr>env = (100, [2, 0, 4]), errno = 0, err_out = []\<rparr>" 5]
    by (simp add: numeral_3_eq_3 del: Sleep.simps nap.simps)
qed

text \<open>
  C35. \<open>Rio_writen\<close> compares the count with its length narrowed to an \<open>int\<close>. For
  fewer than 2147483648 bytes it returns exactly when every byte was sent. For more it ends
  the process although every byte was sent, except for a length that narrows to -1: then it
  returns exactly when \<open>rio_writen\<close> failed.
\<close>

theorem Rio_writen_lengths:
  "fst (Rio_writen lc buf s) = Ret () \<longleftrightarrow>
    (case rio_writen buf (snd (env s)) of (rc, sent, out) \<Rightarrow>
       if length buf < 2 ^ 31 then rc = int (length buf) \<and> sent = buf
       else length buf mod 2 ^ 32 = 2 ^ 32 - 1 \<and> rc = - 1)"
proof -
  obtain rc sent out where w: "rio_writen buf (snd (env s)) = (rc, sent, out)" by (metis prod.exhaust)
  then have rc: "rc = int (length buf) \<and> sent = buf \<or> rc = - 1"
    using writen_loop_sent [of buf "length buf" "[]"] by (auto simp: rio_writen_def)
  have "fst (Rio_writen lc buf s) = Ret () \<longleftrightarrow> rc = int_of_size (length buf)"
    using w by (simp add: Rio_writen_def checked_void_def run_simps)
  also have "\<dots> \<longleftrightarrow> (if length buf < 2 ^ 31 then rc = int (length buf) \<and> sent = buf
       else length buf mod 2 ^ 32 = 2 ^ 32 - 1 \<and> rc = - 1)"
  proof (cases "length buf < 2 ^ 31")
    case True
    then have "int_of_size (length buf) = int (length buf)" by (intro int_of_size_small) simp
    with True rc show ?thesis by auto
  next
    case False
    then have "int_of_size (length buf) \<noteq> int (length buf)" by (intro int_of_size_large) simp
    with False rc show ?thesis by (metis int_of_size_minus_one)
  qed
  finally show ?thesis using w by simp
qed

end
