(* ===== verification/Tctest.thy ===== *)
theory Tctest
  imports Sio
begin

text \<open>
  The test framework \<open>tctest.h\<close>, \<open>tctest.c\<close> and the \<open>main\<close> of
  \<open>unit_tests.cpp\<close> that drives it. A test body ends normally, by \<open>siglongjmp\<close>
  back to the \<open>TEST\<close> that runs it (from a failed assertion or from a signal), or by a
  C++ exception. The global variables are a record, with what was printed and the calls that
  were made through the two callback pointers (which are null or not). The macros are
  taken as C++ expands them, with \<open>try\<close> and \<open>catch\<close>. Counters are
  unbounded: a program has fewer than 2147483648 tests.
\<close>

section \<open>State\<close>

datatype test_exit = Jump | Std_exception string | Other_exception

record tctest =
  tctest_assertion_line :: int
  tctest_failures :: int
  tctest_num_executed :: int
  tctest_testname_to_execute :: "string option"
  tctest_on_test_executed :: bool
  tctest_on_complete :: bool
  printed :: string
  executed_calls :: "(string \<times> bool) list"
  complete_calls :: "(int \<times> int) list"
  sigactions :: "int list"

type_synonym 'a tcmd = "(tctest, test_exit, 'a) cmd"

definition tprint :: "string \<Rightarrow> unit tcmd" where
  "tprint t = modify (\<lambda>s. s\<lparr>printed := printed s @ t\<rparr>)"

text \<open>The result of \<open>write\<close> is ignored.\<close>

definition tctest_write :: "string \<Rightarrow> nat \<Rightarrow> unit tcmd" where
  "tctest_write buf n = tprint (take n buf)"

section \<open>Signals\<close>

definition SIGTRAP :: int where "SIGTRAP = 5"
definition SIGABRT :: int where "SIGABRT = 6"
definition SIGBUS :: int where "SIGBUS = 7"
definition SIGFPE :: int where "SIGFPE = 8"
definition SIGSEGV :: int where "SIGSEGV = 11"
definition SIGSYS :: int where "SIGSYS = 31"

lemmas signal_numbers = SIGTRAP_def SIGABRT_def SIGBUS_def SIGFPE_def SIGSEGV_def SIGSYS_def

definition tctest_signal_list :: "(int \<times> string) list" where
  "tctest_signal_list =
     [(SIGFPE, ''floating point exception''),
      (SIGSEGV, ''segmentation fault''),
      (SIGBUS, ''bus error''),
      (SIGABRT, ''abort (assert failed?)''),
      (SIGTRAP, ''trap''),
      (SIGSYS, ''bad system call''),
      (- 1, ''unknown signal'')]"

text \<open>The loop that converts the line number: the array \<open>stack\<close> and \<open>ndig\<close>.\<close>

function digit_loop :: "int \<Rightarrow> string \<Rightarrow> nat \<Rightarrow> ('x, string \<times> nat) outcome" where
  "digit_loop val stack ndig =
     (if ndig < length stack
      then (let stack' = stack[ndig := char_of (nat ((48 + val smod 10) mod 256))]; val' = val sdiv 10 in
            if val' > 0 then digit_loop val' stack' (ndig + 1) else Ret (stack', ndig + 1))
      else Fault Buffer_overrun)"
  by pat_completeness auto
termination
  by (relation "measure (\<lambda>(val, stack, ndig). length stack - ndig)") auto

declare digit_loop.simps [simp del]

text \<open>The loop that appends the digits, last first.\<close>

primrec append_digits :: "nat \<Rightarrow> string \<Rightarrow> string \<Rightarrow> nat \<Rightarrow> ('x, string \<times> nat) outcome" where
  "append_digits 0 stack buf n = Ret (buf, n)"
| "append_digits (Suc ndig) stack buf n =
     (if ndig < length stack
      then bind_res (store_at buf n (stack ! ndig)) (\<lambda>buf. append_digits ndig stack buf (n + 1))
      else Fault Index_out_of_range)"

text \<open>\<open>memcpy\<close> into an array.\<close>

definition store_block :: "string \<Rightarrow> nat \<Rightarrow> string \<Rightarrow> ('x, string) outcome" where
  "store_block buf i bytes =
     (if i + length bytes \<le> length buf then Ret (take i buf @ bytes @ drop (i + length bytes) buf)
      else Fault Buffer_overrun)"

text \<open>
  \<open>signal_line garbage msg line\<close> is what is written when there was an assertion: the
  array \<open>buf\<close> and how much of it. Both arrays are not initialised. A message is a C
  string, without its NUL; \<open>strcpy\<close> stores the NUL.
\<close>

definition signal_line :: "string \<Rightarrow> string \<Rightarrow> int \<Rightarrow> ('x, string \<times> nat) outcome" where
  "signal_line garbage msg line =
     (let n = length msg; buf = take 512 (garbage @ replicate 512 nul); stack = take 16 (garbage @ replicate 16 nul) in
      bind_res (store_block buf 0 (msg @ [nul])) (\<lambda>buf.
      bind_res (store_block buf n '' (most recent ASSERT at line '') (\<lambda>buf.
      bind_res (digit_loop line stack 0) (\<lambda>(stack, ndig).
      bind_res (append_digits ndig stack buf (n + 29)) (\<lambda>(buf, n).
      bind_res (store_at buf n CHR '')'') (\<lambda>buf.
      bind_res (store_at buf (n + 1) newline) (\<lambda>buf. Ret (buf, n + 2))))))))"

text \<open>A null message makes \<open>strlen\<close> read through a null pointer.\<close>

definition tctest_print_signal_msg :: "string \<Rightarrow> string option \<Rightarrow> unit tcmd" where
  "tctest_print_signal_msg garbage msg =
     (case msg of
        None \<Rightarrow> lift_res (Fault Index_out_of_range)
      | Some msg \<Rightarrow>
          bind_cmd (gets tctest_assertion_line) (\<lambda>line.
          if line \<le> 0 then seq_cmd (tctest_write msg (length msg)) (tctest_write [newline] 1)
          else bind_cmd (lift_res (signal_line garbage msg line)) (\<lambda>(buf, n). tctest_write buf n)))"

fun signal_lookup :: "int \<Rightarrow> (int \<times> string) list \<Rightarrow> string option" where
  "signal_lookup signum [] = None"
| "signal_lookup signum ((num, msg) # rest) =
     (if num = - 1 then None else if signum = num then Some msg else signal_lookup signum rest)"

definition tctest_signal_handler :: "string \<Rightarrow> int \<Rightarrow> unit tcmd" where
  "tctest_signal_handler garbage signum =
     seq_cmd (tctest_print_signal_msg garbage (signal_lookup signum tctest_signal_list)) (throw Jump)"

text \<open>\<open>sigactions\<close> lists the signals for which the handler was installed.\<close>

fun register_loop :: "(int \<times> string) list \<Rightarrow> unit tcmd" where
  "register_loop [] = ret ()"
| "register_loop ((num, msg) # rest) =
     (if num = - 1 then ret ()
      else seq_cmd (modify (\<lambda>s. s\<lparr>sigactions := sigactions s @ [num]\<rparr>)) (register_loop rest))"

definition tctest_register_signal_handlers :: "unit tcmd" where
  "tctest_register_signal_handlers = register_loop tctest_signal_list"

section \<open>The macros\<close>

definition tctest_fail :: "string \<Rightarrow> unit tcmd" where
  "tctest_fail message = seq_cmd (tprint message) (throw Jump)"

definition ASSERT :: "bool \<Rightarrow> string \<Rightarrow> int \<Rightarrow> unit tcmd" where
  "ASSERT cond cond_text line =
     seq_cmd (modify (\<lambda>s. s\<lparr>tctest_assertion_line := line\<rparr>))
       (if \<not> cond then tctest_fail (''failed ASSERT '' @ cond_text @ '' at line '' @ to_string line @ [newline])
        else ret ())"

definition FAIL :: "string \<Rightarrow> unit tcmd" where
  "FAIL msg = tctest_fail (''failed, '' @ msg @ [newline])"

definition test_executed :: "string \<Rightarrow> bool \<Rightarrow> unit tcmd" where
  "test_executed func passed =
     modify (\<lambda>s. if tctest_on_test_executed s then s\<lparr>executed_calls := executed_calls s @ [(func, passed)]\<rparr> else s)"

text \<open>The branch of \<open>siglongjmp\<close> and the two \<open>catch\<close> blocks.\<close>

definition test_failed :: "string \<Rightarrow> test_exit \<Rightarrow> unit tcmd" where
  "test_failed func e =
     seq_cmd
       (case e of
          Jump \<Rightarrow> ret ()
        | Std_exception w \<Rightarrow> tprint (''std::exception (what='' @ [CHR 0x27] @ w @ [CHR 0x27] @ '')'' @ [newline])
        | Other_exception \<Rightarrow> tprint (''exception'' @ [newline]))
       (seq_cmd (modify (\<lambda>s. s\<lparr>tctest_failures := tctest_failures s + 1\<rparr>)) (test_executed func False))"

text \<open>
  \<open>TEST(func)\<close>. The pointer \<open>t\<close> is set between \<open>sigsetjmp\<close> and
  \<open>siglongjmp\<close> and is not \<open>volatile\<close>, so its value after the jump is
  indeterminate: the parameter \<open>after_jump\<close> gives it. \<open>None\<close> is the null pointer.
\<close>

definition TEST_body :: "('o \<Rightarrow> 'o option) \<Rightarrow> 'o tcmd \<Rightarrow> string \<Rightarrow> ('o \<Rightarrow> unit tcmd) \<Rightarrow> 'o option tcmd" where
  "TEST_body after_jump set_up func body =
     try_catch
       (bind_cmd set_up (\<lambda>t.
          try_catch
            (seq_cmd (tprint (func @ ''...''))
            (seq_cmd (body t)
            (seq_cmd (tprint (''passed!'' @ [newline]))
            (seq_cmd (test_executed func True) (ret (Some t))))))
            (\<lambda>e. Some (seq_cmd (test_failed func e) (ret (if e = Jump then after_jump t else Some t))))))
       (\<lambda>e. Some (seq_cmd (test_failed func e) (ret None)))"

definition TEST ::
  "('o \<Rightarrow> 'o option) \<Rightarrow> 'o tcmd \<Rightarrow> ('o \<Rightarrow> unit tcmd) \<Rightarrow> string \<Rightarrow> ('o \<Rightarrow> unit tcmd) \<Rightarrow> unit tcmd" where
  "TEST after_jump set_up cleanup func body =
     bind_cmd (gets tctest_testname_to_execute) (\<lambda>sel.
     if sel = None \<or> sel = Some func
     then seq_cmd
            (modify (\<lambda>s. s\<lparr>tctest_num_executed := tctest_num_executed s + 1, tctest_assertion_line := - 1\<rparr>))
            (bind_cmd (TEST_body after_jump set_up func body) (\<lambda>t.
              case t of None \<Rightarrow> ret () | Some t \<Rightarrow> cleanup t))
     else ret ())"

definition TEST_INIT :: "unit tcmd" where
  "TEST_INIT = tctest_register_signal_handlers"

definition TEST_FINI :: "bool tcmd" where
  "TEST_FINI =
     bind_cmd (gets tctest_failures) (\<lambda>failures.
     bind_cmd (gets tctest_num_executed) (\<lambda>num.
     seq_cmd
       (if failures = 0
        then if num > 0 then tprint (''All tests passed!'' @ [newline]) else tprint (''No tests were executed!'' @ [newline])
        else tprint (to_string failures @ '' test(s) failed'' @ [newline]))
    (seq_cmd (modify (\<lambda>s. if tctest_on_complete s then s\<lparr>complete_calls := complete_calls s @ [(num - failures, num)]\<rparr> else s))
       (ret (failures > 0 \<or> (failures = 0 \<and> num = 0))))))"

text \<open>The \<open>main\<close> of a test program, given the command line's arguments; the result is the exit status.\<close>

definition test_main ::
  "('o \<Rightarrow> 'o option) \<Rightarrow> 'o tcmd \<Rightarrow> ('o \<Rightarrow> unit tcmd) \<Rightarrow> (string \<times> ('o \<Rightarrow> unit tcmd)) list \<Rightarrow>
   string list \<Rightarrow> bool tcmd" where
  "test_main after_jump set_up cleanup tests args =
     seq_cmd (case args of [] \<Rightarrow> ret () | a # _ \<Rightarrow> modify (\<lambda>s. s\<lparr>tctest_testname_to_execute := Some a\<rparr>))
    (seq_cmd TEST_INIT
    (seq_cmd (for_each (\<lambda>(func, body). TEST after_jump set_up cleanup func body) tests) TEST_FINI))"

section \<open>The text of a signal\<close>

lemma digit_loop_ltoa:
  "0 \<le> val \<Longrightarrow> (digit_loop val stack ndig :: ('x, string \<times> nat) outcome) = ltoa_loop val stack ndig 10"
proof (induction val stack ndig rule: digit_loop.induct)
  case (1 val stack ndig)
  have "val smod 10 < 10" using 1(2) by (intro smod_int_compares) simp_all
  then have d: "char_of (nat ((48 + val smod 10) mod 256)) = ltoa_digit (val smod 10)"
    by (simp add: ltoa_digit_def add.commute)
  show ?case
    using 1 by (subst digit_loop.simps, subst ltoa_loop.simps) (simp add: d Let_def)
qed

lemma append_digits_run:
  "ndig \<le> length stack \<Longrightarrow> n + ndig \<le> length buf \<Longrightarrow>
     append_digits ndig stack buf n = Ret (take n buf @ rev (take ndig stack) @ drop (n + ndig) buf, n + ndig)"
proof (induction ndig arbitrary: buf n)
  case (Suc ndig)
  from Suc.prems have "take (Suc n) (buf[n := stack ! ndig]) = take n buf @ [stack ! ndig]"
    by (simp add: take_Suc_conv_app_nth)
  with Suc show ?case by (simp add: store_at_def take_Suc_conv_app_nth)
qed simp

lemma store_block_prefix:
  "length pre + length bytes \<le> length buf \<Longrightarrow> take (length pre) buf = pre \<Longrightarrow>
     \<exists>buf'. store_block buf (length pre) bytes = Ret buf' \<and> length buf' = length buf \<and>
       take (length pre + length bytes) buf' = pre @ bytes"
  by (simp add: store_block_def)

lemma store_at_prefix:
  assumes "length pre < length buf" "take (length pre) buf = pre"
  shows "\<exists>buf'. (store_at buf (length pre) c :: ('x, string) outcome) = Ret buf' \<and> length buf' = length buf \<and> take (Suc (length pre)) buf' = pre @ [c]"
  using assms by (simp add: store_at_def take_Suc_conv_app_nth)

text \<open>With room for the message, both arrays are large enough for every line number.\<close>

lemma signal_line_text:
  assumes line: "0 \<le> line" "line \<le> INT_MAX" and msg: "length msg \<le> 471"
  shows "\<exists>buf n. (signal_line garbage msg line :: ('x, string \<times> nat) outcome) = Ret (buf, n) \<and>
    take n buf = msg @ '' (most recent ASSERT at line '' @ to_string line @ '')'' @ [newline]"
proof -
  define mid where "mid = '' (most recent ASSERT at line ''"
  have lm: "length mid = 29" by (simp add: mid_def)
  define buf0 where "buf0 = take 512 (garbage @ replicate 512 nul)"
  define st where "st = take 16 (garbage @ replicate 16 nul)"
  have l: "length buf0 = 512" "length st = 16" by (simp_all add: buf0_def st_def min_def)
  have r: "radix_nat 10 line = to_string line"
    using line by (simp add: radix_nat_decimal to_string_def)
  have dl: "length (to_string line) \<le> 10"
    using line length_nat_to_string [of "nat line" 9] by (simp add: to_string_def INT_MAX_def nat_less_iff)
  obtain b1 where b1: "(store_block buf0 0 (msg @ [nul]) :: ('x, string) outcome) = Ret b1" "length b1 = 512"
      "take (length msg) b1 = msg"
    using l msg by (simp add: store_block_def)
  obtain b2 where b2: "(store_block b1 (length msg) mid :: ('x, string) outcome) = Ret b2" "length b2 = 512"
      "take (length msg + 29) b2 = msg @ mid"
    using b1 msg lm store_block_prefix [of msg mid b1] by auto
  obtain st' where st': "(digit_loop line st 0 :: ('x, string \<times> nat) outcome) = Ret (st', length (to_string line))"
      "length (to_string line) \<le> length st'" "take (length (to_string line)) st' = rev (to_string line)"
    using line dl l ltoa_loop_digits [of 10 line st "[]", where 'x = 'x]
    by (intro that [of "rev (to_string line) @ drop (length (to_string line)) st"]) (simp_all add: digit_loop_ltoa r)
  define n where "n = length msg + 29 + length (to_string line)"
  define b3 where "b3 = take (length msg + 29) b2 @ to_string line @ drop n b2"
  have b3: "(append_digits (length (to_string line)) st' b2 (length msg + 29) :: ('x, string \<times> nat) outcome) = Ret (b3, n)"
    using append_digits_run [of "length (to_string line)" st' "length msg + 29" b2] st' b2 dl msg
    by (simp add: b3_def n_def)
  have b3': "length b3 = 512" "take n b3 = msg @ mid @ to_string line" "n + 2 \<le> 512"
    using b2 dl msg lm by (simp_all add: b3_def n_def)
  have ln: "length (msg @ mid @ to_string line) = n" "length (msg @ mid @ to_string line @ '')'') = Suc n"
    using lm by (simp_all add: n_def)
  obtain b4 where b4: "(store_at b3 n CHR '')'' :: ('x, string) outcome) = Ret b4" "length b4 = 512"
      "take (Suc n) b4 = msg @ mid @ to_string line @ '')''"
    using store_at_prefix [of "msg @ mid @ to_string line" b3 "CHR '')''", where 'x = 'x, unfolded ln] b3' by auto
  obtain b5 where b5: "(store_at b4 (Suc n) newline :: ('x, string) outcome) = Ret b5"
      "take (Suc (Suc n)) b5 = msg @ mid @ to_string line @ '')'' @ [newline]"
    using store_at_prefix [of "msg @ mid @ to_string line @ '')''" b4 newline, where 'x = 'x, unfolded ln] b3' b4 by auto
  have "(signal_line garbage msg line :: ('x, string \<times> nat) outcome) = Ret (b5, n + 2)"
    unfolding signal_line_def Let_def buf0_def [symmetric] st_def [symmetric] mid_def [symmetric]
    using b1 b2 st' b3 b4 b5 by simp
  then show ?thesis using b5 unfolding mid_def by auto
qed

text \<open>Every installed signal has a message, and its handler prints it with the line of the last assertion.\<close>

lemma tctest_signal_handler_prints:
  assumes "signum \<in> {SIGFPE, SIGSEGV, SIGBUS, SIGABRT, SIGTRAP, SIGSYS}"
    and line: "0 < tctest_assertion_line s" "tctest_assertion_line s \<le> INT_MAX"
  shows "\<exists>msg. signal_lookup signum tctest_signal_list = Some msg \<and>
    tctest_signal_handler garbage signum s = (Throw Jump, s\<lparr>printed := printed s @
      msg @ '' (most recent ASSERT at line '' @ to_string (tctest_assertion_line s) @ '')'' @ [newline]\<rparr>)"
proof -
  obtain msg where msg: "signal_lookup signum tctest_signal_list = Some msg" "length msg \<le> 471"
    using assms(1) by (auto simp: tctest_signal_list_def signal_numbers)
  obtain buf n where "(signal_line garbage msg (tctest_assertion_line s) :: (test_exit, string \<times> nat) outcome) = Ret (buf, n)"
      "take n buf = msg @ '' (most recent ASSERT at line '' @ to_string (tctest_assertion_line s) @ '')'' @ [newline]"
    using signal_line_text [of "tctest_assertion_line s" msg garbage, where 'x = test_exit] line msg(2) by auto
  then show ?thesis using line msg(1)
    by (simp add: tctest_signal_handler_def tctest_print_signal_msg_def tctest_write_def tprint_def run_simps)
qed

section \<open>The count of failures\<close>

text \<open>What the framework keeps about the tests, which test code leaves alone.\<close>

definition tally :: "tctest \<Rightarrow> int \<times> int \<times> string option \<times> bool \<times> bool \<times> (string \<times> bool) list \<times> (int \<times> int) list" where
  "tally s = (tctest_failures s, tctest_num_executed s, tctest_testname_to_execute s, tctest_on_test_executed s,
     tctest_on_complete s, executed_calls s, complete_calls s)"

text \<open>Whatever the state, the code ends normally or not, as told, and leaves the tally alone.\<close>

definition ends_as :: "'a tcmd \<Rightarrow> bool \<Rightarrow> bool" where
  "ends_as m ok \<longleftrightarrow>
     (\<forall>s. \<exists>r s'. m s = (r, s') \<and> tally s' = tally s \<and>
        (if ok then \<exists>x. r = Ret x else \<exists>e. r = Throw e))"

text \<open>
  A test passes when setting up and the body, on what was set up, end normally; \<open>cleanup\<close> always does.
\<close>

definition yields :: "'o tcmd \<Rightarrow> 'o \<Rightarrow> bool" where
  "yields set_up t \<longleftrightarrow> (\<exists>s s'. set_up s = (Ret t, s'))"

definition verdict :: "'o tcmd \<Rightarrow> ('o \<Rightarrow> unit tcmd) \<Rightarrow> ('o \<Rightarrow> unit tcmd) \<Rightarrow> bool \<Rightarrow> bool" where
  "verdict set_up cleanup body passed \<longleftrightarrow>
     (\<forall>t. ends_as (cleanup t) True) \<and>
     (if passed then ends_as set_up True \<and> (\<forall>t. yields set_up t \<longrightarrow> ends_as (body t) True)
      else ends_as set_up False \<or> ends_as set_up True \<and> (\<forall>t. yields set_up t \<longrightarrow> ends_as (body t) False))"

definition wanted :: "tctest \<Rightarrow> string \<Rightarrow> bool" where
  "wanted s func \<longleftrightarrow> tctest_testname_to_execute s = None \<or> tctest_testname_to_execute s = Some func"

text \<open>How the tally changes over \<open>n\<close> more tests with the given results.\<close>

definition counted :: "nat \<Rightarrow> tctest \<Rightarrow> (string \<times> bool) list \<Rightarrow> tctest \<Rightarrow> bool" where
  "counted n s results s' \<longleftrightarrow>
     tctest_failures s' = tctest_failures s + int (length (filter (\<lambda>(f, p). \<not> p) results)) \<and>
     tctest_num_executed s' = tctest_num_executed s + int n \<and>
     tctest_testname_to_execute s' = tctest_testname_to_execute s \<and>
     tctest_on_test_executed s' = tctest_on_test_executed s \<and> tctest_on_complete s' = tctest_on_complete s \<and>
     executed_calls s' = executed_calls s @ (if tctest_on_test_executed s then results else []) \<and>
     complete_calls s' = complete_calls s"

lemma tally_counted: "tally s1 = tally s \<Longrightarrow> counted n s1 r s2 \<Longrightarrow> tally s3 = tally s2 \<Longrightarrow> counted n s r s3"
  by (simp add: tally_def counted_def)

lemma counted_append: "counted n s r s1 \<Longrightarrow> counted n' s1 r' s2 \<Longrightarrow> counted (n + n') s (r @ r') s2"
  by (simp add: counted_def)

lemma tprint_tally: "tally (s\<lparr>printed := x\<rparr>) = tally s"
  by (simp add: tally_def)

lemma test_failed_run:
  "\<exists>s'. test_failed func e s = (Ret (), s') \<and> counted 0 s [(func, False)] s'"
  by (cases e) (simp_all add: test_failed_def test_executed_def tprint_def counted_def run_simps)

lemma TEST_body_unstarted:
  assumes "ends_as set_up False"
  shows "\<exists>t s'. TEST_body after_jump set_up func body s = (Ret t, s') \<and> counted 0 s [(func, False)] s'"
proof -
  obtain e s1 where s1: "set_up s = (Throw e, s1)" "tally s1 = tally s"
    using assms unfolding ends_as_def by (metis (full_types))
  obtain s' where s': "test_failed func e s1 = (Ret (), s')" "counted 0 s1 [(func, False)] s'"
    using test_failed_run by blast
  show ?thesis using s1(1) s'(1) tally_counted [OF s1(2) s'(2) refl] by (simp add: TEST_body_def run_simps)
qed

lemma TEST_body_started:
  assumes "ends_as set_up True" "\<And>t. yields set_up t \<Longrightarrow> ends_as (body t) passed"
  shows "\<exists>t s'. TEST_body after_jump set_up func body s = (Ret t, s') \<and> counted 0 s [(func, passed)] s'"
proof -
  obtain t s1 where s1: "set_up s = (Ret t, s1)" "tally s1 = tally s"
    using assms(1) unfolding ends_as_def by (metis (full_types))
  define s2 where "s2 = s1\<lparr>printed := printed s1 @ func @ ''...''\<rparr>"
  have t2: "tally s2 = tally s" using s1 by (simp add: s2_def tprint_tally)
  obtain q s3 where s3: "body t s2 = (q, s3)" "tally s3 = tally s"
      "if passed then \<exists>x. q = Ret x else \<exists>e. q = Throw e"
    using assms(2) [of t] s1(1) t2 unfolding ends_as_def yields_def by metis
  show ?thesis
  proof (cases passed)
    case True
    with s1 s3 show ?thesis
      by (auto simp: TEST_body_def run_simps tprint_def test_executed_def s2_def [symmetric] counted_def tally_def)
  next
    case False
    then obtain e where e: "q = Throw e" using s3 by auto
    obtain s' where s': "test_failed func e s3 = (Ret (), s')" "counted 0 s3 [(func, False)] s'"
      using test_failed_run by blast
    show ?thesis using False e s1(1) s3(1) s'(1) tally_counted [OF s3(2) s'(2) refl]
      by (simp add: TEST_body_def run_simps tprint_def s2_def [symmetric])
  qed
qed

lemma TEST_body_run:
  "verdict set_up cleanup body passed \<Longrightarrow>
     \<exists>t s'. TEST_body after_jump set_up func body s = (Ret t, s') \<and> counted 0 s [(func, passed)] s'"
  using TEST_body_unstarted TEST_body_started unfolding verdict_def by (metis (full_types))

lemma TEST_run:
  assumes v: "verdict set_up cleanup body passed"
  shows "\<exists>s'. TEST after_jump set_up cleanup func body s = (Ret (), s') \<and>
    (if wanted s func then counted 1 s [(func, passed)] s' else counted 0 s [] s')"
proof (cases "wanted s func")
  case False
  then show ?thesis by (auto simp: TEST_def wanted_def run_simps counted_def)
next
  case True
  define s1 where "s1 = s\<lparr>tctest_num_executed := tctest_num_executed s + 1, tctest_assertion_line := - 1\<rparr>"
  obtain t s2 where b: "TEST_body after_jump set_up func body s1 = (Ret t, s2)" "counted 0 s1 [(func, passed)] s2"
    using TEST_body_run [OF v] by blast
  have c: "counted 1 s [(func, passed)] s2" using b(2) by (simp add: counted_def s1_def)
  have run: "TEST after_jump set_up cleanup func body s = (case t of None \<Rightarrow> ret () | Some t \<Rightarrow> cleanup t) s2"
    using True b(1) by (simp add: TEST_def wanted_def run_simps s1_def [symmetric])
  show ?thesis
  proof (cases t)
    case None
    with run c True show ?thesis by (simp add: run_simps)
  next
    case (Some t')
    obtain s3 where s3: "cleanup t' s2 = (Ret (), s3)" "tally s3 = tally s2"
      using v unfolding verdict_def ends_as_def by (metis (full_types) unit.exhaust)
    with Some run c True tally_counted [OF refl c s3(2)] show ?thesis by simp
  qed
qed

lemma wanted_counted: "counted n s r s' \<Longrightarrow> wanted s' = wanted s"
  by (simp add: counted_def wanted_def fun_eq_iff)

lemma tests_run:
  assumes "\<And>func body passed. (func, body, passed) \<in> set tests \<Longrightarrow> verdict set_up cleanup body passed"
  shows "\<exists>s'. for_each (\<lambda>(func, body). TEST after_jump set_up cleanup func body) (map (\<lambda>(f, b, p). (f, b)) tests) s = (Ret (), s') \<and>
    (let results = [(f, p). (f, b, p) \<leftarrow> tests, wanted s f] in counted (length results) s results s')"
  using assms
proof (induction tests arbitrary: s)
  case Nil
  then show ?case by (simp add: run_simps counted_def)
next
  case (Cons x tests)
  obtain f b p where x: "x = (f, b, p)" by (cases x)
  have "verdict set_up cleanup b p" by (rule Cons.prems [of f]) (simp add: x)
  then obtain s1 where s1: "TEST after_jump set_up cleanup f b s = (Ret (), s1)"
      "counted (if wanted s f then 1 else 0) s (if wanted s f then [(f, p)] else []) s1"
    using TEST_run [of set_up cleanup b p after_jump f s] by (auto split: if_splits)
  obtain s2 where s2: "for_each (\<lambda>(func, body). TEST after_jump set_up cleanup func body) (map (\<lambda>(f, b, p). (f, b)) tests) s1 = (Ret (), s2)"
      "let results = [(f, p). (f, b, p) \<leftarrow> tests, wanted s f] in counted (length results) s1 results s2"
    using Cons.IH [of s1] Cons.prems wanted_counted [OF s1(2)] by auto
  show ?case
    using s1 s2 counted_append [OF s1(2)] x by (auto simp: run_simps Let_def split: if_splits)
qed


lemma register_run:
  "tctest_register_signal_handlers s = (Ret (), s\<lparr>sigactions := sigactions s @ [SIGFPE, SIGSEGV, SIGBUS, SIGABRT, SIGTRAP, SIGSYS]\<rparr>)"
  by (simp add: tctest_register_signal_handlers_def tctest_signal_list_def signal_numbers run_simps)

section \<open>Property\<close>

text \<open>The tests that a command line selects, and the state before \<open>main\<close>.\<close>

definition selected :: "string list \<Rightarrow> string \<Rightarrow> bool" where
  "selected args func \<longleftrightarrow> (case args of [] \<Rightarrow> True | a # _ \<Rightarrow> func = a)"

definition before_main :: "bool \<Rightarrow> bool \<Rightarrow> tctest" where
  "before_main on_test on_complete =
     \<lparr>tctest_assertion_line = 0, tctest_failures = 0, tctest_num_executed = 0, tctest_testname_to_execute = None,
      tctest_on_test_executed = on_test, tctest_on_complete = on_complete, printed = [], executed_calls = [],
      complete_calls = [], sigactions = []\<rparr>"

lemma test_main_start:
  "test_main after_jump set_up cleanup tests args (before_main ot oc) =
     (let s = (before_main ot oc)\<lparr>
          tctest_testname_to_execute := (case args of [] \<Rightarrow> None | a # _ \<Rightarrow> Some a),
          sigactions := [SIGFPE, SIGSEGV, SIGBUS, SIGABRT, SIGTRAP, SIGSYS]\<rparr> in
      seq_cmd (for_each (\<lambda>(func, body). TEST after_jump set_up cleanup func body) tests) TEST_FINI s)"
  by (cases args) (simp_all add: test_main_def TEST_INIT_def run_simps register_run Let_def before_main_def)

lemma test_main_runs:
  assumes "\<And>func body passed. (func, body, passed) \<in> set tests \<Longrightarrow> verdict set_up cleanup body passed"
    and "results = [(f, p). (f, b, p) \<leftarrow> tests, selected args f]"
  shows "\<exists>s'. test_main after_jump set_up cleanup (map (\<lambda>(f, b, p). (f, b)) tests) args (before_main ot oc) =
      (Ret (\<not> (results \<noteq> [] \<and> (\<forall>(f, p) \<in> set results. p))), s') \<and>
    executed_calls s' = (if ot then results else []) \<and>
    complete_calls s' = (if oc then [(int (length (filter snd results)), int (length results))] else [])"
proof -
  define s where "s = (before_main ot oc)\<lparr>
      tctest_testname_to_execute := (case args of [] \<Rightarrow> None | a # _ \<Rightarrow> Some a),
      sigactions := [SIGFPE, SIGSEGV, SIGBUS, SIGABRT, SIGTRAP, SIGSYS]\<rparr>"
  have "wanted s = selected args"
    by (cases args) (auto simp: s_def wanted_def selected_def before_main_def fun_eq_iff)
  then obtain s1 where s1: "for_each (\<lambda>(func, body). TEST after_jump set_up cleanup func body)
        (map (\<lambda>(f, b, p). (f, b)) tests) s = (Ret (), s1)" "counted (length results) s results s1"
    using tests_run [of tests set_up cleanup after_jump s] assms by (auto simp: Let_def)
  have sum: "int (length (filter (\<lambda>(f, p). \<not> p) results)) + int (length (filter snd results)) = int (length results)"
    using sum_length_filter_compl [of snd results] by (simp add: case_prod_unfold)
  have none: "length (filter (\<lambda>(f, p). \<not> p) results) = 0 \<longleftrightarrow> (\<forall>(f, p) \<in> set results. p)"
    by (auto simp: filter_empty_conv)
  have "tctest_failures s1 = int (length (filter (\<lambda>(f, p). \<not> p) results))" "tctest_num_executed s1 = int (length results)"
    "executed_calls s1 = (if ot then results else [])" "complete_calls s1 = []" "tctest_on_complete s1 = oc"
    using s1(2) by (simp_all add: counted_def s_def before_main_def)
  with s1(1) sum none show ?thesis
    by (auto simp: test_main_start s_def [symmetric] TEST_FINI_def tprint_def run_simps Let_def)
qed

text \<open>
  C36. A test program tells the truth. Whatever value the pointer to the test objects has
  after a jump, a program whose tests have fixed verdicts runs exactly the tests that the command
  line selects, once each and in order, reports each verdict and the totals through the callbacks
  that are set, and returns 0 exactly when some test ran and every test that ran passed.
\<close>

theorem test_main_verdict:
  assumes "\<And>func body passed. (func, body, passed) \<in> set tests \<Longrightarrow> verdict set_up cleanup body passed"
    and "results = [(f, p). (f, b, p) \<leftarrow> tests, selected args f]"
  shows "\<exists>s'. test_main after_jump set_up cleanup (map (\<lambda>(f, b, p). (f, b)) tests) args (before_main ot oc) =
      (Ret (\<not> (results \<noteq> [] \<and> (\<forall>(f, p) \<in> set results. p))), s') \<and>
    executed_calls s' = (if ot then results else []) \<and>
    complete_calls s' = (if oc then [(int (length (filter snd results)), int (length results))] else [])"
  using assms by (rule test_main_runs)

text \<open>A program of two tests, the second of which fails an assertion in line 7.\<close>

definition demo_tests :: "(string \<times> (nat \<Rightarrow> unit tcmd) \<times> bool) list" where
  "demo_tests =
     [(''test_a'', (\<lambda>t. ASSERT True ''t'' 3), True), (''test_b'', (\<lambda>t. ASSERT False ''0'' 7), False)]"

lemma demo_verdicts: "(f, b, p) \<in> set demo_tests \<Longrightarrow> verdict (ret 0) (\<lambda>t. ret ()) b p"
  by (auto simp: demo_tests_def verdict_def ends_as_def ASSERT_def tctest_fail_def tprint_def run_simps tally_def)

theorem test_main_verdict_witness:
  "\<exists>s'. test_main (\<lambda>t. None) (ret 0) (\<lambda>t. ret ()) (map (\<lambda>(f, b, p). (f, b)) demo_tests) [] (before_main True True) =
      (Ret True, s') \<and> executed_calls s' = [(''test_a'', True), (''test_b'', False)] \<and> complete_calls s' = [(1, 2)]"
  using test_main_verdict [of demo_tests "ret 0" "\<lambda>t. ret ()" "[(''test_a'', True), (''test_b'', False)]" "[]" "\<lambda>t. None" True True,
      OF demo_verdicts]
  by (simp add: demo_tests_def selected_def)

end
