(* ===== verification/Unit_Tests.thy ===== *)
theory Unit_Tests
  imports Tctest Table Value_Stack Message_Serialization
begin

text \<open>
  The tests of \<open>unit_tests.cpp\<close>, run by the framework of \<open>Tctest\<close> on the modelled
  classes: the fixture \<open>TestObjs\<close>, one command per test function with the lines and the texts of its
  assertions, and the theorem that all of them pass. Everything runs in one thread.
\<close>

section \<open>The fixture\<close>

record TestObjs =
  m_default :: Message
  login_req :: Message
  create_req :: Message
  push_req :: Message
  pop_req :: Message
  set_req :: Message
  get_req :: Message
  add_req :: Message
  mul_req :: Message
  sub_req :: Message
  div_req :: Message
  bye_req :: Message
  ok_resp :: Message
  failed_resp :: Message
  error_resp :: Message
  data_resp :: Message
  long_get_req :: Message
  create_req_2 :: Message
  invalid_login_req :: Message
  invalid_create_req :: Message
  invalid_data_resp :: Message
  invalid_too_long :: Message
  encoded_login_req :: string
  encoded_create_req :: string
  encoded_data_resp :: string
  encoded_get_req :: string
  encoded_failed_resp :: string
  encoded_error_resp :: string
  encoded_bye_req :: string
  encoded_push_req_no_nl :: string
  encoded_get_req_too_long :: string
  invoices :: Table
  line_items :: Table
  valstack :: ValueStack

text \<open>The characters of a C string literal with its quotation marks.\<close>

definition quoted :: "string \<Rightarrow> string" where
  "quoted s = [CHR 0x22] @ s @ [CHR 0x22]"

definition TestObjs_new :: TestObjs where
  "TestObjs_new =
     \<lparr>m_default = Message_default,
      login_req = Message_new LOGIN [''alice''],
      create_req = Message_new CREATE [''accounts''],
      push_req = Message_new PUSH [''47374''],
      pop_req = Message_new POP [],
      set_req = Message_new SET [''accounts'', ''acct123''],
      get_req = Message_new GET [''accounts'', ''acct123''],
      add_req = Message_new ADD [],
      mul_req = Message_new MUL [],
      sub_req = Message_new SUB [],
      div_req = Message_new DIV [],
      bye_req = Message_new BYE [],
      ok_resp = Message_new OK [],
      failed_resp = Message_new FAILED [''The operation failed''],
      error_resp = Message_new ERROR [''An error occurred''],
      data_resp = Message_new DATA [''10012''],
      long_get_req = push_arg (replicate 509 CHR ''y'') (push_arg (replicate 509 CHR ''y'') (Message_new GET [])),
      create_req_2 = Message_new CREATE [''line_items''],
      invalid_login_req = Message_new LOGIN [''bob'', ''extra''],
      invalid_create_req = Message_new CREATE [''8foobar''],
      invalid_data_resp = Message_new DATA [],
      invalid_too_long = push_arg (replicate 510 CHR ''x'') (push_arg (replicate 509 CHR ''x'') (Message_new SET [])),
      encoded_login_req = ''LOGIN alice'' @ [newline],
      encoded_create_req = ''     CREATE   invoices  '' @ [newline],
      encoded_data_resp = ''DATA 90125'' @ [newline],
      encoded_get_req = ''GET lineitems foobar'' @ [newline],
      encoded_failed_resp = ''FAILED '' @ quoted ''Something went wrong, shucks!'' @ [newline],
      encoded_error_resp = '' ERROR '' @ quoted ''Wow, something really got messed up'' @ [newline],
      encoded_bye_req = ''BYE'' @ [newline],
      encoded_push_req_no_nl = ''PUSH 91025'',
      encoded_get_req_too_long = ''GET foo '' @ replicate MAX_ENCODED_LEN CHR ''x'',
      invoices = Table_new ''invoices'',
      line_items = Table_new ''line_items'',
      valstack = ValueStack_new\<rparr>"

section \<open>Test code\<close>

text \<open>
  Test code works on the state of the framework and on the fixture. An exception that leaves a test is one of
  \<open>std::exception\<close>.
\<close>

type_synonym 'a ocmd = "(tctest \<times> TestObjs, test_exit, 'a) cmd"
type_synonym ucmd = "unit ocmd"

fun raised :: "'a res \<Rightarrow> (test_exit, 'a) outcome" where
  "raised (Ret x) = Ret x"
| "raised (Throw e) = Throw (Std_exception (what e))"
| "raised (Fault u) = Fault u"
| "raised Block = Block"

definition on_tctest :: "'a tcmd \<Rightarrow> 'a ocmd" where
  "on_tctest m = (\<lambda>(s, t). case m s of (r, s') \<Rightarrow> (r, (s', t)))"

definition calc :: "(TestObjs \<Rightarrow> 'a res) \<Rightarrow> 'a ocmd" where
  "calc f = (\<lambda>(s, t). (raised (f t), (s, t)))"

definition change_objs :: "(TestObjs \<Rightarrow> TestObjs) \<Rightarrow> ucmd" where
  "change_objs f = modify (\<lambda>(s, t). (s, f t))"

text \<open>The line is noted before the condition is evaluated.\<close>

definition assert_that :: "(TestObjs \<Rightarrow> bool res) \<Rightarrow> string \<Rightarrow> int \<Rightarrow> ucmd" where
  "assert_that cond cond_text line =
     seq_cmd (on_tctest (modify (\<lambda>s. s\<lparr>tctest_assertion_line := line\<rparr>)))
    (bind_cmd (calc cond) (\<lambda>b. on_tctest (ASSERT b cond_text line)))"

definition block :: "ucmd list \<Rightarrow> ucmd" where
  "block ms = for_each (\<lambda>m. m) ms"

definition equals :: "string \<Rightarrow> string res \<Rightarrow> bool res" where
  "equals s r = bind_res r (\<lambda>v. Ret (s = v))"

definition negated :: "bool res \<Rightarrow> bool res" where
  "negated r = bind_res r (\<lambda>b. Ret (\<not> b))"

text \<open>\<open>try { f; FAIL(text); } catch (...)\<close>; what \<open>f\<close> leaves of its argument is the result.\<close>

definition raises :: "(exn \<Rightarrow> bool) \<Rightarrow> (TestObjs \<Rightarrow> 'x res \<times> 'a) \<Rightarrow> string \<Rightarrow> 'a ocmd" where
  "raises catches f text =
     bind_cmd (gets snd) (\<lambda>t.
     case f t of
       (Throw e, x) \<Rightarrow> if catches e then ret x else throw (Std_exception (what e))
     | (Ret y, x) \<Rightarrow> seq_cmd (on_tctest (FAIL text)) (ret x)
     | (Fault u, x) \<Rightarrow> lift_res (Fault u)
     | (Block, x) \<Rightarrow> lift_res Block)"

definition decoded :: "(TestObjs \<Rightarrow> string) \<Rightarrow> Message \<Rightarrow> Message ocmd" where
  "decoded field msg = calc (\<lambda>t. case decode (field t) msg of (r, msg') \<Rightarrow> bind_res r (\<lambda>_. Ret msg'))"

definition pop_valstack :: ucmd where
  "pop_valstack = bind_cmd (calc (\<lambda>t. pop (valstack t))) (\<lambda>v. change_objs (\<lambda>t. t\<lparr>valstack := v\<rparr>))"

text \<open>
  A scope with a \<open>TableGuard\<close>: the table is locked by the thread of the tests and unlocked at
  the end of the scope, also when an exception leaves it, but not by the jump out of a failed assertion.
\<close>

definition test_thread :: thread_id where "test_thread = 0"

definition guard_table ::
  "(TestObjs \<Rightarrow> Table) \<Rightarrow> ((Table \<Rightarrow> Table) \<Rightarrow> TestObjs \<Rightarrow> TestObjs) \<Rightarrow> (thread_id \<Rightarrow> Table \<Rightarrow> Table res) \<Rightarrow> ucmd" where
  "guard_table field field_update operation =
     bind_cmd (calc (\<lambda>t. operation test_thread (field t))) (\<lambda>tb. change_objs (field_update (\<lambda>_. tb)))"

definition guarded ::
  "(TestObjs \<Rightarrow> Table) \<Rightarrow> ((Table \<Rightarrow> Table) \<Rightarrow> TestObjs \<Rightarrow> TestObjs) \<Rightarrow> ucmd \<Rightarrow> ucmd" where
  "guarded field field_update body =
     seq_cmd (guard_table field field_update table_lock)
    (seq_cmd
       (try_catch body
         (\<lambda>e. if e = Jump then None else Some (seq_cmd (guard_table field field_update table_unlock) (throw e))))
       (guard_table field field_update table_unlock))"

section \<open>The tests\<close>

definition test_message_default_ctor :: ucmd where
  "test_message_default_ctor =
     block
      [assert_that (\<lambda>t. Ret (NONE = get_message_type (m_default t)))
          ''MessageType::NONE == objs->m.get_message_type()'' 223,
       assert_that (\<lambda>t. Ret (get_num_args (m_default t) = 0)) ''objs->m.get_num_args() == 0'' 224]"

definition test_message_get_message_type :: ucmd where
  "test_message_get_message_type =
     block
      [assert_that (\<lambda>t. Ret (LOGIN = get_message_type (login_req t)))
          ''MessageType::LOGIN == objs->login_req.get_message_type()'' 229,
       assert_that (\<lambda>t. Ret (CREATE = get_message_type (create_req t)))
          ''MessageType::CREATE == objs->create_req.get_message_type()'' 230,
       assert_that (\<lambda>t. Ret (PUSH = get_message_type (push_req t)))
          ''MessageType::PUSH == objs->push_req.get_message_type()'' 231,
       assert_that (\<lambda>t. Ret (POP = get_message_type (pop_req t)))
          ''MessageType::POP == objs->pop_req.get_message_type()'' 232,
       assert_that (\<lambda>t. Ret (SET = get_message_type (set_req t)))
          ''MessageType::SET == objs->set_req.get_message_type()'' 233,
       assert_that (\<lambda>t. Ret (GET = get_message_type (get_req t)))
          ''MessageType::GET == objs->get_req.get_message_type()'' 234,
       assert_that (\<lambda>t. Ret (ADD = get_message_type (add_req t)))
          ''MessageType::ADD == objs->add_req.get_message_type()'' 235,
       assert_that (\<lambda>t. Ret (MUL = get_message_type (mul_req t)))
          ''MessageType::MUL == objs->mul_req.get_message_type()'' 236,
       assert_that (\<lambda>t. Ret (SUB = get_message_type (sub_req t)))
          ''MessageType::SUB == objs->sub_req.get_message_type()'' 237,
       assert_that (\<lambda>t. Ret (DIV = get_message_type (div_req t)))
          ''MessageType::DIV == objs->div_req.get_message_type()'' 238,
       assert_that (\<lambda>t. Ret (BYE = get_message_type (bye_req t)))
          ''MessageType::BYE == objs->bye_req.get_message_type()'' 239,
       assert_that (\<lambda>t. Ret (OK = get_message_type (ok_resp t)))
          ''MessageType::OK == objs->ok_resp.get_message_type()'' 241,
       assert_that (\<lambda>t. Ret (FAILED = get_message_type (failed_resp t)))
          ''MessageType::FAILED == objs->failed_resp.get_message_type()'' 242,
       assert_that (\<lambda>t. Ret (ERROR = get_message_type (error_resp t)))
          ''MessageType::ERROR == objs->error_resp.get_message_type()'' 243,
       assert_that (\<lambda>t. Ret (DATA = get_message_type (data_resp t)))
          ''MessageType::DATA == objs->data_resp.get_message_type()'' 244,
       assert_that (\<lambda>t. Ret (GET = get_message_type (long_get_req t)))
          ''MessageType::GET == objs->long_get_req.get_message_type()'' 246,
       assert_that (\<lambda>t. Ret (CREATE = get_message_type (create_req_2 t)))
          ''MessageType::CREATE == objs->create_req_2.get_message_type()'' 247]"

definition test_message_get_username :: ucmd where
  "test_message_get_username =
     block
      [assert_that (\<lambda>t. equals ''alice'' (get_username (login_req t)))
          (quoted ''alice'' @ '' == objs->login_req.get_username()'') 252]"

definition test_message_get_table :: ucmd where
  "test_message_get_table =
     block
      [assert_that (\<lambda>t. equals ''accounts'' (get_table (create_req t)))
          (quoted ''accounts'' @ '' == objs->create_req.get_table()'') 257,
       assert_that (\<lambda>t. equals ''accounts'' (get_table (set_req t)))
          (quoted ''accounts'' @ '' == objs->set_req.get_table()'') 258,
       assert_that (\<lambda>t. equals ''accounts'' (get_table (get_req t)))
          (quoted ''accounts'' @ '' == objs->get_req.get_table()'') 259,
       assert_that (\<lambda>t. equals (replicate 509 CHR ''y'') (get_table (long_get_req t)))
          (''std::string( 509, '' @ [CHR 0x27] @ ''y'' @ [CHR 0x27] @ '' ) == objs->long_get_req.get_table()'') 260,
       assert_that (\<lambda>t. equals ''line_items'' (get_table (create_req_2 t)))
          (quoted ''line_items'' @ '' == objs->create_req_2.get_table()'') 261]"

definition test_message_get_value :: ucmd where
  "test_message_get_value =
     block
      [assert_that (\<lambda>t. equals ''47374'' (get_value (push_req t)))
          (quoted ''47374'' @ '' == objs->push_req.get_value()'') 266,
       assert_that (\<lambda>t. equals ''10012'' (get_value (data_resp t)))
          (quoted ''10012'' @ '' == objs->data_resp.get_value()'') 267]"

definition test_message_get_key :: ucmd where
  "test_message_get_key =
     block
      [assert_that (\<lambda>t. equals ''acct123'' (get_key (set_req t)))
          (quoted ''acct123'' @ '' == objs->set_req.get_key()'') 272,
       assert_that (\<lambda>t. equals ''acct123'' (get_key (get_req t)))
          (quoted ''acct123'' @ '' == objs->get_req.get_key()'') 273]"

definition test_message_is_valid :: ucmd where
  "test_message_is_valid =
     block
      [assert_that (\<lambda>t. is_valid (login_req t)) ''objs->login_req.is_valid()'' 278,
       assert_that (\<lambda>t. is_valid (create_req t)) ''objs->create_req.is_valid()'' 279,
       assert_that (\<lambda>t. is_valid (push_req t)) ''objs->push_req.is_valid()'' 280,
       assert_that (\<lambda>t. is_valid (pop_req t)) ''objs->pop_req.is_valid()'' 281,
       assert_that (\<lambda>t. is_valid (set_req t)) ''objs->set_req.is_valid()'' 282,
       assert_that (\<lambda>t. is_valid (get_req t)) ''objs->get_req.is_valid()'' 283,
       assert_that (\<lambda>t. is_valid (add_req t)) ''objs->add_req.is_valid()'' 284,
       assert_that (\<lambda>t. is_valid (mul_req t)) ''objs->mul_req.is_valid()'' 285,
       assert_that (\<lambda>t. is_valid (sub_req t)) ''objs->sub_req.is_valid()'' 286,
       assert_that (\<lambda>t. is_valid (div_req t)) ''objs->div_req.is_valid()'' 287,
       assert_that (\<lambda>t. is_valid (bye_req t)) ''objs->bye_req.is_valid()'' 288,
       assert_that (\<lambda>t. is_valid (ok_resp t)) ''objs->ok_resp.is_valid()'' 289,
       assert_that (\<lambda>t. is_valid (failed_resp t)) ''objs->failed_resp.is_valid()'' 290,
       assert_that (\<lambda>t. is_valid (error_resp t)) ''objs->error_resp.is_valid()'' 291,
       assert_that (\<lambda>t. is_valid (data_resp t)) ''objs->data_resp.is_valid()'' 292,
       assert_that (\<lambda>t. is_valid (long_get_req t)) ''objs->long_get_req.is_valid()'' 293,
       assert_that (\<lambda>t. is_valid (create_req_2 t)) ''objs->create_req_2.is_valid()'' 294,
       assert_that (\<lambda>t. negated (is_valid (invalid_login_req t)))
          ''!objs->invalid_login_req.is_valid()'' 296,
       assert_that (\<lambda>t. negated (is_valid (invalid_create_req t)))
          ''!objs->invalid_create_req.is_valid()'' 297,
       assert_that (\<lambda>t. negated (is_valid (invalid_data_resp t)))
          ''!objs->invalid_data_resp.is_valid()'' 298]"

definition test_message_serialization_encode :: ucmd where
  "test_message_serialization_encode =
     block
      [bind_cmd (calc (\<lambda>t. encode (login_req t))) (\<lambda>s.
        assert_that (\<lambda>t. Ret (''LOGIN alice'' @ [newline] = s))
          (quoted (''LOGIN alice'' @ [CHR 0x5C] @ ''n'') @ '' == s'') 306),
       bind_cmd (calc (\<lambda>t. encode (create_req t))) (\<lambda>s.
        assert_that (\<lambda>t. Ret (''CREATE accounts'' @ [newline] = s))
          (quoted (''CREATE accounts'' @ [CHR 0x5C] @ ''n'') @ '' == s'') 309),
       bind_cmd (calc (\<lambda>t. encode (push_req t))) (\<lambda>s.
        assert_that (\<lambda>t. Ret (''PUSH 47374'' @ [newline] = s))
          (quoted (''PUSH 47374'' @ [CHR 0x5C] @ ''n'') @ '' == s'') 312),
       bind_cmd (calc (\<lambda>t. encode (pop_req t))) (\<lambda>s.
        assert_that (\<lambda>t. Ret (''POP'' @ [newline] = s))
          (quoted (''POP'' @ [CHR 0x5C] @ ''n'') @ '' == s'') 315),
       bind_cmd (calc (\<lambda>t. encode (set_req t))) (\<lambda>s.
        assert_that (\<lambda>t. Ret (''SET accounts acct123'' @ [newline] = s))
          (quoted (''SET accounts acct123'' @ [CHR 0x5C] @ ''n'') @ '' == s'') 318),
       bind_cmd (calc (\<lambda>t. encode (data_resp t))) (\<lambda>s.
        assert_that (\<lambda>t. Ret (''DATA 10012'' @ [newline] = s))
          (quoted (''DATA 10012'' @ [CHR 0x5C] @ ''n'') @ '' == s'') 321)]"

definition test_message_serialization_encode_long :: ucmd where
  "test_message_serialization_encode_long =
     block
      [bind_cmd (calc (\<lambda>t. encode (long_get_req t))) (\<lambda>actual_str.
        let expected_str = ''GET '' @ replicate 509 CHR ''y'' @ '' '' @ replicate 509 CHR ''y'' @ [newline] in
        assert_that (\<lambda>t. Ret (expected_str = actual_str)) ''expected_str == actual_str'' 329)]"

definition test_message_serialization_encode_too_long :: ucmd where
  "test_message_serialization_encode_too_long =
     raises is_InvalidMessage (\<lambda>t. (encode (invalid_too_long t), ()))
       ''exception was not thrown for too-long encoded message''"

definition test_message_serialization_decode :: ucmd where
  "test_message_serialization_decode =
     bind_cmd (decoded encoded_login_req Message_default) (\<lambda>msg. seq_cmd
      (block
       [assert_that (\<lambda>t. Ret (LOGIN = get_message_type msg))
          ''MessageType::LOGIN == msg.get_message_type()'' 348,
        assert_that (\<lambda>t. Ret (1 = get_num_args msg)) ''1 == msg.get_num_args()'' 349,
        assert_that (\<lambda>t. equals ''alice'' (get_username msg))
          (quoted ''alice'' @ '' == msg.get_username()'') 350])
    (bind_cmd (decoded encoded_create_req msg) (\<lambda>msg. seq_cmd
      (block
       [assert_that (\<lambda>t. Ret (CREATE = get_message_type msg))
          ''MessageType::CREATE == msg.get_message_type()'' 353,
        assert_that (\<lambda>t. Ret (1 = get_num_args msg)) ''1 == msg.get_num_args()'' 354,
        assert_that (\<lambda>t. equals ''invoices'' (get_table msg))
          (quoted ''invoices'' @ '' == msg.get_table()'') 355])
    (bind_cmd (decoded encoded_data_resp msg) (\<lambda>msg. seq_cmd
      (block
       [assert_that (\<lambda>t. Ret (DATA = get_message_type msg))
          ''MessageType::DATA == msg.get_message_type()'' 358,
        assert_that (\<lambda>t. Ret (1 = get_num_args msg)) ''1 == msg.get_num_args()'' 359,
        assert_that (\<lambda>t. equals ''90125'' (get_value msg))
          (quoted ''90125'' @ '' == msg.get_value()'') 360])
    (bind_cmd (decoded encoded_get_req msg) (\<lambda>msg. seq_cmd
      (block
       [assert_that (\<lambda>t. Ret (GET = get_message_type msg))
          ''MessageType::GET == msg.get_message_type()'' 363,
        assert_that (\<lambda>t. Ret (2 = get_num_args msg)) ''2 == msg.get_num_args()'' 364,
        assert_that (\<lambda>t. equals ''lineitems'' (get_table msg))
          (quoted ''lineitems'' @ '' == msg.get_table()'') 365,
        assert_that (\<lambda>t. equals ''foobar'' (get_key msg)) (quoted ''foobar'' @ '' == msg.get_key()'') 366])
    (bind_cmd (decoded encoded_failed_resp msg) (\<lambda>msg. seq_cmd
      (block
       [assert_that (\<lambda>t. Ret (FAILED = get_message_type msg))
          ''MessageType::FAILED == msg.get_message_type()'' 369,
        assert_that (\<lambda>t. Ret (1 = get_num_args msg)) ''1 == msg.get_num_args()'' 370,
        assert_that (\<lambda>t. equals ''Something went wrong, shucks!'' (get_quoted_text msg))
          (quoted ''Something went wrong, shucks!'' @ '' == msg.get_quoted_text()'') 371])
    (bind_cmd (decoded encoded_error_resp msg) (\<lambda>msg. seq_cmd
      (block
       [assert_that (\<lambda>t. Ret (ERROR = get_message_type msg))
          ''MessageType::ERROR == msg.get_message_type()'' 374,
        assert_that (\<lambda>t. Ret (1 = get_num_args msg)) ''1 == msg.get_num_args()'' 375,
        assert_that (\<lambda>t. equals ''Wow, something really got messed up'' (get_quoted_text msg))
          (quoted ''Wow, something really got messed up'' @ '' == msg.get_quoted_text()'') 376])
    (bind_cmd (decoded encoded_bye_req msg) (\<lambda>msg.
      block
       [assert_that (\<lambda>t. Ret (BYE = get_message_type msg))
          ''MessageType::BYE == msg.get_message_type()'' 379,
        assert_that (\<lambda>t. Ret (0 = get_num_args msg)) ''0 == msg.get_num_args()'' 380])))))))))))))"

definition test_message_serialization_decode_invalid :: ucmd where
  "test_message_serialization_decode_invalid =
     bind_cmd
       (raises is_InvalidMessage (\<lambda>t. decode (encoded_push_req_no_nl t) Message_default)
         ''No exception thrown decoding message lacking terminating newline'')
    (\<lambda>msg. bind_cmd
       (raises is_InvalidMessage (\<lambda>t. decode (encoded_get_req_too_long t) msg)
         ''No exception thrown decoding message that is too long'')
    (\<lambda>msg. ret ()))"

definition test_table_has_key :: ucmd where
  "test_table_has_key =
     block
      [guarded invoices invoices_update (block
         [change_objs (invoices_update (table_set ''abc123'' ''1000'')),
          change_objs (invoices_update (table_set ''xyz456'' ''1318''))]),
       guarded invoices invoices_update (block
         [assert_that (\<lambda>t. Ret (has_key ''abc123'' (invoices t)))
          (''objs->invoices->has_key( '' @ quoted ''abc123'' @ '' )'') 415,
          assert_that (\<lambda>t. Ret (has_key ''xyz456'' (invoices t)))
          (''objs->invoices->has_key( '' @ quoted ''xyz456'' @ '' )'') 416,
          assert_that (\<lambda>t. Ret (\<not> has_key ''nonexistent'' (invoices t)))
          (''!objs->invoices->has_key( '' @ quoted ''nonexistent'' @ '' )'') 418])]"

definition test_table_get :: ucmd where
  "test_table_get =
     block
      [guarded invoices invoices_update (block
         [change_objs (invoices_update (table_set ''abc123'' ''1000'')),
          change_objs (invoices_update (table_set ''xyz456'' ''1318''))]),
       guarded invoices invoices_update (block
         [assert_that (\<lambda>t. equals ''1000'' (table_get ''abc123'' (invoices t)))
          (quoted ''1000'' @ '' == objs->invoices->get( '' @ quoted ''abc123'' @ '' )'') 435,
          assert_that (\<lambda>t. equals ''1318'' (table_get ''xyz456'' (invoices t)))
          (quoted ''1318'' @ '' == objs->invoices->get( '' @ quoted ''xyz456'' @ '' )'') 436,
          assert_that (\<lambda>t. Ret (\<not> has_key ''nonexistent'' (invoices t)))
          (''!objs->invoices->has_key( '' @ quoted ''nonexistent'' @ '' )'') 438])]"

definition test_table_commit_changes :: ucmd where
  "test_table_commit_changes =
     block
      [guarded invoices invoices_update (block
         [change_objs (invoices_update (table_set ''abc123'' ''1000'')),
          change_objs (invoices_update (table_set ''xyz456'' ''1318''))]),
       guarded invoices invoices_update (block
         [assert_that (\<lambda>t. equals ''1000'' (table_get ''abc123'' (invoices t)))
          (quoted ''1000'' @ '' == objs->invoices->get( '' @ quoted ''abc123'' @ '' )'') 455,
          assert_that (\<lambda>t. equals ''1318'' (table_get ''xyz456'' (invoices t)))
          (quoted ''1318'' @ '' == objs->invoices->get( '' @ quoted ''xyz456'' @ '' )'') 456,
          assert_that (\<lambda>t. Ret (\<not> has_key ''nonexistent'' (invoices t)))
          (''!objs->invoices->has_key( '' @ quoted ''nonexistent'' @ '' )'') 458]),
       guarded invoices invoices_update (block
         [change_objs (invoices_update commit_changes),
          assert_that (\<lambda>t. equals ''1000'' (table_get ''abc123'' (invoices t)))
          (quoted ''1000'' @ '' == objs->invoices->get( '' @ quoted ''abc123'' @ '' )'') 468,
          assert_that (\<lambda>t. equals ''1318'' (table_get ''xyz456'' (invoices t)))
          (quoted ''1318'' @ '' == objs->invoices->get( '' @ quoted ''xyz456'' @ '' )'') 469,
          assert_that (\<lambda>t. Ret (\<not> has_key ''nonexistent'' (invoices t)))
          (''!objs->invoices->has_key( '' @ quoted ''nonexistent'' @ '' )'') 471])]"

definition test_table_rollback_changes :: ucmd where
  "test_table_rollback_changes =
     block
      [guarded invoices invoices_update (block
         [change_objs (invoices_update (table_set ''abc123'' ''1000'')),
          change_objs (invoices_update (table_set ''xyz456'' ''1318''))]),
       guarded invoices invoices_update (block
         [assert_that (\<lambda>t. equals ''1000'' (table_get ''abc123'' (invoices t)))
          (quoted ''1000'' @ '' == objs->invoices->get( '' @ quoted ''abc123'' @ '' )'') 488,
          assert_that (\<lambda>t. equals ''1318'' (table_get ''xyz456'' (invoices t)))
          (quoted ''1318'' @ '' == objs->invoices->get( '' @ quoted ''xyz456'' @ '' )'') 489,
          assert_that (\<lambda>t. Ret (\<not> has_key ''nonexistent'' (invoices t)))
          (''!objs->invoices->has_key( '' @ quoted ''nonexistent'' @ '' )'') 491]),
       guarded invoices invoices_update (block
         [change_objs (invoices_update rollback_changes)]),
       guarded invoices invoices_update (block
         [assert_that (\<lambda>t. Ret (\<not> has_key ''abc123'' (invoices t)))
          (''!objs->invoices->has_key( '' @ quoted ''abc123'' @ '' )'') 505,
          assert_that (\<lambda>t. Ret (\<not> has_key ''xyz456'' (invoices t)))
          (''!objs->invoices->has_key( '' @ quoted ''xyz456'' @ '' )'') 506,
          assert_that (\<lambda>t. Ret (\<not> has_key ''nonexistent'' (invoices t)))
          (''!objs->invoices->has_key( '' @ quoted ''nonexistent'' @ '' )'') 507])]"

definition test_table_commit_and_rollback :: ucmd where
  "test_table_commit_and_rollback =
     block
      [guarded line_items line_items_update (block
         [change_objs (line_items_update (table_set ''apples'' ''100'')),
          change_objs (line_items_update (table_set ''bananas'' ''150''))]),
       guarded line_items line_items_update (block
         [change_objs (line_items_update commit_changes)]),
       guarded line_items line_items_update (block
         [assert_that (\<lambda>t. equals ''100'' (table_get ''apples'' (line_items t)))
          (quoted ''100'' @ '' == objs->line_items->get( '' @ quoted ''apples'' @ '' )'') 535,
          assert_that (\<lambda>t. equals ''150'' (table_get ''bananas'' (line_items t)))
          (quoted ''150'' @ '' == objs->line_items->get( '' @ quoted ''bananas'' @ '' )'') 536]),
       guarded line_items line_items_update (block
         [change_objs (line_items_update (table_set ''oranges'' ''220''))]),
       guarded line_items line_items_update (block
         [assert_that (\<lambda>t. equals ''100'' (table_get ''apples'' (line_items t)))
          (quoted ''100'' @ '' == objs->line_items->get( '' @ quoted ''apples'' @ '' )'') 550,
          assert_that (\<lambda>t. equals ''150'' (table_get ''bananas'' (line_items t)))
          (quoted ''150'' @ '' == objs->line_items->get( '' @ quoted ''bananas'' @ '' )'') 551,
          assert_that (\<lambda>t. equals ''220'' (table_get ''oranges'' (line_items t)))
          (quoted ''220'' @ '' == objs->line_items->get( '' @ quoted ''oranges'' @ '' )'') 552]),
       guarded line_items line_items_update (block
         [change_objs (line_items_update rollback_changes)]),
       guarded line_items line_items_update (block
         [assert_that (\<lambda>t. equals ''100'' (table_get ''apples'' (line_items t)))
          (quoted ''100'' @ '' == objs->line_items->get( '' @ quoted ''apples'' @ '' )'') 567,
          assert_that (\<lambda>t. equals ''150'' (table_get ''bananas'' (line_items t)))
          (quoted ''150'' @ '' == objs->line_items->get( '' @ quoted ''bananas'' @ '' )'') 568,
          assert_that (\<lambda>t. Ret (\<not> has_key ''oranges'' (line_items t)))
          (''!objs->line_items->has_key( '' @ quoted ''oranges'' @ '' )'') 569])]"

definition test_value_stack :: ucmd where
  "test_value_stack =
     block
      [assert_that (\<lambda>t. Ret (is_empty (valstack t))) ''objs->valstack.is_empty()'' 576,
       change_objs (valstack_update (push ''foo'')),
       assert_that (\<lambda>t. Ret (\<not> is_empty (valstack t))) ''!objs->valstack.is_empty()'' 580,
       change_objs (valstack_update (push ''bar'')),
       assert_that (\<lambda>t. Ret (\<not> is_empty (valstack t))) ''!objs->valstack.is_empty()'' 582,
       change_objs (valstack_update (push ''12345'')),
       assert_that (\<lambda>t. Ret (\<not> is_empty (valstack t))) ''!objs->valstack.is_empty()'' 584,
       assert_that (\<lambda>t. equals ''12345'' (get_top (valstack t)))
          (quoted ''12345'' @ '' == objs->valstack.get_top()'') 587,
       pop_valstack,
       assert_that (\<lambda>t. Ret (\<not> is_empty (valstack t))) ''!objs->valstack.is_empty()'' 589,
       assert_that (\<lambda>t. equals ''bar'' (get_top (valstack t)))
          (quoted ''bar'' @ '' == objs->valstack.get_top()'') 590,
       pop_valstack,
       assert_that (\<lambda>t. Ret (\<not> is_empty (valstack t))) ''!objs->valstack.is_empty()'' 592,
       assert_that (\<lambda>t. equals ''foo'' (get_top (valstack t)))
          (quoted ''foo'' @ '' == objs->valstack.get_top()'') 593,
       pop_valstack,
       assert_that (\<lambda>t. Ret (is_empty (valstack t))) ''objs->valstack.is_empty()'' 597]"

definition test_value_stack_exceptions :: ucmd where
  "test_value_stack_exceptions =
     block
      [assert_that (\<lambda>t. Ret (is_empty (valstack t))) ''objs->valstack.is_empty()'' 602,
       raises is_OperationException (\<lambda>t. (get_top (valstack t), ()))
         (''ValueStack didn'' @ [CHR 0x27] @ ''t throw exception for get_top() on empty stack''),
       raises is_OperationException (\<lambda>t. (pop (valstack t), ()))
         (''ValueStack didn'' @ [CHR 0x27] @ ''t throw exception for pop() on empty stack'')]"

text \<open>
  A test function gets a pointer to a new fixture; nobody reads the fixture after it, and \<open>cleanup\<close> frees it.
\<close>

definition setup_objs :: "TestObjs tcmd" where
  "setup_objs = ret TestObjs_new"

definition cleanup_objs :: "TestObjs \<Rightarrow> unit tcmd" where
  "cleanup_objs objs = ret ()"

definition test_function :: "ucmd \<Rightarrow> TestObjs \<Rightarrow> unit tcmd" where
  "test_function m t = (\<lambda>s. case m (s, t) of (r, (s', t')) \<Rightarrow> (r, s'))"

definition unit_tests :: "(string \<times> ucmd) list" where
  "unit_tests =
     [(''test_message_default_ctor'', test_message_default_ctor),
      (''test_message_get_message_type'', test_message_get_message_type),
      (''test_message_get_username'', test_message_get_username),
      (''test_message_get_table'', test_message_get_table),
      (''test_message_get_value'', test_message_get_value),
      (''test_message_get_key'', test_message_get_key),
      (''test_message_is_valid'', test_message_is_valid),
      (''test_message_serialization_encode'', test_message_serialization_encode),
      (''test_message_serialization_encode_long'', test_message_serialization_encode_long),
      (''test_message_serialization_encode_too_long'', test_message_serialization_encode_too_long),
      (''test_message_serialization_decode'', test_message_serialization_decode),
      (''test_message_serialization_decode_invalid'', test_message_serialization_decode_invalid),
      (''test_table_has_key'', test_table_has_key),
      (''test_table_get'', test_table_get),
      (''test_table_commit_changes'', test_table_commit_changes),
      (''test_table_rollback_changes'', test_table_rollback_changes),
      (''test_table_commit_and_rollback'', test_table_commit_and_rollback),
      (''test_value_stack'', test_value_stack),
      (''test_value_stack_exceptions'', test_value_stack_exceptions)]"

definition unit_tests_main :: "(TestObjs \<Rightarrow> TestObjs option) \<Rightarrow> string list \<Rightarrow> bool tcmd" where
  "unit_tests_main after_jump args =
     test_main after_jump setup_objs cleanup_objs (map (\<lambda>(func, body). (func, test_function body)) unit_tests) args"


section \<open>Running the tests\<close>

named_theorems tests \<open>evaluation of test code\<close>

lemma assert_that_run [tests]:
  "cond t = Ret True \<Longrightarrow> assert_that cond text line (s, t) = (Ret (), (s\<lparr>tctest_assertion_line := line\<rparr>, t))"
  by (simp add: assert_that_def on_tctest_def calc_def ASSERT_def run_simps)

lemma code_run [tests]:
  "change_objs f (s, t) = (Ret (), (s, f t))" "calc g (s, t) = (raised (g t), (s, t))"
  "block [] (s, t) = (Ret (), (s, t))" "block (m # ms) (s, t) = continue_with (m (s, t)) (\<lambda>_. block ms)"
  by (simp_all add: change_objs_def calc_def block_def run_simps)

lemma raises_run [tests]:
  "f t = (Throw e, x) \<Longrightarrow> catches e \<Longrightarrow> raises catches f text (s, t) = (Ret x, (s, t))"
  by (simp add: raises_def run_simps)

lemma equals_run [tests]: "equals a (Ret b) = Ret (a = b)" "negated (Ret c) = Ret (\<not> c)"
  by (simp_all add: equals_def negated_def)

lemma tally_line [simp]: "tally (s\<lparr>tctest_assertion_line := line\<rparr>) = tally s"
  by (simp add: tally_def)

definition passes :: "ucmd \<Rightarrow> bool" where
  "passes m \<longleftrightarrow> (\<forall>s. \<exists>s' t'. m (s, TestObjs_new) = (Ret (), (s', t')) \<and> tally s' = tally s)"

lemma passes_verdict:
  assumes "passes m"
  shows "verdict setup_objs cleanup_objs (test_function m) True"
proof -
  have "\<exists>r s'. test_function m TestObjs_new s = (r, s') \<and> tally s' = tally s \<and> (\<exists>x. r = Ret x)" for s
  proof -
    obtain s' t' where "m (s, TestObjs_new) = (Ret (), (s', t'))" "tally s' = tally s"
      using assms unfolding passes_def by blast
    then show ?thesis by (simp add: test_function_def)
  qed
  then show ?thesis
    by (simp add: verdict_def ends_as_def setup_objs_def cleanup_objs_def yields_def run_simps)
qed

lemma fixture [simp]:
  "m_default TestObjs_new = Message_default"
  "login_req TestObjs_new = Message_new LOGIN [''alice'']"
  "create_req TestObjs_new = Message_new CREATE [''accounts'']"
  "push_req TestObjs_new = Message_new PUSH [''47374'']"
  "pop_req TestObjs_new = Message_new POP []"
  "set_req TestObjs_new = Message_new SET [''accounts'', ''acct123'']"
  "get_req TestObjs_new = Message_new GET [''accounts'', ''acct123'']"
  "add_req TestObjs_new = Message_new ADD []"
  "mul_req TestObjs_new = Message_new MUL []"
  "sub_req TestObjs_new = Message_new SUB []"
  "div_req TestObjs_new = Message_new DIV []"
  "bye_req TestObjs_new = Message_new BYE []"
  "ok_resp TestObjs_new = Message_new OK []"
  "failed_resp TestObjs_new = Message_new FAILED [''The operation failed'']"
  "error_resp TestObjs_new = Message_new ERROR [''An error occurred'']"
  "data_resp TestObjs_new = Message_new DATA [''10012'']"
  "long_get_req TestObjs_new = push_arg (replicate 509 CHR ''y'') (push_arg (replicate 509 CHR ''y'') (Message_new GET []))"
  "create_req_2 TestObjs_new = Message_new CREATE [''line_items'']"
  "invalid_login_req TestObjs_new = Message_new LOGIN [''bob'', ''extra'']"
  "invalid_create_req TestObjs_new = Message_new CREATE [''8foobar'']"
  "invalid_data_resp TestObjs_new = Message_new DATA []"
  "invalid_too_long TestObjs_new = push_arg (replicate 510 CHR ''x'') (push_arg (replicate 509 CHR ''x'') (Message_new SET []))"
  "encoded_login_req TestObjs_new = ''LOGIN alice'' @ [newline]"
  "encoded_create_req TestObjs_new = ''     CREATE   invoices  '' @ [newline]"
  "encoded_data_resp TestObjs_new = ''DATA 90125'' @ [newline]"
  "encoded_get_req TestObjs_new = ''GET lineitems foobar'' @ [newline]"
  "encoded_failed_resp TestObjs_new = ''FAILED '' @ quoted ''Something went wrong, shucks!'' @ [newline]"
  "encoded_error_resp TestObjs_new = '' ERROR '' @ quoted ''Wow, something really got messed up'' @ [newline]"
  "encoded_bye_req TestObjs_new = ''BYE'' @ [newline]"
  "encoded_push_req_no_nl TestObjs_new = ''PUSH 91025''"
  "encoded_get_req_too_long TestObjs_new = ''GET foo '' @ replicate MAX_ENCODED_LEN CHR ''x''"
  "invoices TestObjs_new = Table_new ''invoices''"
  "line_items TestObjs_new = Table_new ''line_items''"
  "valstack TestObjs_new = ValueStack_new"
  by (simp_all add: TestObjs_new_def)

lemma long_message [simp]:
  "push_arg b (push_arg a (Message_new ty [])) = Message_new ty [a, b]"
  by (simp add: push_arg_def Message_new_def)

lemma message_parts [simp]: "m_message_type (Message_new ty args) = ty" "m_args (Message_new ty args) = args"
  by (simp_all add: Message_new_def)

lemma accessors_pass:
  "passes test_message_default_ctor" "passes test_message_get_message_type" "passes test_message_get_username"
  "passes test_message_get_table" "passes test_message_get_value" "passes test_message_get_key"
  by (simp_all add: passes_def tests test_message_default_ctor_def test_message_get_message_type_def
      test_message_get_username_def test_message_get_table_def test_message_get_value_def test_message_get_key_def
      Message_default_def get_message_type_def get_num_args_def get_username_def
      get_table_def get_value_def get_key_def vec_index_def)

lemma long_is_valid: "is_valid (Message_new GET [replicate 509 CHR ''y'', replicate 509 CHR ''y'']) = Ret True"
  by (subst is_valid_decides)
    (simp_all add: args_ok_def protocol_ok_def is_ident_def is_letter_def is_ident_char_def char_between_def list_all_iff)

lemma valid_passes: "passes test_message_is_valid"
proof -
  have "is_valid (Message_new LOGIN [''alice'']) = Ret True" "is_valid (Message_new CREATE [''accounts'']) = Ret True"
    "is_valid (Message_new PUSH [''47374'']) = Ret True" "is_valid (Message_new POP []) = Ret True"
    "is_valid (Message_new SET [''accounts'', ''acct123'']) = Ret True" "is_valid (Message_new GET [''accounts'', ''acct123'']) = Ret True"
    "is_valid (Message_new ADD []) = Ret True" "is_valid (Message_new MUL []) = Ret True" "is_valid (Message_new SUB []) = Ret True"
    "is_valid (Message_new DIV []) = Ret True" "is_valid (Message_new BYE []) = Ret True" "is_valid (Message_new OK []) = Ret True"
    "is_valid (Message_new FAILED [''The operation failed'']) = Ret True" "is_valid (Message_new ERROR [''An error occurred'']) = Ret True"
    "is_valid (Message_new DATA [''10012'']) = Ret True" "is_valid (Message_new CREATE [''line_items'']) = Ret True"
    "is_valid (Message_new LOGIN [''bob'', ''extra'']) = Ret False" "is_valid (Message_new CREATE [''8foobar'']) = Ret False"
    "is_valid (Message_new DATA []) = Ret False"
    by code_simp+
  then show ?thesis
    by (simp add: passes_def tests test_message_is_valid_def long_is_valid)
qed

lemma encodes:
  assumes "type_name ty = Ret name" "length args \<le> 2"
  shows "encode (Message_new ty args) =
    (if length (message_line name args) \<le> 1024 then Ret (message_line name args)
     else Throw (InvalidMessage ''Message is too long.''))"
  using encode_small [of "Message_new ty args" name] assms by (simp add: MAX_ENCODED_LEN_def)

lemmas encode_types = encodes [of LOGIN "''LOGIN''"] encodes [of CREATE "''CREATE''"] encodes [of PUSH "''PUSH''"]
  encodes [of POP "''POP''"] encodes [of SET "''SET''"] encodes [of GET "''GET''"] encodes [of DATA "''DATA''"]

lemma encode_passes:
  "passes test_message_serialization_encode" "passes test_message_serialization_encode_long"
  "passes test_message_serialization_encode_too_long"
  by (simp_all add: passes_def tests test_message_serialization_encode_def test_message_serialization_encode_long_def
      test_message_serialization_encode_too_long_def encode_types message_line_def Let_def run_simps)

lemma decode_passes: "passes test_message_serialization_decode"
proof -
  have "decode (''LOGIN alice'' @ [newline]) m = (Ret (), Message_new LOGIN [''alice''])"
    "decode (''     CREATE   invoices  '' @ [newline]) m = (Ret (), Message_new CREATE [''invoices''])"
    "decode (''DATA 90125'' @ [newline]) m = (Ret (), Message_new DATA [''90125''])"
    "decode (''GET lineitems foobar'' @ [newline]) m = (Ret (), Message_new GET [''lineitems'', ''foobar''])"
    "decode (''FAILED '' @ quoted ''Something went wrong, shucks!'' @ [newline]) m =
       (Ret (), Message_new FAILED [''Something went wrong, shucks!''])"
    "decode ('' ERROR '' @ quoted ''Wow, something really got messed up'' @ [newline]) m =
       (Ret (), Message_new ERROR [''Wow, something really got messed up''])"
    "decode (''BYE'' @ [newline]) m = (Ret (), Message_new BYE [])" for m
    by (subst decode_result; code_simp)+
  then show ?thesis
    by (simp add: passes_def tests test_message_serialization_decode_def decoded_def run_simps
        get_message_type_def get_num_args_def get_username_def get_table_def get_value_def get_key_def
        get_quoted_text_def vec_index_def)
qed

lemma decode_invalid_passes: "passes test_message_serialization_decode_invalid"
proof -
  have "decode ''PUSH 91025'' m = (Throw (InvalidMessage ''Encoded message is missing a newline.''), m)"
    "decode (''GET foo '' @ replicate MAX_ENCODED_LEN CHR ''x'') m = (Throw (InvalidMessage ''Message is too long.''), m)" for m
    by (simp_all add: decode_result MAX_ENCODED_LEN_def)
  then show ?thesis
    by (simp add: passes_def tests test_message_serialization_decode_invalid_def run_simps)
qed

lemmas table_tests = test_table_has_key_def test_table_get_def test_table_commit_changes_def
  test_table_rollback_changes_def test_table_commit_and_rollback_def

lemma tables_pass:
  "passes test_table_has_key" "passes test_table_get" "passes test_table_commit_changes" "passes test_table_rollback_changes"
  "passes test_table_commit_and_rollback"
  by (simp_all add: passes_def tests table_tests guarded_def guard_table_def Table_new_def run_simps
    table_lock_def table_unlock_def mutex_lock_def mutex_unlock_def mutex_init_def test_thread_def
    table_set_def has_key_def table_get_def commit_changes_def rollback_changes_def umap_at_def umap_contains_def umap_assign_def)

lemma stacks_pass: "passes test_value_stack" "passes test_value_stack_exceptions"
  by (simp_all add: passes_def tests test_value_stack_def test_value_stack_exceptions_def pop_valstack_def
      ValueStack_new_def is_empty_def push_def pop_def get_top_def run_simps)

section \<open>Property\<close>

lemmas all_pass = accessors_pass valid_passes encode_passes decode_passes decode_invalid_passes tables_pass stacks_pass

lemma unit_tests_all: "(func, m) \<in> set unit_tests \<Longrightarrow> passes m"
  unfolding unit_tests_def using all_pass by auto

text \<open>
  C37. The repository's own tests hold of the model. Run by the modelled framework, every
  test function of \<open>unit_tests.cpp\<close> that the command line selects runs and passes; the exit status is 0
  exactly when there is one, and the callbacks that are set are told so.
\<close>

theorem unit_tests_pass:
  "\<exists>s'. unit_tests_main after_jump args (before_main ot oc) =
      (Ret (filter (selected args) (map fst unit_tests) = []), s') \<and>
    executed_calls s' = (if ot then [(f, True). f \<leftarrow> map fst unit_tests, selected args f] else []) \<and>
    complete_calls s' = (if oc then [(int (length (filter (selected args) (map fst unit_tests))),
      int (length (filter (selected args) (map fst unit_tests))))] else [])"
proof -
  let ?tests = "map (\<lambda>(f, m). (f, test_function m, True)) unit_tests"
  define ns where "ns = filter (selected args) (map fst unit_tests)"
  let ?results = "map (\<lambda>f. (f, True)) ns"
  have v: "verdict setup_objs cleanup_objs body passed" if "(func, body, passed) \<in> set ?tests" for func body passed
    using that unit_tests_all passes_verdict by auto
  have r: "[(f, p). (f, b, p) \<leftarrow> map (\<lambda>(f, m). (f, test_function m, True)) ts, selected args f] =
      map (\<lambda>f. (f, True)) (filter (selected args) (map fst ts))" for ts :: "(string \<times> ucmd) list"
    by (induction ts) auto
  have r': "[(f, True). f \<leftarrow> fs, selected args f] = map (\<lambda>f. (f, True)) (filter (selected args) fs)" for fs
    by (induction fs) auto
  have m: "map (\<lambda>(f, b, p). (f, b)) ?tests = map (\<lambda>(func, body). (func, test_function body)) unit_tests"
    by (simp add: case_prod_unfold comp_def)
  have "\<exists>s'. test_main after_jump setup_objs cleanup_objs (map (\<lambda>(f, b, p). (f, b)) ?tests) args (before_main ot oc) =
      (Ret (\<not> (?results \<noteq> [] \<and> (\<forall>(f, p) \<in> set ?results. p))), s') \<and>
    executed_calls s' = (if ot then ?results else []) \<and>
    complete_calls s' = (if oc then [(int (length (filter snd ?results)), int (length ?results))] else [])"
    by (rule test_main_runs) (use v r in \<open>auto simp: ns_def simp del: set_map\<close>)
  moreover have "filter snd ?results = ?results" by (simp add: filter_map comp_def)
  ultimately show ?thesis
    unfolding unit_tests_main_def m r' ns_def [symmetric] by auto
qed

end
