(* ===== verification/Spec2Isabelle.thy ===== *)
theory Spec2Isabelle
  imports Clean_Tables Refusals Lost_Increments Abstract_Server Sio Csapp_Wrappers Unit_Tests
begin

text \<open>
  A verification of the key/value table server of \<open>src/csf_assign05\<close>: the server, its
  three client programs, the message format they share, the input/output package below them
  and the framework of their tests.

  \<^bold>\<open>The program.\<close> \<open>server_main.cpp\<close> listens on a port and enters
  \<open>Server::server_loop\<close>, which accepts clients and gives each a detached thread with a
  \<open>ClientConnection\<close>. The thread reads lines with \<open>rio_readlineb\<close>, decodes them to
  a \<open>Message\<close>, and runs one handler per request; the handlers work on a
  \<open>ValueStack\<close> of their own and on the \<open>Table\<close>s that all threads share through
  the \<open>Server\<close>. Inside a transaction a thread keeps the mutex of every table it touched and
  its writes stay proposals until \<open>COMMIT\<close>; outside, each request commits at once.
  Exceptions of a handler become \<open>FAILED\<close> or \<open>ERROR\<close> replies.
  \<open>get_value.cpp\<close>, \<open>set_value.cpp\<close> and \<open>incr_value.cpp\<close> are clients.

  \<^bold>\<open>The theories\<close>, each with the sources that it models.

  \<^item> \<open>Prelude\<close>: how a statement ends (\<open>outcome\<close>: a value, an exception,
    undefined behaviour, waiting for a mutex), state-passing commands over it with their laws, and
    association lists for \<open>std::unordered_map\<close> (locale \<open>assoc_store\<close>).
  \<^item> \<open>Exceptions\<close> (\<open>exceptions.h\<close>) and \<open>Cxx_Std\<close> (what the sources use
    of the standard library: streams, \<open>stoi\<close>, \<open>to_string\<close>, 32-bit arithmetic).
  \<^item> \<open>Message\<close> (\<open>message.h\<close>, \<open>message.cpp\<close>) and
    \<open>Message_Serialization\<close> (\<open>message_serialization.cpp\<close>): the protocol as a table
    of arities, \<open>encode\<close>, \<open>decode\<close>, their round trip, outcomes and bounds.
  \<^item> \<open>Value_Stack\<close> (\<open>value_stack.cpp\<close>; locale \<open>lifo\<close>) and \<open>Table\<close>
    (\<open>table.cpp\<close>, \<open>guard.h\<close>; locales \<open>exclusive_lock\<close> and
    \<open>transactional_store\<close>). A mutex is the thread that owns it.
  \<^item> \<open>Server\<close> (\<open>server.cpp\<close>): the directory of tables. A \<open>Table*\<close> is an
    index of the list of allocated tables, so two names of one table and the tables that a
    connection remembers are the same objects.
  \<^item> \<open>Rio\<close> (the \<open>rio_\<close> functions of \<open>csapp.c\<close>; locale
    \<open>byte_source\<close>): every read function against the bytes still to come, however the
    kernel cuts or interrupts them.
  \<^item> \<open>Client_Connection\<close> (\<open>client_connection.cpp\<close>): one command per member
    function over the pair of the shared server and the connection. \<open>Request_Handlers\<close>
    gives the result of every handler on every branch, \<open>Request_Invariants\<close> what every
    request keeps, \<open>Requests\<close> the properties of requests and transactions, and \<open>Refusals\<close>
    which requests are refused in a transaction and that these end it without a trace.
  \<^item> \<open>Abstract_Server\<close>: the server as its clients may think of it, a machine of named
    maps with drafts, and the proof (locale \<open>simulation\<close>) that serving refines it.
  \<^item> \<open>Chat\<close> (\<open>chat_with_client\<close>, \<open>client_worker\<close>): the loop of a
    connection, that it ends, and what it leaves behind.
  \<^item> \<open>Sessions\<close> (\<open>server_loop\<close>, \<open>server_main.cpp\<close>): all threads together, as a
    step relation with its reachable states, whose steps are whole iterations of a loop; invariant,
    isolation, absence of deadlock.
  \<^item> \<open>Statements\<close> gives the member functions of \<open>ClientConnection\<close> once more, as
    programs of single accesses to shared data (names ending in \<open>_stmts\<close>), and shows that uninterrupted
    they are the commands above. \<open>Interleaving\<close> runs the programs of all threads in steps of one
    access, with the rule of locking as a predicate transformer. \<open>Disciplines\<close> (locale
    \<open>connection_discipline\<close>) shows what the programs leave alone in a connection: its descriptor, and,
    while a line is handled, its input. \<open>Executions\<close> builds executions
    from whole programs, and shows that those of \<open>Sessions\<close> are among them; \<open>Races\<close> has the
    executions of two clients in which the code goes wrong. \<open>Clean_Tables\<close> follows the data: a second predicate transformer
    says which tables a program may have left with uncommitted proposals.
  \<^item> \<open>Clients\<close> (\<open>get_value.cpp\<close>, \<open>set_value.cpp\<close>,
    \<open>incr_value.cpp\<close>): the client programs over a peer that answers lines (locale
    \<open>answering_peer\<close>). \<open>Client_Sessions\<close> says how the server serves each of their requests, and
    runs them against any peer that serves as it does (locale \<open>server_peer\<close>). \<open>Network\<close> is such a
    peer: the thread of the server behind a connection that cuts the lines into pieces in any way, both ways;
    the properties of single programs are stated there. \<open>Concurrent_Clients\<close> runs any number of programs at
    once, each over a thread of its own, as a step relation whose steps are exchanges (request, iteration, reply), and gives
    \<open>incr_value\<close> as the list of its requests. \<open>Increments\<close> (with \<open>-t\<close>) and
    \<open>Lost_Increments\<close> (without) follow \<open>incr_value\<close> programs on one key: the invariant is how far
    each program is, who owns the table, and how the number there relates to the replies to \<open>COMMIT\<close>.
  \<^item> \<open>Posix\<close>, \<open>Sockets\<close>, \<open>Sio\<close>, \<open>Csapp_Wrappers\<close> (the rest of
    \<open>csapp.c\<close>): error functions, \<open>open_clientfd\<close> and \<open>open_listenfd\<close>,
    signal-safe output, and the error-checking wrappers (locale \<open>checked_call\<close>). System calls
    are parameters; what is assumed of them is \<open>kernel_ok\<close> for the socket calls, and the
    hypotheses on \<open>sleep\<close> for \<open>Sleep\<close>.
  \<^item> \<open>Tctest\<close> (\<open>tctest.h\<close>, \<open>tctest.c\<close>): the test macros, the signal messages
    and the verdict of a run. \<open>Unit_Tests\<close> (\<open>unit_tests.cpp\<close>): the fixture and the 19 test
    functions, all of which pass on the model.

  \<^bold>\<open>What is shown.\<close> Transactions commit all of their writes or none of them; no
  interleaving of the other threads changes a table that a client holds; a waiting thread holds
  nothing, and whoever it waits for can go on (both also between single statements, as long as no
  \<open>GET\<close> met a missing key); between single statements tables change by whole commits, and nothing uncommitted is left
  in a table that is free; a connection ends and leaves no lock; every
  request on every branch has a known result and at most one reply, and the sequence of
  replies is that of the abstract machine; \<open>decode\<close> inverts \<open>encode\<close>; a line
  arrives whole from any sequence of reads; the client programs do what they are
  called, alone and one after the other; any number of \<open>incr_value -t\<close> programs at once lose no increment
  and count none twice, and can always run to their end, while without \<open>-t\<close> two programs can
  both succeed and count once. Where
  the code goes wrong, a theorem says exactly when: \<open>GET\<close> of a missing key (a mutex
  released twice, and an update of another client lost), the directory of tables (searched without
  its mutex), numbers out of range and division by zero (the process stops), refusals
  that the client programs cannot decode, lines longer than the buffer.

  \<^bold>\<open>Bounds and fuel.\<close> The loop of a connection runs on fuel; one iteration per byte and
  event of input and two more are proved to be enough. \<open>Sleep\<close> runs on fuel, and one call per
  signal to come and one more are enough. All other loops are total recursive functions. An
  \<open>int\<close> is a mathematical integer whose range is checked where the code computes with
  data of a client; a \<open>size_t\<close> stored in an \<open>int\<close> is converted explicitly.

  \<^bold>\<open>Limits.\<close> The statements of \<open>Statements\<close> are single accesses to a mutex, a table
  or the directory; each is atomic, so a data race shows as two threads that are about to access the same
  data, not as a torn value. A connection belongs to one thread, so what the thread does with it in between is one
  access. The executions in whole iterations are some of those in statements, and not all: a
  \<open>trylock\<close> can fail because another thread is inside a \<open>SET\<close> that commits at once. In a connection, what is handed to
  \<open>rio_writen\<close> is recorded; that \<open>rio_writen\<close> sends it is shown in \<open>Rio\<close>, and in \<open>Network\<close> what
  was recorded arrives. In \<open>Network\<close> one client is served at a time, and
  in \<open>Concurrent_Clients\<close> the programs take turns after whole exchanges, each with the pieces of its lines
  delivered before the next program moves; a request that would wait for a mutex is tried again later. The tables of a transaction are released in the order in which they were locked,
  where \<open>std::unordered_set\<close> may choose another. \<open>rio_read\<close> is modelled for fewer than \<open>2^31\<close> bytes. A
  header file is modelled by the definitions of the functions it declares.

  \<^bold>\<open>Not modelled\<close>: freeing of memory (the destructors of \<open>Table\<close>,
  \<open>Message\<close>, \<open>ValueStack\<close> and of the test fixture), the \<open>Makefile\<close>, the documents.
  \<open>Table::suggest_set\<close> is declared and defined nowhere.
\<close>

end
